(* ===== verification/Conduit_Prelude.thy ===== *)
theory Conduit_Prelude
  imports Main "HOL-Library.Word" "HOL-Library.AList" "HOL-Library.Product_Lexorder"
begin

text \<open>
  The vocabulary every component of the development shares.

  \<^item> Go's numbers and clocks: instants and durations are integers counting nanoseconds, an
    \<^verbatim>\<open>int64\<close> product wraps around (\<open>wrap64\<close>), \<^verbatim>\<open>time.Time.Sub\<close> saturates, and a
    \<^verbatim>\<open>TIMESTAMPTZ\<close> column keeps microseconds (\<open>pg_ts\<close>).
  \<^item> Go's errors: the sentinel values of the program and \<^verbatim>\<open>fmt.Errorf\<close> wrapping, with
    \<^verbatim>\<open>errors.Is\<close> looking through the wrapping.
  \<^item> SQL: a table is a list of rows, \<^verbatim>\<open>UPDATE ... WHERE\<close> rewrites the rows a predicate
    selects and counts them, \<^verbatim>\<open>ORDER BY ... LIMIT\<close> is a stable sort and a prefix.
    \<^verbatim>\<open>NULLS LAST\<close> and \<^verbatim>\<open>DESC\<close> are linear orders on wrapper types.
  \<^item> One statement against a shared database: before it runs other sessions may have changed the
    table, and the request or the reply may be lost (\<open>call\<close> and \<open>exec\<close>).
\<close>

named_theorems row_simps \<open>what an UPDATE of the development leaves alone in a row\<close>
named_theorems stmt_defs \<open>the SQL statements of the development, unfolded\<close>

section \<open>Numbers, instants and durations\<close>

type_synonym time = int
type_synonym duration = int
type_synonym byte = "8 word"

abbreviation microsecond :: duration where "microsecond \<equiv> 1000"
abbreviation millisecond :: duration where "millisecond \<equiv> 1000000"
abbreviation second :: duration where "second \<equiv> 1000000000"
abbreviation minute :: duration where "minute \<equiv> 60000000000"
abbreviation hour :: duration where "hour \<equiv> 3600000000000"

text \<open>The zero \<^verbatim>\<open>time.Time\<close>: 1 January of year 1, 00:00 UTC, counted from the Unix epoch.\<close>

definition zero_time :: time where
  "zero_time = - 62135596800000000000"

definition min_int64 :: int where "min_int64 = - (2 ^ 63)"
definition max_int64 :: int where "max_int64 = 2 ^ 63 - 1"

definition wrap64 :: "int \<Rightarrow> int" where
  "wrap64 x = (x + 2 ^ 63) mod 2 ^ 64 - 2 ^ 63"

lemma wrap64_range: "min_int64 \<le> wrap64 x \<and> wrap64 x \<le> max_int64"
proof -
  have "0 \<le> (x + 2 ^ 63) mod 2 ^ 64" "(x + 2 ^ 63) mod 2 ^ 64 < (2 ^ 64 :: int)" by simp_all
  then show ?thesis unfolding wrap64_def min_int64_def max_int64_def by simp
qed

lemma wrap64_id: "min_int64 \<le> x \<Longrightarrow> x \<le> max_int64 \<Longrightarrow> wrap64 x = x"
  by (simp add: wrap64_def min_int64_def max_int64_def)

text \<open>\<^verbatim>\<open>t.Sub(u)\<close>: the difference, saturated at the ends of \<^verbatim>\<open>time.Duration\<close>.\<close>

definition time_sub :: "time \<Rightarrow> time \<Rightarrow> duration" where
  "time_sub t u = max min_int64 (min max_int64 (t - u))"

text \<open>The value a \<^verbatim>\<open>TIMESTAMPTZ\<close> column holds after an instant has been written to it.\<close>

definition pg_ts :: "time \<Rightarrow> time" where
  "pg_ts t = t div 1000 * 1000"

definition us_aligned :: "time \<Rightarrow> bool" where
  "us_aligned t \<longleftrightarrow> t mod 1000 = 0"

lemma us_aligned_pg_ts [simp]: "us_aligned (pg_ts t)"
  by (simp add: us_aligned_def pg_ts_def)

lemma pg_ts_aligned: "us_aligned t \<Longrightarrow> pg_ts t = t"
  using div_mult_mod_eq [of t 1000] by (simp add: us_aligned_def pg_ts_def)

lemma pg_ts_idem [simp]: "pg_ts (pg_ts t) = pg_ts t"
  by (simp add: pg_ts_def)

lemma pg_ts_eq: "pg_ts t = t - t mod 1000"
  by (simp add: pg_ts_def minus_mod_eq_div_mult)

lemma pg_ts_le: "pg_ts t \<le> t"
  by (simp add: pg_ts_eq)

lemma pg_ts_less: "t < pg_ts t + 1000"
proof -
  have "t mod 1000 < 1000" by simp
  then show ?thesis unfolding pg_ts_eq by linarith
qed

lemma pg_ts_mono: "t \<le> u \<Longrightarrow> pg_ts t \<le> pg_ts u"
  unfolding pg_ts_def by (simp add: zdiv_mono1)

text \<open>An \<^verbatim>\<open>INT\<close> column is 32 bits wide; a value outside the range is an error.\<close>

definition int4 :: "int \<Rightarrow> bool" where
  "int4 n \<longleftrightarrow> - (2 ^ 31) \<le> n \<and> n < 2 ^ 31"

section \<open>Errors\<close>

datatype sentinel =
    ErrJobNotFound | ErrInvalidTransition | ErrDuplicateIdempotencyKey | ErrLeaseLost
  | ErrScheduleNotFound | ErrDuplicateSchedule | ErrKeyNotFound | ErrInvalidTenant
  | ErrNoRetry | ContextCanceled | ContextDeadlineExceeded

text \<open>
  \<^verbatim>\<open>errors.New\<close> without a name and \<^verbatim>\<open>fmt.Errorf\<close> are both \<open>Errorf\<close>: a message and the
  errors it wraps with \<^verbatim>\<open>%w\<close>. \<open>PgError\<close> is \<^verbatim>\<open>*pgconn.PgError\<close>: SQLSTATE code and
  constraint name. \<^verbatim>\<open>errors.Is\<close> and \<^verbatim>\<open>errors.As\<close> search the tree of wrapped errors.
\<close>

datatype err = Sentinel sentinel | PgError string string | Errorf string "err list"

primrec errors_is :: "err \<Rightarrow> sentinel \<Rightarrow> bool" where
  "errors_is (Sentinel s) t = (s = t)"
| "errors_is (PgError code name) t = False"
| "errors_is (Errorf m es) t = list_ex (\<lambda>b. b) (map (\<lambda>e. errors_is e t) es)"

primrec errors_as_pg :: "err \<Rightarrow> (string \<times> string) option" where
  "errors_as_pg (Sentinel s) = None"
| "errors_as_pg (PgError code name) = Some (code, name)"
| "errors_as_pg (Errorf m es) =
     foldr (\<lambda>x acc. case x of Some p \<Rightarrow> Some p | None \<Rightarrow> acc) (map errors_as_pg es) None"

lemma errors_is_Errorf [simp]: "errors_is (Errorf m es) t = (\<exists>e\<in>set es. errors_is e t)"
  by (simp add: list_ex_iff)

declare errors_is.simps(3) [simp del]

section \<open>SQL\<close>

definition sql_update :: "('r \<Rightarrow> bool) \<Rightarrow> ('r \<Rightarrow> 'r) \<Rightarrow> 'r list \<Rightarrow> nat \<times> 'r list" where
  "sql_update p f rows = (length (filter p rows), map (\<lambda>r. if p r then f r else r) rows)"

definition order_limit :: "('r \<Rightarrow> 'k::linorder) \<Rightarrow> nat \<Rightarrow> 'r list \<Rightarrow> 'r list" where
  "order_limit k n rows = take n (sort_key k rows)"

lemma sql_update_count_0: "fst (sql_update p f rows) = 0 \<longleftrightarrow> (\<forall>r\<in>set rows. \<not> p r)"
  by (auto simp: sql_update_def filter_empty_conv)

lemma sql_update_none: "(\<forall>r\<in>set rows. \<not> p r) \<Longrightarrow> snd (sql_update p f rows) = rows"
  by (auto simp: sql_update_def intro: map_idI)

lemma in_set_sql_update:
  "r' \<in> set (snd (sql_update p f rows)) \<longleftrightarrow>
     (\<exists>r\<in>set rows. r' = (if p r then f r else r))"
  by (auto simp: sql_update_def)

lemma length_sql_update [simp]: "length (snd (sql_update p f rows)) = length rows"
  by (simp add: sql_update_def)

lemma set_order_limit: "set (order_limit k n rows) \<subseteq> set rows"
  by (auto simp: order_limit_def dest: in_set_takeD)

lemma in_order_limitD: "r \<in> set (order_limit k n rows) \<Longrightarrow> r \<in> set rows"
  by (rule subsetD [OF set_order_limit])

lemma length_order_limit [simp]: "length (order_limit k n rows) = min (length rows) n"
  by (simp add: order_limit_def)

lemma sorted_order_limit: "sorted (map k (order_limit k n rows))"
  by (simp add: order_limit_def flip: take_map)

lemma order_limit_least:
  assumes "x \<in> set (order_limit k n rows)" "y \<in> set rows" "y \<notin> set (order_limit k n rows)"
  shows "k x \<le> k y"
proof -
  let ?s = "sort_key k rows"
  have "y \<in> set (take n ?s @ drop n ?s)" using assms(2) by simp
  with assms(3) have y: "y \<in> set (drop n ?s)"
    unfolding order_limit_def set_append by blast
  have "sorted (map k (take n ?s @ drop n ?s))" by simp
  then have "\<forall>a\<in>set (take n ?s). \<forall>b\<in>set (drop n ?s). k a \<le> k b"
    unfolding map_append sorted_append by auto
  with assms(1) y show ?thesis by (simp add: order_limit_def)
qed

lemma order_limit_all: "length rows \<le> n \<Longrightarrow> set (order_limit k n rows) = set rows"
  by (simp add: order_limit_def)

lemma order_limit_distinct:
  "distinct (map h rows) \<Longrightarrow> distinct (map h (order_limit k n rows))"
proof -
  assume "distinct (map h rows)"
  then have "distinct (map h (sort_key k rows))"
    by (metis distinct_map distinct_sort inj_on_def set_sort)
  then have "distinct (take n (map h (sort_key k rows)))" by (rule distinct_take)
  then show ?thesis by (simp add: order_limit_def take_map)
qed

text \<open>The batch a bounded statement works on: the first \<open>n\<close> of the rows it selects.\<close>

lemma order_limit_batch:
  assumes "distinct rows"
  shows "set (order_limit k n (filter p rows)) \<subseteq> {r \<in> set rows. p r}"
    "card (set (order_limit k n (filter p rows))) = min n (card {r \<in> set rows. p r})"
proof -
  show "set (order_limit k n (filter p rows)) \<subseteq> {r \<in> set rows. p r}"
    using set_order_limit [of k n "filter p rows"] by simp
  have "distinct (order_limit k n (filter p rows))" using assms by (simp add: order_limit_def)
  then have "card (set (order_limit k n (filter p rows))) = min (length (filter p rows)) n"
    by (simp only: distinct_card length_order_limit)
  also have "length (filter p rows) = card {r \<in> set rows. p r}"
    using assms distinct_card [of "filter p rows"] by simp
  finally show "card (set (order_limit k n (filter p rows))) = min n (card {r \<in> set rows. p r})"
    by (simp add: min.commute)
qed

text \<open>\<^verbatim>\<open>ORDER BY ... LIMIT 1\<close>.\<close>

definition first_by :: "('r \<Rightarrow> 'k::linorder) \<Rightarrow> 'r list \<Rightarrow> 'r option" where
  "first_by k rows = (case order_limit k 1 rows of [] \<Rightarrow> None | r # _ \<Rightarrow> Some r)"

lemma first_by_None [simp]: "first_by k rows = None \<longleftrightarrow> rows = []"
proof -
  have "order_limit k 1 rows = [] \<longleftrightarrow> length (order_limit k 1 rows) = 0"
    by (rule length_0_conv [symmetric])
  also have "\<dots> \<longleftrightarrow> rows = []" unfolding length_order_limit by (cases rows) auto
  finally show ?thesis by (auto simp: first_by_def split: list.splits)
qed

lemma first_by_Some:
  assumes "first_by k rows = Some r"
  shows "r \<in> set rows" "x \<in> set rows \<Longrightarrow> k r \<le> k x"
proof -
  have len: "length (order_limit k 1 rows) \<le> 1" by simp
  from assms obtain rs where e: "order_limit k 1 rows = r # rs"
    by (auto simp: first_by_def split: list.splits)
  with len have o: "order_limit k 1 rows = [r]" by (metis One_nat_def Suc_le_mono le_zero_eq length_0_conv length_Cons)
  show "r \<in> set rows" using o in_order_limitD [of r k 1 rows] by simp
  show "k r \<le> k x" if "x \<in> set rows"
    using o that order_limit_least [of r k 1 rows x] by (cases "x = r") auto
qed

text \<open>
  The key of a row is what no UPDATE of the development writes. The facts the components need of
  their primary keys are proved once here and interpreted for each table.
\<close>

locale keyed_update =
  fixes pk :: "'r \<Rightarrow> 'k" and upd :: "'r \<Rightarrow> 'r"
  assumes pk_upd: "pk (upd r) = pk r"
begin

lemma map_pk_update: "map pk (snd (sql_update p upd rows)) = map pk rows"
  by (simp add: sql_update_def pk_upd)

lemma distinct_pk_update:
  "distinct (map pk rows) \<Longrightarrow> distinct (map pk (snd (sql_update p upd rows)))"
  by (simp only: map_pk_update)

lemma find_pk_update:
  "find (\<lambda>r. pk r = i) (snd (sql_update p upd rows)) =
     map_option (\<lambda>r. if p r then upd r else r) (find (\<lambda>r. pk r = i) rows)"
  by (induction rows) (auto simp: sql_update_def pk_upd)

lemma other_rows_update:
  assumes "r \<in> set (snd (sql_update p upd rows))" "\<forall>r'\<in>set rows. p r' \<longrightarrow> pk r' = i" "pk r \<noteq> i"
  shows "r \<in> set rows"
  using assms by (auto simp: in_set_sql_update pk_upd split: if_splits)

end

subsection \<open>NULLS LAST and DESC\<close>

datatype 'a nulls_last = Val 'a | Null

fun with_nulls_last :: "'a option \<Rightarrow> 'a nulls_last" where
  "with_nulls_last (Some a) = Val a"
| "with_nulls_last None = Null"

instantiation nulls_last :: (linorder) linorder
begin

fun less_eq_nulls_last :: "'a nulls_last \<Rightarrow> 'a nulls_last \<Rightarrow> bool" where
  "less_eq_nulls_last (Val a) (Val b) = (a \<le> b)"
| "less_eq_nulls_last (Val a) Null = True"
| "less_eq_nulls_last Null (Val b) = False"
| "less_eq_nulls_last Null Null = True"

definition less_nulls_last :: "'a nulls_last \<Rightarrow> 'a nulls_last \<Rightarrow> bool" where
  "less_nulls_last a b = (a \<le> b \<and> \<not> b \<le> a)"

instance
proof
  fix x y z :: "'a nulls_last"
  show "x < y \<longleftrightarrow> x \<le> y \<and> \<not> y \<le> x" by (simp add: less_nulls_last_def)
  show "x \<le> x" by (cases x) auto
  show "x \<le> y \<Longrightarrow> y \<le> z \<Longrightarrow> x \<le> z" by (cases x; cases y; cases z) auto
  show "x \<le> y \<Longrightarrow> y \<le> x \<Longrightarrow> x = y" by (cases x; cases y) auto
  show "x \<le> y \<or> y \<le> x" by (cases x; cases y) auto
qed

end

datatype 'a desc = Desc 'a

instantiation desc :: (linorder) linorder
begin

fun less_eq_desc :: "'a desc \<Rightarrow> 'a desc \<Rightarrow> bool" where
  "less_eq_desc (Desc a) (Desc b) = (b \<le> a)"

fun less_desc :: "'a desc \<Rightarrow> 'a desc \<Rightarrow> bool" where
  "less_desc (Desc a) (Desc b) = (b < a)"

instance
proof
  fix x y z :: "'a desc"
  show "x < y \<longleftrightarrow> x \<le> y \<and> \<not> y \<le> x" by (cases x; cases y) auto
  show "x \<le> x" by (cases x) auto
  show "x \<le> y \<Longrightarrow> y \<le> z \<Longrightarrow> x \<le> z" by (cases x; cases y; cases z) auto
  show "x \<le> y \<Longrightarrow> y \<le> x \<Longrightarrow> x = y" by (cases x; cases y) auto
  show "x \<le> y \<or> y \<le> x" by (cases x; cases y) auto
qed

end

section \<open>One statement against a shared database\<close>

text \<open>
  \<open>Done\<close>: the statement ran and its result came back. \<open>Lost_request\<close>: an error, and nothing
  ran. \<open>Lost_reply\<close>: the statement committed and the caller sees an error all the same.
\<close>

datatype io = Done | Lost_request string | Lost_reply string

record 's call =
  io :: io
  pgnow :: time                   \<comment> \<open>what \<^verbatim>\<open>NOW()\<close> reads in the statement\<close>
  rely :: "'s \<Rightarrow> 's"          \<comment> \<open>what other sessions committed before it\<close>
  locked :: "string \<Rightarrow> bool"  \<comment> \<open>the rows other sessions hold locked\<close>

definition exec :: "'s call \<Rightarrow> ('s \<Rightarrow> (err + 'a) \<times> 's) \<Rightarrow> 's \<Rightarrow> (err + 'a) \<times> 's" where
  "exec c f s = (let s1 = rely c s; (r, s2) = f s1 in
     case io c of Done \<Rightarrow> (r, s2)
     | Lost_request m \<Rightarrow> (Inl (Errorf m []), s1)
     | Lost_reply m \<Rightarrow> (Inl (Errorf m []), s2))"

lemma exec_state: "snd (exec c f s) = rely c s \<or> snd (exec c f s) = snd (f (rely c s))"
  by (auto simp: exec_def Let_def split: io.splits prod.splits)

lemma exec_Inr:
  "exec c f s = (Inr a, s') \<Longrightarrow> f (rely c s) = (Inr a, s')"
  by (auto simp: exec_def Let_def split: io.splits prod.splits)

lemma exec_invariant:
  assumes "P (rely c s)" "P (snd (f (rely c s)))"
  shows "P (snd (exec c f s))"
  using exec_state [of c f s] assms by auto

lemma exec_error_sentinel:
  "exec c f s = (Inl e, s') \<Longrightarrow> errors_is e t \<Longrightarrow> f (rely c s) = (Inl e, s')"
  by (auto simp: exec_def Let_def split: io.splits prod.splits)

text \<open>A statement that runs alone and whose reply arrives.\<close>

definition quiet :: "time \<Rightarrow> 's call" where
  "quiet t = \<lparr>io = Done, pgnow = t, rely = (\<lambda>s. s), locked = (\<lambda>_. False)\<rparr>"

lemma exec_quiet [simp]: "exec (quiet t) f s = f s"
  by (simp add: exec_def quiet_def split: prod.splits)

lemma quiet_simps [simp]:
  "io (quiet t) = Done" "pgnow (quiet t) = t" "rely (quiet t) = (\<lambda>s. s)"
  "locked (quiet t) = (\<lambda>_. False)"
  by (simp_all add: quiet_def)

section \<open>Generic list and map facts\<close>

lemma find_eq_Some:
  "distinct (map k xs) \<Longrightarrow> x \<in> set xs \<Longrightarrow> find (\<lambda>y. k y = k x) xs = Some x"
  by (induction xs) force+

lemma find_append_new: "\<forall>x\<in>set xs. \<not> p x \<Longrightarrow> p y \<Longrightarrow> find p (xs @ [y]) = Some y"
  by (induction xs) auto

lemma find_SomeD: "find p xs = Some x \<Longrightarrow> x \<in> set xs \<and> p x"
  by (induction xs) (auto split: if_splits)

lemma find_None_ball: "find p xs = None \<longleftrightarrow> (\<forall>x\<in>set xs. \<not> p x)"
  by (induction xs) auto

lemma distinct_map_inj:
  "distinct (map k xs) \<Longrightarrow> x \<in> set xs \<Longrightarrow> y \<in> set xs \<Longrightarrow> k x = k y \<Longrightarrow> x = y"
  by (simp add: distinct_map inj_on_def)

end
