(* ===== verification/Go_Strings.thy ===== *)
theory Go_Strings
  imports Conduit_Prelude "HOL-Library.Sublist"
begin

text \<open>
  The part of Go's standard library on strings that the program uses. A Go string is a list of
  bytes, and so is a value of type \<^typ>\<open>string\<close> here (a \<^typ>\<open>char\<close> is one byte).

  \<^item> \<^verbatim>\<open>strconv\<close>: \<open>itoa\<close> (\<^verbatim>\<open>%d\<close>), \<open>parse_int\<close> (\<^verbatim>\<open>ParseInt\<close> in base 10
    with a bit size), \<open>atoi\<close>.
  \<^item> \<^verbatim>\<open>strings\<close>: \<open>split_char\<close>, \<open>split2\<close> (\<^verbatim>\<open>SplitN(s, sep, 2)\<close>), \<open>trim_space\<close>,
    \<open>fields\<close>, \<open>has_prefix\<close>, \<open>has_suffix\<close>, \<open>to_lower\<close>, \<open>to_upper\<close>. White
    space is Unicode's, given by the UTF-8 encodings of its code points. Letter case is changed
    for ASCII letters; other bytes are kept.
  \<^item> \<^verbatim>\<open>encoding/hex\<close> and the UUID layout the program builds from 16 random bytes.

  The lemmas are the round trips and the shape facts the components need.
\<close>

section \<open>Characters\<close>

definition is_digit :: "char \<Rightarrow> bool" where
  "is_digit c \<longleftrightarrow> 48 \<le> (of_char c :: nat) \<and> (of_char c :: nat) \<le> 57"

definition digit_char :: "nat \<Rightarrow> char" where
  "digit_char d = char_of (48 + d)"

definition digit_val :: "char \<Rightarrow> nat" where
  "digit_val c = of_char c - 48"

lemma of_char_digit [simp]: "d < 10 \<Longrightarrow> (of_char (digit_char d) :: nat) = 48 + d"
  by (simp add: digit_char_def of_char_of)

lemma digit_char_facts [simp]:
  "d < 10 \<Longrightarrow> is_digit (digit_char d)" "d < 10 \<Longrightarrow> digit_val (digit_char d) = d"
  by (simp_all add: is_digit_def digit_val_def)

section \<open>Integers in decimal\<close>

fun nat_digits :: "nat \<Rightarrow> string" where
  "nat_digits n = (if n < 10 then [digit_char n] else nat_digits (n div 10) @ [digit_char (n mod 10)])"

declare nat_digits.simps [simp del]

definition itoa :: "int \<Rightarrow> string" where
  "itoa i = (if i < 0 then CHR ''-'' # nat_digits (nat (- i)) else nat_digits (nat i))"

fun digits_value :: "nat \<Rightarrow> string \<Rightarrow> nat option" where
  "digits_value acc [] = Some acc"
| "digits_value acc (c # cs) =
     (if is_digit c then digits_value (10 * acc + digit_val c) cs else None)"

text \<open>
  \<^verbatim>\<open>strconv.ParseInt(s, 10, bits)\<close>, \<open>None\<close> for a syntax or a range error: an optional sign,
  then at least one digit and nothing else.
\<close>

definition parse_int :: "nat \<Rightarrow> string \<Rightarrow> int option" where
  "parse_int bits s =
     (let neg = (s \<noteq> [] \<and> hd s = CHR ''-'');
          body = (if s \<noteq> [] \<and> (hd s = CHR ''-'' \<or> hd s = CHR ''+'') then tl s else s)
      in if body = [] then None
         else case digits_value 0 body of None \<Rightarrow> None
           | Some n \<Rightarrow>
               if neg then (if int n \<le> 2 ^ (bits - 1) then Some (- int n) else None)
               else (if int n < 2 ^ (bits - 1) then Some (int n) else None))"

definition atoi :: "string \<Rightarrow> int option" where
  "atoi s = parse_int 64 s"

lemma nat_digits_nonempty [simp]: "nat_digits n \<noteq> []"
  by (subst nat_digits.simps) simp

lemma nat_digits_digits: "c \<in> set (nat_digits n) \<Longrightarrow> is_digit c"
proof (induction n rule: nat_digits.induct)
  case (1 n)
  show ?case
  proof (cases "n < 10")
    case True
    with "1.prems" show ?thesis by (simp add: nat_digits.simps [of n])
  next
    case False
    with "1.prems" consider "c \<in> set (nat_digits (n div 10))" | "c = digit_char (n mod 10)"
      by (auto simp: nat_digits.simps [of n])
    then show ?thesis using False "1.IH" by cases auto
  qed
qed

lemma digits_value_append:
  "digits_value acc (xs @ ys) =
     (case digits_value acc xs of None \<Rightarrow> None | Some a \<Rightarrow> digits_value a ys)"
  by (induction xs arbitrary: acc) auto

lemma digits_value_digits [simp]: "digits_value 0 (nat_digits n) = Some n"
proof (induction n rule: nat_digits.induct)
  case (1 n)
  show ?case
  proof (cases "n < 10")
    case True
    then show ?thesis by (simp add: nat_digits.simps [of n])
  next
    case False
    with "1.IH" show ?thesis
      by (simp add: nat_digits.simps [of n] digits_value_append)
  qed
qed

lemma nat_digits_inj: "nat_digits m = nat_digits n \<longleftrightarrow> m = n"
  by (metis digits_value_digits option.inject)

lemma hd_nat_digits: "is_digit (hd (nat_digits n))"
  by (rule nat_digits_digits [of _ n]) simp

lemma not_digit_sign [simp]: "\<not> is_digit (CHR ''-'')" "\<not> is_digit (CHR ''+'')"
  by (simp_all add: is_digit_def)

lemma itoa_nonempty [simp]: "itoa i \<noteq> []"
  by (simp add: itoa_def)

lemma set_itoa: "c \<in> set (itoa i) \<Longrightarrow> is_digit c \<or> c = CHR ''-''"
  by (auto simp: itoa_def dest: nat_digits_digits split: if_splits)

lemma itoa_inj: "itoa i = itoa j \<longleftrightarrow> i = j"
proof
  assume e: "itoa i = itoa j"
  have h: "hd (nat_digits n) \<noteq> CHR ''-''" for n using hd_nat_digits [of n] by auto
  then have m: "CHR ''-'' # xs \<noteq> nat_digits n" for xs n by (metis list.sel(1))
  show "i = j"
    using e m [of _ "nat i"] m [of _ "nat j"]
    by (auto simp: itoa_def nat_digits_inj split: if_splits)
qed simp

lemma parse_int_itoa:
  assumes "- (2 ^ (bits - 1)) \<le> i" "i < 2 ^ (bits - 1)"
  shows "parse_int bits (itoa i) = Some i"
proof (cases "i < 0")
  case True
  with assms show ?thesis by (simp add: parse_int_def itoa_def)
next
  case False
  have "hd (nat_digits (nat i)) \<noteq> CHR ''-''" "hd (nat_digits (nat i)) \<noteq> CHR ''+''"
    using hd_nat_digits [of "nat i"] by auto
  with False assms show ?thesis by (simp add: parse_int_def itoa_def Let_def)
qed

lemma parse_int_range:
  "parse_int bits s = Some i \<Longrightarrow> - (2 ^ (bits - 1)) \<le> i \<and> i < 2 ^ (bits - 1)"
  by (auto simp: parse_int_def Let_def intro: order_trans [of _ 0] le_less_trans [of _ 0]
      split: option.splits if_splits)

section \<open>Splitting, trimming, prefixes\<close>

fun split_char :: "char \<Rightarrow> string \<Rightarrow> string list" where
  "split_char c [] = [[]]"
| "split_char c (x # xs) =
     (if x = c then [] # split_char c xs
      else (case split_char c xs of [] \<Rightarrow> [[x]] | p # ps \<Rightarrow> (x # p) # ps))"

fun split2 :: "char \<Rightarrow> string \<Rightarrow> string list" where
  "split2 c [] = [[]]"
| "split2 c (x # xs) =
     (if x = c then [[], xs]
      else (case split2 c xs of [] \<Rightarrow> [[x]] | p # ps \<Rightarrow> (x # p) # ps))"

lemma split_char_nonempty [simp]: "split_char c s \<noteq> []"
  by (induction s) (auto split: list.splits)

lemma split2_none: "c \<notin> set s \<Longrightarrow> split2 c s = [s]"
  by (induction s) auto

lemma split2_append: "c \<notin> set p \<Longrightarrow> split2 c (p @ c # q) = [p, q]"
  by (induction p) auto

lemma split_char_none: "c \<notin> set s \<Longrightarrow> split_char c s = [s]"
  by (induction s) auto

lemma split_char_parts: "p \<in> set (split_char c s) \<Longrightarrow> c \<notin> set p"
  by (induction s arbitrary: p) (auto split: if_splits list.splits)

definition has_prefix :: "string \<Rightarrow> string \<Rightarrow> bool" where
  "has_prefix s p \<longleftrightarrow> take (length p) s = p"

definition has_suffix :: "string \<Rightarrow> string \<Rightarrow> bool" where
  "has_suffix s p \<longleftrightarrow> has_prefix (rev s) (rev p)"

definition chars :: "nat list \<Rightarrow> string" where
  "chars = map char_of"

text \<open>The UTF-8 encodings of the code points with Unicode's property White\_Space.\<close>

definition space_encodings :: "string list" where
  "space_encodings =
     [chars [9], chars [10], chars [11], chars [12], chars [13], chars [32],
      chars [194, 133], chars [194, 160], chars [225, 154, 128],
      chars [226, 128, 128], chars [226, 128, 129], chars [226, 128, 130], chars [226, 128, 131],
      chars [226, 128, 132], chars [226, 128, 133], chars [226, 128, 134], chars [226, 128, 135],
      chars [226, 128, 136], chars [226, 128, 137], chars [226, 128, 138], chars [226, 128, 168],
      chars [226, 128, 169], chars [226, 128, 175], chars [226, 129, 159], chars [227, 128, 128]]"

definition lead_space :: "string list \<Rightarrow> string \<Rightarrow> nat" where
  "lead_space encs s = (case find (has_prefix s) encs of None \<Rightarrow> 0 | Some e \<Rightarrow> length e)"

lemma lead_space_le: "lead_space encs s \<le> length s"
proof (cases "find (has_prefix s) encs")
  case (Some e)
  then have "take (length e) s = e" using find_SomeD [OF Some] by (simp add: has_prefix_def)
  then have "length e \<le> length s" by (metis length_take min.cobounded1)
  with Some show ?thesis by (simp add: lead_space_def)
qed (simp add: lead_space_def)

function trim_left_by :: "string list \<Rightarrow> string \<Rightarrow> string" where
  "trim_left_by encs s =
     (if lead_space encs s = 0 then s else trim_left_by encs (drop (lead_space encs s) s))"
  by pat_completeness auto
termination
proof (relation "measure (\<lambda>(encs, s). length s)")
  fix encs :: "string list" and s :: string
  assume "lead_space encs s \<noteq> 0"
  with lead_space_le [of encs s]
  show "((encs, drop (lead_space encs s) s), (encs, s)) \<in> measure (\<lambda>(encs, s). length s)"
    by auto
qed simp

declare trim_left_by.simps [simp del]

definition trim_space :: "string \<Rightarrow> string" where
  "trim_space s =
     rev (trim_left_by (map rev space_encodings) (rev (trim_left_by space_encodings s)))"

text \<open>\<^verbatim>\<open>strings.Fields\<close>: the maximal runs of bytes between white space.\<close>

function fields_from :: "string \<Rightarrow> string \<Rightarrow> string list" where
  "fields_from cur s =
     (if s = [] then (if cur = [] then [] else [rev cur])
      else if lead_space space_encodings s = 0 then fields_from (hd s # cur) (tl s)
      else (if cur = [] then [] else [rev cur]) @
           fields_from [] (drop (lead_space space_encodings s) s))"
  by pat_completeness auto
termination
proof (relation "measure (\<lambda>(cur, s). length s)")
  fix cur s :: string
  assume "s \<noteq> []" "lead_space space_encodings s \<noteq> 0"
  then show "(([], drop (lead_space space_encodings s) s), (cur, s)) \<in> measure (\<lambda>(cur, s). length s)"
    by auto
qed auto

declare fields_from.simps [simp del]

definition fields :: "string \<Rightarrow> string list" where
  "fields s = fields_from [] s"

definition lower_char :: "char \<Rightarrow> char" where
  "lower_char c = (let n = (of_char c :: nat) in if 65 \<le> n \<and> n \<le> 90 then char_of (n + 32) else c)"

definition upper_char :: "char \<Rightarrow> char" where
  "upper_char c = (let n = (of_char c :: nat) in if 97 \<le> n \<and> n \<le> 122 then char_of (n - 32) else c)"

definition to_lower :: "string \<Rightarrow> string" where "to_lower = map lower_char"
definition to_upper :: "string \<Rightarrow> string" where "to_upper = map upper_char"

text \<open>
  \<^verbatim>\<open>strings.EqualFold\<close> against an ASCII text. Two code points outside ASCII fold to an ASCII
  letter: U+017F to \<^verbatim>\<open>s\<close> and U+212A to \<^verbatim>\<open>k\<close>.
\<close>

fun fold_case :: "string \<Rightarrow> string" where
  "fold_case s =
     (if s = [] then []
      else if has_prefix s (chars [197, 191]) then CHR ''s'' # fold_case (drop 2 s)
      else if has_prefix s (chars [226, 132, 170]) then CHR ''k'' # fold_case (drop 3 s)
      else lower_char (hd s) # fold_case (tl s))"

declare fold_case.simps [simp del]

definition equal_fold_ascii :: "string \<Rightarrow> string \<Rightarrow> bool" where
  "equal_fold_ascii s ascii \<longleftrightarrow> fold_case s = to_lower ascii"

section \<open>Hexadecimal and UUIDs\<close>

definition hex_digits :: string where
  "hex_digits = ''0123456789abcdef''"

definition hex_byte :: "byte \<Rightarrow> string" where
  "hex_byte b = [hex_digits ! (unat b div 16), hex_digits ! (unat b mod 16)]"

definition hex_encode :: "byte list \<Rightarrow> string" where
  "hex_encode bs = concat (map hex_byte bs)"

lemma length_hex_encode [simp]: "length (hex_encode bs) = 2 * length bs"
  by (induction bs) (auto simp: hex_encode_def hex_byte_def)

lemma hex_digit_inj: "i < 16 \<Longrightarrow> j < 16 \<Longrightarrow> hex_digits ! i = hex_digits ! j \<Longrightarrow> i = j"
proof -
  have "distinct hex_digits" "length hex_digits = 16" by (simp_all add: hex_digits_def)
  then show "i < 16 \<Longrightarrow> j < 16 \<Longrightarrow> hex_digits ! i = hex_digits ! j \<Longrightarrow> i = j"
    by (simp add: nth_eq_iff_index_eq)
qed

lemma hex_byte_inj: "hex_byte a = hex_byte b \<longleftrightarrow> a = b"
proof
  assume e: "hex_byte a = hex_byte b"
  have lt: "unat x < 256" for x :: byte
  proof -
    have "unat x < 2 ^ LENGTH(8)" by (rule unsigned_less)
    then show ?thesis by simp
  qed
  have "unat a div 16 = unat b div 16" "unat a mod 16 = unat b mod 16"
    using e hex_digit_inj [of "unat a div 16" "unat b div 16"]
      hex_digit_inj [of "unat a mod 16" "unat b mod 16"] lt [of a] lt [of b]
    by (auto simp: hex_byte_def)
  then have "unat a = unat b" by (metis div_mult_mod_eq)
  then show "a = b" by (rule unsigned_word_eqI)
qed simp

lemma hex_encode_inj: "length as = length bs \<Longrightarrow> hex_encode as = hex_encode bs \<longleftrightarrow> as = bs"
proof (induction as bs rule: list_induct2)
  case (Cons a as b bs)
  have "length (hex_byte a) = length (hex_byte b)" by (simp add: hex_byte_def)
  with Cons.IH show ?case by (simp add: hex_encode_def append_eq_append_conv hex_byte_inj)
qed (simp add: hex_encode_def)

text \<open>The 8-4-4-4-12 layout.\<close>

definition uuid_layout :: "string \<Rightarrow> string" where
  "uuid_layout h = take 8 h @ ''-'' @ take 4 (drop 8 h) @ ''-'' @ take 4 (drop 12 h) @ ''-'' @
     take 4 (drop 16 h) @ ''-'' @ drop 20 h"

unbundle bit_operations_syntax

definition uuid_bytes :: "byte list \<Rightarrow> byte list" where
  "uuid_bytes b = b[6 := (b ! 6 AND 15) OR 64, 8 := (b ! 8 AND 63) OR 128]"

section \<open>Text without white space\<close>

text \<open>Printable ASCII, the characters no encoding of a space begins or ends with.\<close>

definition plain :: "char \<Rightarrow> bool" where
  "plain c \<longleftrightarrow> 33 \<le> (of_char c :: nat) \<and> (of_char c :: nat) \<le> 126"

lemma space_encodings_not_plain:
  "\<forall>e\<in>set space_encodings. e \<noteq> [] \<and> \<not> plain (hd e)"
  "\<forall>e\<in>set (map rev space_encodings). e \<noteq> [] \<and> \<not> plain (hd e)"
  by (simp_all add: space_encodings_def chars_def plain_def)

lemma lead_space_plain:
  assumes "\<forall>e\<in>set encs. e \<noteq> [] \<and> \<not> plain (hd e)" "plain c"
  shows "lead_space encs (c # s) = 0"
proof -
  have "\<not> has_prefix (c # s) e" if "e \<in> set encs" for e
    using assms that by (cases e) (auto simp: has_prefix_def)
  then have "find (has_prefix (c # s)) encs = None" by (simp add: find_None_ball)
  then show ?thesis by (simp add: lead_space_def)
qed

lemma lead_space_blank: "lead_space space_encodings (CHR '' '' # s) = 1"
  by (simp add: lead_space_def space_encodings_def chars_def has_prefix_def) (simp add: char_of_def bit_0)

lemma trim_left_plain:
  assumes "\<forall>e\<in>set encs. e \<noteq> [] \<and> \<not> plain (hd e)" "s = [] \<or> plain (hd s)"
  shows "trim_left_by encs s = s"
proof (cases s)
  case Nil
  then show ?thesis using lead_space_le [of encs "[]"] by (simp add: trim_left_by.simps)
next
  case (Cons c t)
  with assms lead_space_plain [OF assms(1), of c t] show ?thesis by (simp add: trim_left_by.simps)
qed

lemma trim_space_plain:
  assumes "\<forall>c\<in>set s. plain c"
  shows "trim_space s = s"
proof -
  have "xs = [] \<or> plain (hd xs)" if "set xs = set s" for xs using assms that hd_in_set by blast
  from this [of s] this [of "rev s"] have "trim_left_by space_encodings s = s"
    "trim_left_by (map rev space_encodings) (rev s) = rev s"
    by (intro trim_left_plain space_encodings_not_plain; simp)+
  then show ?thesis unfolding trim_space_def by simp
qed

lemma fields_from_plain: "plain c \<Longrightarrow> fields_from cur (c # s) = fields_from (c # cur) s"
  by (simp add: fields_from.simps [of cur "c # s"] lead_space_plain [OF space_encodings_not_plain(1)])

lemma fields_from_blank:
  "fields_from cur (CHR '' '' # s) = (if cur = [] then [] else [rev cur]) @ fields_from [] s"
  by (simp add: fields_from.simps [of cur "CHR '' '' # s"] lead_space_blank)

lemma fields_from_Nil: "fields_from cur [] = (if cur = [] then [] else [rev cur])"
  by (simp add: fields_from.simps)

lemmas fields_eval = fields_def fields_from_plain fields_from_blank fields_from_Nil plain_def

lemma fold_case_ascii: "\<forall>c\<in>set s. (of_char c :: nat) < 128 \<Longrightarrow> fold_case s = to_lower s"
proof (induction s rule: fold_case.induct)
  case (1 s)
  show ?case
  proof (cases s)
    case (Cons a t)
    have ascii: "\<not> has_prefix s (chars (n # ns))" if "128 \<le> n" "n < 256" for n ns
    proof
      assume "has_prefix s (chars (n # ns))"
      then have "a = char_of n" using Cons by (auto simp: has_prefix_def chars_def)
      then have "(of_char a :: nat) = n" using that by simp
      with 1(4) Cons that show False by auto
    qed
    have "fold_case t = to_lower t" using 1(3) Cons 1(4) ascii by simp
    then show ?thesis using Cons ascii by (subst fold_case.simps) (simp add: to_lower_def)
  qed (simp add: fold_case.simps to_lower_def)
qed

end
