(* ===== verification/Models.thy ===== *)
theory Models
  imports Go_Strings
begin

text \<open>
  \<^verbatim>\<open>pkg/models\<close>: the records that cross every boundary of the program. A Go string constant of
  type \<^verbatim>\<open>JobState\<close> is a constructor of \<open>job_state\<close>; any other string (the empty one included,
  which is the zero value) is \<open>Unlisted\<close>. A Go map is an association list and \<open>None\<close> is the nil
  map, which \<^verbatim>\<open>json.Marshal\<close> prints as \<^verbatim>\<open>null\<close>. A nil \<^verbatim>\<open>*time.Time\<close> is \<open>None\<close>.
\<close>

datatype job_state =
    JobStatePending | JobStateRunning | JobStateCompleted | JobStateFailed | JobStateDead
  | Unlisted string

definition state_string :: "job_state \<Rightarrow> string" where
  "state_string s = (case s of JobStatePending \<Rightarrow> ''PENDING'' | JobStateRunning \<Rightarrow> ''RUNNING''
     | JobStateCompleted \<Rightarrow> ''COMPLETED'' | JobStateFailed \<Rightarrow> ''FAILED'' | JobStateDead \<Rightarrow> ''DEAD''
     | Unlisted t \<Rightarrow> t)"

definition JobState :: "string \<Rightarrow> job_state" where
  "JobState t = (if t = ''PENDING'' then JobStatePending else if t = ''RUNNING'' then JobStateRunning
     else if t = ''COMPLETED'' then JobStateCompleted else if t = ''FAILED'' then JobStateFailed
     else if t = ''DEAD'' then JobStateDead else Unlisted t)"

lemma state_string_JobState [simp]: "state_string (JobState t) = t"
  by (simp add: state_string_def JobState_def)

type_synonym string_map = "(string \<times> string) list"

record task =
  t_id :: string
  t_name :: string
  t_payload :: string
  t_retry_count :: int
  t_max_retries :: int
  t_timeout :: duration
  t_cron_expression :: string
  t_queue :: string
  t_metadata :: "string_map option"
  t_priority :: int

definition DefaultQueue :: string where "DefaultQueue = ''default''"
definition DefaultTenant :: string where "DefaultTenant = ''default''"

record job =
  j_id :: string
  j_tenant_id :: string
  j_idempotency_key :: string
  j_task :: task
  j_state :: job_state
  j_attempt :: int
  j_scheduled_at :: "time option"
  j_started_at :: "time option"
  j_lease_expires_at :: "time option"
  j_lease_token :: string
  j_completed_at :: "time option"
  j_last_error :: string
  j_metadata :: "string_map option"
  j_created_at :: time
  j_updated_at :: time

record schedule =
  s_id :: string
  s_tenant_id :: string
  s_name :: string
  s_cron :: string
  s_task :: task
  s_enabled :: bool
  s_next_run_at :: time
  s_last_run_at :: "time option"
  s_last_job_id :: string
  s_created_at :: time
  s_updated_at :: time

text \<open>The zero values of the three structs.\<close>

definition zero_task :: task where
  "zero_task = \<lparr>t_id = '''', t_name = '''', t_payload = '''', t_retry_count = 0, t_max_retries = 0,
     t_timeout = 0, t_cron_expression = '''', t_queue = '''', t_metadata = None, t_priority = 0\<rparr>"

definition zero_job :: job where
  "zero_job = \<lparr>j_id = '''', j_tenant_id = '''', j_idempotency_key = '''', j_task = zero_task,
     j_state = Unlisted '''', j_attempt = 0, j_scheduled_at = None, j_started_at = None,
     j_lease_expires_at = None, j_lease_token = '''', j_completed_at = None, j_last_error = '''',
     j_metadata = None, j_created_at = zero_time, j_updated_at = zero_time\<rparr>"

definition zero_schedule :: schedule where
  "zero_schedule = \<lparr>s_id = '''', s_tenant_id = '''', s_name = '''', s_cron = '''', s_task = zero_task,
     s_enabled = False, s_next_run_at = zero_time, s_last_run_at = None, s_last_job_id = '''',
     s_created_at = zero_time, s_updated_at = zero_time\<rparr>"

end
