(* ===== verification/Job_Store.thy ===== *)
theory Job_Store
  imports Models
begin

text \<open>
  \<^verbatim>\<open>internal/store/store.go\<close>: the jobs table and the statements \<^verbatim>\<open>PostgresStore\<close> runs against it.

  A row is the record \<open>job_row\<close>, one field per column of \<^verbatim>\<open>migrations/\<close>; the table is the list of
  its rows. Every method is a definition of the same name. It takes, for each statement it sends,
  a \<open>call\<close>: the database's \<^verbatim>\<open>NOW()\<close>, what other sessions committed before the statement, the rows
  they hold locked, and whether the request or the reply is lost. The process's clock and its random
  bytes are arguments as well. An \<^verbatim>\<open>UPDATE\<close> is a \<^verbatim>\<open>WHERE\<close> predicate and a \<^verbatim>\<open>SET\<close> function on rows.

  The locale \<open>row_update\<close> is what the rest of the development knows of a \<^verbatim>\<open>SET\<close> clause: it keeps the
  columns that identify a job. It is interpreted for every update of the file.
\<close>

section \<open>Columns\<close>

text \<open>The JSON values a metadata column holds, and PostgreSQL's \<^verbatim>\<open>||\<close> on them.\<close>

datatype jsonb = Json_null | Json_object string_map | Json_array "jsonb list"

fun json_elements :: "jsonb \<Rightarrow> jsonb list" where
  "json_elements (Json_array js) = js"
| "json_elements j = [j]"

fun jsonb_concat :: "jsonb \<Rightarrow> jsonb \<Rightarrow> jsonb" where
  "jsonb_concat (Json_object m) (Json_object n) = Json_object (AList.merge m n)"
| "jsonb_concat a b = Json_array (json_elements a @ json_elements b)"

fun is_json_object :: "jsonb \<Rightarrow> bool" where
  "is_json_object (Json_object m) = True"
| "is_json_object _ = False"

text \<open>\<^verbatim>\<open>json.Marshal\<close> of a string map, and \<^verbatim>\<open>json.Unmarshal\<close> into a nil one.\<close>

fun marshal_map :: "string_map option \<Rightarrow> jsonb" where
  "marshal_map None = Json_null"
| "marshal_map (Some m) = Json_object m"

fun unmarshal_map :: "jsonb \<Rightarrow> string_map option" where
  "unmarshal_map (Json_object m) = Some m"
| "unmarshal_map _ = None"

record job_row =
  r_id :: string
  r_idempotency_key :: "string option"
  r_task_id :: string
  r_task_name :: string
  r_task_payload :: string
  r_task_retry_count :: int
  r_task_max_retries :: int
  r_task_timeout_ns :: int
  r_task_cron_expr :: string
  r_task_queue :: string
  r_task_metadata :: jsonb
  r_state :: job_state
  r_attempt :: int
  r_last_error :: string
  r_scheduled_at :: "time option"
  r_started_at :: "time option"
  r_lease_expires_at :: "time option"
  r_lease_token :: "string option"
  r_completed_at :: "time option"
  r_created_at :: time
  r_updated_at :: time
  r_metadata :: jsonb
  r_tenant_id :: string
  r_task_priority :: int

type_synonym jobs = "job_row list"

definition nullableString :: "string \<Rightarrow> string option" where
  "nullableString value = (if value = '''' then None else Some value)"

definition flatten_string :: "string option \<Rightarrow> string" where
  "flatten_string v = (case v of None \<Rightarrow> '''' | Some s \<Rightarrow> s)"

definition scanJob :: "job_row \<Rightarrow> job" where
  "scanJob r = \<lparr>j_id = r_id r, j_tenant_id = r_tenant_id r,
     j_idempotency_key = flatten_string (r_idempotency_key r),
     j_task = \<lparr>t_id = r_task_id r, t_name = r_task_name r, t_payload = r_task_payload r,
       t_retry_count = r_task_retry_count r, t_max_retries = r_task_max_retries r,
       t_timeout = r_task_timeout_ns r, t_cron_expression = r_task_cron_expr r,
       t_queue = r_task_queue r, t_metadata = unmarshal_map (r_task_metadata r),
       t_priority = r_task_priority r\<rparr>,
     j_state = r_state r, j_attempt = r_attempt r, j_scheduled_at = r_scheduled_at r,
     j_started_at = r_started_at r, j_lease_expires_at = r_lease_expires_at r,
     j_lease_token = flatten_string (r_lease_token r), j_completed_at = r_completed_at r,
     j_last_error = r_last_error r, j_metadata = unmarshal_map (r_metadata r),
     j_created_at = r_created_at r, j_updated_at = r_updated_at r\<rparr>"

definition newLeaseToken :: "byte list option \<Rightarrow> err + string" where
  "newLeaseToken random = (case random of
     None \<Rightarrow> Inl (Errorf ''rand.Read'' [])
   | Some bytes \<Rightarrow> Inr (hex_encode bytes))"

definition isIdempotencyUniqueViolation :: "err \<Rightarrow> bool" where
  "isIdempotencyUniqueViolation e \<longleftrightarrow>
     errors_as_pg e = Some (''23505'', ''jobs_tenant_idempotency_key_idx'')"

section \<open>The state machine\<close>

definition CanTransition :: "job_state \<Rightarrow> job_state \<Rightarrow> bool" where
  "CanTransition from to =
     (if from = JobStateCompleted \<or> from = JobStateDead then False
      else case from of
        JobStatePending \<Rightarrow> to = JobStateRunning \<or> to = JobStateDead
      | JobStateRunning \<Rightarrow> to = JobStateCompleted \<or> to = JobStateFailed \<or> to = JobStateDead
      | JobStateFailed \<Rightarrow> to = JobStatePending \<or> to = JobStateDead
      | _ \<Rightarrow> False)"

section \<open>Creating and reading\<close>

definition row_of_job :: "time \<Rightarrow> job \<Rightarrow> job_row" where
  "row_of_job now job = \<lparr>r_id = j_id job, r_idempotency_key = nullableString (j_idempotency_key job),
     r_task_id = t_id (j_task job), r_task_name = t_name (j_task job),
     r_task_payload = t_payload (j_task job), r_task_retry_count = t_retry_count (j_task job),
     r_task_max_retries = t_max_retries (j_task job), r_task_timeout_ns = t_timeout (j_task job),
     r_task_cron_expr = t_cron_expression (j_task job), r_task_queue = t_queue (j_task job),
     r_task_metadata = marshal_map (t_metadata (j_task job)),
     r_state = j_state job, r_attempt = j_attempt job, r_last_error = j_last_error job,
     r_scheduled_at = map_option pg_ts (j_scheduled_at job),
     r_started_at = map_option pg_ts (j_started_at job),
     r_lease_expires_at = map_option pg_ts (j_lease_expires_at job),
     r_lease_token = nullableString (j_lease_token job),
     r_completed_at = map_option pg_ts (j_completed_at job),
     r_created_at = pg_ts (if j_created_at job = zero_time then now else j_created_at job),
     r_updated_at = pg_ts now,
     r_metadata = marshal_map (j_metadata job), r_tenant_id = j_tenant_id job,
     r_task_priority = t_priority (j_task job)\<rparr>"

text \<open>
  The \<^verbatim>\<open>INSERT\<close>: four columns are 32 bits wide, the primary key and the partial unique index on
  tenant and idempotency key are checked.
\<close>

definition same_key :: "job_row \<Rightarrow> job_row \<Rightarrow> bool" where
  "same_key a b \<longleftrightarrow> r_idempotency_key a \<noteq> None \<and> r_idempotency_key a = r_idempotency_key b \<and>
     r_tenant_id a = r_tenant_id b"

definition insert_job :: "job_row \<Rightarrow> jobs \<Rightarrow> (err + unit) \<times> jobs" where
  "insert_job r rows =
     (if \<not> (int4 (r_task_retry_count r) \<and> int4 (r_task_max_retries r) \<and> int4 (r_attempt r) \<and>
            int4 (r_task_priority r))
      then (Inl (Errorf ''value out of range for int4'' []), rows)
      else if list_ex (\<lambda>x. r_id x = r_id r) rows then (Inl (PgError ''23505'' ''jobs_pkey''), rows)
      else if list_ex (same_key r) rows
      then (Inl (PgError ''23505'' ''jobs_tenant_idempotency_key_idx''), rows)
      else (Inr (), rows @ [r]))"

definition CreateJob :: "jobs call \<Rightarrow> time \<Rightarrow> job \<Rightarrow> jobs \<Rightarrow> (err + unit) \<times> jobs" where
  "CreateJob c now job rows =
     (case exec c (insert_job (row_of_job now job)) rows of
        (Inl e, s) \<Rightarrow>
          (if isIdempotencyUniqueViolation e then (Inl (Sentinel ErrDuplicateIdempotencyKey), s)
           else (Inl e, s))
      | (Inr u, s) \<Rightarrow> (Inr u, s))"

definition AnyTenant :: string where "AnyTenant = ''''"

definition of_tenant :: "string \<Rightarrow> job_row \<Rightarrow> bool" where
  "of_tenant tenant r \<longleftrightarrow> tenant = '''' \<or> r_tenant_id r = tenant"

definition select_one :: "(job_row \<Rightarrow> bool) \<Rightarrow> jobs \<Rightarrow> (err + job) \<times> jobs" where
  "select_one p rows =
     (case find p rows of None \<Rightarrow> Inl (Sentinel ErrJobNotFound) | Some r \<Rightarrow> Inr (scanJob r), rows)"

definition GetJob :: "jobs call \<Rightarrow> string \<Rightarrow> string \<Rightarrow> jobs \<Rightarrow> (err + job) \<times> jobs" where
  "GetJob c tenant jid rows = exec c (select_one (\<lambda>r. r_id r = jid \<and> of_tenant tenant r)) rows"

definition GetJobByIdempotencyKey :: "jobs call \<Rightarrow> string \<Rightarrow> string \<Rightarrow> jobs \<Rightarrow> (err + job) \<times> jobs" where
  "GetJobByIdempotencyKey c tenant key rows =
     exec c (select_one (\<lambda>r. r_idempotency_key r = Some key \<and> of_tenant tenant r)) rows"

section \<open>Updates\<close>

text \<open>An \<^verbatim>\<open>UPDATE\<close> whose caller looks at the number of rows it matched.\<close>

definition update_or :: "sentinel \<Rightarrow> (job_row \<Rightarrow> bool) \<Rightarrow> (job_row \<Rightarrow> job_row) \<Rightarrow> jobs \<Rightarrow>
    (err + unit) \<times> jobs" where
  "update_or e p f rows =
     (let (n, rows') = sql_update p f rows in (if n = 0 then Inl (Sentinel e) else Inr (), rows'))"

subsection \<open>UpdateJob\<close>

definition update_set :: "time \<Rightarrow> job \<Rightarrow> job_row \<Rightarrow> job_row" where
  "update_set now job r = r\<lparr>
     r_state := j_state job,
     r_attempt := j_attempt job,
     r_last_error := j_last_error job,
     r_scheduled_at := map_option pg_ts (j_scheduled_at job),
     r_started_at := map_option pg_ts (j_started_at job),
     r_lease_expires_at := map_option pg_ts (j_lease_expires_at job),
     r_lease_token := (if j_state job = JobStateCompleted \<or> j_state job = JobStateDead \<or>
       j_state job = JobStatePending then None else nullableString (j_lease_token job)),
     r_completed_at := map_option pg_ts (j_completed_at job),
     r_updated_at := pg_ts now,
     r_metadata := marshal_map (j_metadata job),
     r_task_metadata := marshal_map (t_metadata (j_task job)),
     r_task_retry_count := t_retry_count (j_task job)\<rparr>"

definition update_where :: "job \<Rightarrow> job_row \<Rightarrow> bool" where
  "update_where job r \<longleftrightarrow> r_id r = j_id job \<and>
     (j_lease_token job = '''' \<or> r_lease_token r = Some (j_lease_token job) \<or>
      (r_state r = JobStatePending \<and> j_state job = JobStateRunning \<and> r_lease_token r = None))"

definition update_job_stmt :: "time \<Rightarrow> job \<Rightarrow> jobs \<Rightarrow> (err + unit) \<times> jobs" where
  "update_job_stmt now job rows =
     (if \<not> (int4 (j_attempt job) \<and> int4 (t_retry_count (j_task job)))
      then (Inl (Errorf ''value out of range for int4'' []), rows)
      else update_or ErrInvalidTransition (update_where job) (update_set now job) rows)"

definition UpdateJob :: "jobs call \<Rightarrow> jobs call \<Rightarrow> time \<Rightarrow> job \<Rightarrow> jobs \<Rightarrow> (err + unit) \<times> jobs" where
  "UpdateJob c1 c2 now job rows =
     (case GetJob c1 AnyTenant (j_id job) rows of
        (Inl e, s) \<Rightarrow> (Inl e, s)
      | (Inr existing, s) \<Rightarrow>
          if \<not> CanTransition (j_state existing) (j_state job)
          then (Inl (Sentinel ErrInvalidTransition), s)
          else exec c2 (update_job_stmt now job) s)"

subsection \<open>CancelJob\<close>

definition cancel_set :: "time \<Rightarrow> job_row \<Rightarrow> job_row" where
  "cancel_set t r = r\<lparr>
     r_state := JobStateDead,
     r_completed_at := Some (pg_ts t),
     r_started_at := None,
     r_lease_expires_at := None,
     r_lease_token := None,
     r_updated_at := pg_ts t\<rparr>"

definition cancel_where :: "string \<Rightarrow> string \<Rightarrow> job_row \<Rightarrow> bool" where
  "cancel_where tenant jid r \<longleftrightarrow> r_id r = jid \<and> of_tenant tenant r \<and>
     (r_state r = JobStatePending \<or> r_state r = JobStateRunning \<or> r_state r = JobStateFailed)"

definition not_found_or_invalid :: "(err + job) \<times> jobs \<Rightarrow> (err + unit) \<times> jobs" where
  "not_found_or_invalid res = (case res of
     (Inl e, s) \<Rightarrow> (Inl e, s)
   | (Inr j, s) \<Rightarrow> (Inl (Sentinel ErrInvalidTransition), s))"

definition CancelJob :: "jobs call \<Rightarrow> jobs call \<Rightarrow> string \<Rightarrow> string \<Rightarrow> jobs \<Rightarrow> (err + unit) \<times> jobs" where
  "CancelJob c1 c2 tenant jid rows =
     (case exec c1 (\<lambda>s. let (n, s') = sql_update (cancel_where tenant jid) (cancel_set (pgnow c1)) s
                        in (Inr n, s')) rows of
        (Inl e, s) \<Rightarrow> (Inl e, s)
      | (Inr n, s) \<Rightarrow> if n = 0 then not_found_or_invalid (GetJob c2 tenant jid s) else (Inr (), s))"

subsection \<open>ClaimNextJob\<close>

record claim_filter =
  cf_tenant :: string
  cf_queues :: "string list"
  cf_names :: "string list"

definition claimable :: "time \<Rightarrow> claim_filter \<Rightarrow> job_row \<Rightarrow> bool" where
  "claimable t flt r \<longleftrightarrow>
     r_state r = JobStatePending \<and>
     (case r_scheduled_at r of None \<Rightarrow> True | Some d \<Rightarrow> d \<le> t) \<and>
     (cf_queues flt = [] \<or> r_task_queue r \<in> set (cf_queues flt)) \<and>
     of_tenant (cf_tenant flt) r \<and>
     (cf_names flt = [] \<or> r_task_name r \<in> set (cf_names flt))"

text \<open>\<^verbatim>\<open>ORDER BY task_priority DESC, scheduled_at ASC NULLS LAST\<close>.\<close>

definition claim_key :: "job_row \<Rightarrow> int desc \<times> time nulls_last" where
  "claim_key r = (Desc (r_task_priority r), with_nulls_last (r_scheduled_at r))"

definition claim_set :: "time \<Rightarrow> time \<Rightarrow> string \<Rightarrow> job_row \<Rightarrow> job_row" where
  "claim_set now expires token r = r\<lparr>
     r_state := JobStateRunning,
     r_attempt := r_attempt r + 1,
     r_started_at := Some (pg_ts now),
     r_lease_expires_at := Some (pg_ts expires),
     r_lease_token := Some token,
     r_updated_at := pg_ts now\<rparr>"

definition claim_stmt :: "time \<Rightarrow> (string \<Rightarrow> bool) \<Rightarrow> time \<Rightarrow> duration \<Rightarrow> string \<Rightarrow> claim_filter \<Rightarrow>
    jobs \<Rightarrow> (err + job) \<times> jobs" where
  "claim_stmt t lck now lease token flt rows =
     (case first_by claim_key (filter (\<lambda>r. claimable t flt r \<and> \<not> lck (r_id r)) rows) of
        None \<Rightarrow> (Inl (Sentinel ErrJobNotFound), rows)
      | Some r \<Rightarrow>
          if \<not> int4 (r_attempt r + 1) then (Inl (PgError ''22003'' ''''), rows)
          else (Inr (scanJob (claim_set now (now + lease) token r)),
                snd (sql_update (\<lambda>x. r_id x = r_id r) (claim_set now (now + lease) token) rows)))"

definition ClaimNextJob :: "jobs call \<Rightarrow> time \<Rightarrow> byte list option \<Rightarrow> duration \<Rightarrow> claim_filter \<Rightarrow>
    jobs \<Rightarrow> (err + job) \<times> jobs" where
  "ClaimNextJob c now random lease flt rows =
     (case newLeaseToken random of
        Inl e \<Rightarrow> (Inl (Errorf ''store: generate lease token'' [e]), rows)
      | Inr token \<Rightarrow> exec c (claim_stmt (pgnow c) (locked c) now lease token flt) rows)"

subsection \<open>The statements fenced by the lease token\<close>

definition holds_lease :: "string \<Rightarrow> string \<Rightarrow> job_row \<Rightarrow> bool" where
  "holds_lease jid token r \<longleftrightarrow> r_id r = jid \<and> r_state r = JobStateRunning \<and> r_lease_token r = Some token"

definition renew_set :: "time \<Rightarrow> time \<Rightarrow> job_row \<Rightarrow> job_row" where
  "renew_set t expires r = r\<lparr>r_lease_expires_at := Some (pg_ts expires), r_updated_at := pg_ts t\<rparr>"

definition RenewLease :: "jobs call \<Rightarrow> time \<Rightarrow> job \<Rightarrow> duration \<Rightarrow> jobs \<Rightarrow> (err + unit) \<times> jobs" where
  "RenewLease c now job lease rows =
     (if j_lease_token job = '''' then (Inl (Sentinel ErrInvalidTransition), rows)
      else exec c (update_or ErrInvalidTransition (holds_lease (j_id job) (j_lease_token job))
             (renew_set (pgnow c) (now + lease))) rows)"

definition release_set :: "time \<Rightarrow> string \<Rightarrow> time \<Rightarrow> job_row \<Rightarrow> job_row" where
  "release_set t reason nextRun r = r\<lparr>
     r_state := JobStatePending,
     r_attempt := max (r_attempt r - 1) 0,
     r_last_error := reason,
     r_scheduled_at := Some (pg_ts nextRun),
     r_started_at := None,
     r_lease_expires_at := None,
     r_lease_token := None,
     r_updated_at := pg_ts t\<rparr>"

definition ReleaseClaim :: "jobs call \<Rightarrow> time \<Rightarrow> job \<Rightarrow> string \<Rightarrow> duration \<Rightarrow> jobs \<Rightarrow>
    (err + unit) \<times> jobs" where
  "ReleaseClaim c now job reason retryAfter rows =
     exec c (update_or ErrInvalidTransition (holds_lease (j_id job) (j_lease_token job))
       (release_set (pgnow c) reason (now + retryAfter))) rows"

definition complete_set :: "time \<Rightarrow> jsonb \<Rightarrow> job_row \<Rightarrow> job_row" where
  "complete_set t meta r = r\<lparr>
     r_state := JobStateCompleted,
     r_completed_at := Some (pg_ts t),
     r_started_at := None,
     r_lease_expires_at := None,
     r_lease_token := None,
     r_updated_at := pg_ts t,
     r_metadata := jsonb_concat (if is_json_object (r_metadata r) then r_metadata r else Json_object []) meta\<rparr>"

definition complete_meta :: "string_map option \<Rightarrow> jsonb" where
  "complete_meta meta = (case meta of None \<Rightarrow> Json_object [] | Some m \<Rightarrow> Json_object m)"

definition complete_stmt :: "time \<Rightarrow> string \<Rightarrow> string \<Rightarrow> jsonb \<Rightarrow> jobs \<Rightarrow> (err + job) \<times> jobs" where
  "complete_stmt t jid token meta rows =
     (case find (holds_lease jid token) rows of
        None \<Rightarrow> (Inl (Sentinel ErrLeaseLost), rows)
      | Some r \<Rightarrow> (Inr (scanJob (complete_set t meta r)),
                   snd (sql_update (holds_lease jid token) (complete_set t meta) rows)))"

definition CompleteClaimedJob :: "jobs call \<Rightarrow> string \<Rightarrow> string \<Rightarrow> string_map option \<Rightarrow> jobs \<Rightarrow>
    (err + job) \<times> jobs" where
  "CompleteClaimedJob c jid leaseToken meta rows =
     (if leaseToken = '''' then (Inl (Sentinel ErrInvalidTransition), rows)
      else exec c (complete_stmt (pgnow c) jid leaseToken (complete_meta meta)) rows)"

definition fail_set :: "time \<Rightarrow> string \<Rightarrow> time option \<Rightarrow> job_row \<Rightarrow> job_row" where
  "fail_set t errMsg nextRun r = r\<lparr>
     r_state := (if nextRun \<noteq> None then JobStatePending else JobStateDead),
     r_last_error := errMsg,
     r_scheduled_at := (if nextRun \<noteq> None then map_option pg_ts nextRun else r_scheduled_at r),
     r_completed_at := (if nextRun = None then Some (pg_ts t) else r_completed_at r),
     r_started_at := None,
     r_lease_expires_at := None,
     r_lease_token := None,
     r_updated_at := pg_ts t\<rparr>"

definition FailClaimedJob :: "jobs call \<Rightarrow> string \<Rightarrow> string \<Rightarrow> string \<Rightarrow> time option \<Rightarrow> jobs \<Rightarrow>
    (err + unit) \<times> jobs" where
  "FailClaimedJob c jid leaseToken errMsg nextRun rows =
     (if leaseToken = '''' then (Inl (Sentinel ErrInvalidTransition), rows)
      else exec c (update_or ErrLeaseLost (holds_lease jid leaseToken)
             (fail_set (pgnow c) errMsg nextRun)) rows)"

subsection \<open>Recovery, dead letters, retention\<close>

definition expired_at :: "time \<Rightarrow> job_row \<Rightarrow> bool" where
  "expired_at t r \<longleftrightarrow> r_state r = JobStateRunning \<and>
     (case r_lease_expires_at r of None \<Rightarrow> False | Some x \<Rightarrow> x \<le> t)"

definition exhausted :: "job_row \<Rightarrow> bool" where
  "exhausted r \<longleftrightarrow> r_task_max_retries r \<le> r_attempt r"

definition reap_set :: "time \<Rightarrow> job_row \<Rightarrow> job_row" where
  "reap_set t r = r\<lparr>
     r_state := (if exhausted r then JobStateDead else JobStatePending),
     r_last_error := ''job lease expired before completion'',
     r_scheduled_at := (if exhausted r then r_scheduled_at r else Some (pg_ts t)),
     r_completed_at := (if exhausted r then Some (pg_ts t) else r_completed_at r),
     r_started_at := None,
     r_lease_expires_at := None,
     r_lease_token := None,
     r_updated_at := pg_ts t\<rparr>"

definition expired_batch :: "time \<Rightarrow> (string \<Rightarrow> bool) \<Rightarrow> nat \<Rightarrow> jobs \<Rightarrow> jobs" where
  "expired_batch t lck limit rows =
     order_limit (\<lambda>r. with_nulls_last (r_lease_expires_at r)) limit
       (filter (\<lambda>r. expired_at t r \<and> \<not> lck (r_id r)) rows)"

definition reap_stmt :: "time \<Rightarrow> (string \<Rightarrow> bool) \<Rightarrow> nat \<Rightarrow> jobs \<Rightarrow> (err + nat) \<times> jobs" where
  "reap_stmt t lck limit rows =
     (let ids = map r_id (expired_batch t lck limit rows);
          (n, rows') = sql_update (\<lambda>r. r_id r \<in> set ids) (reap_set t) rows
      in (Inr n, rows'))"

definition RequeueExpiredRunning :: "jobs call \<Rightarrow> int \<Rightarrow> jobs \<Rightarrow> (err + nat) \<times> jobs" where
  "RequeueExpiredRunning c limit rows =
     (if limit \<le> 0 then (Inr 0, rows) else exec c (reap_stmt (pgnow c) (locked c) (nat limit)) rows)"

definition requeue_set :: "time \<Rightarrow> job_row \<Rightarrow> job_row" where
  "requeue_set t r = r\<lparr>
     r_state := JobStatePending,
     r_attempt := 0,
     r_task_retry_count := 0,
     r_scheduled_at := Some (pg_ts t),
     r_started_at := None,
     r_lease_expires_at := None,
     r_lease_token := None,
     r_completed_at := None,
     r_updated_at := pg_ts t\<rparr>"

definition requeue_where :: "string \<Rightarrow> string \<Rightarrow> job_row \<Rightarrow> bool" where
  "requeue_where tenant jid r \<longleftrightarrow> r_id r = jid \<and> r_state r = JobStateDead \<and> of_tenant tenant r"

definition RequeueDeadJob :: "jobs call \<Rightarrow> jobs call \<Rightarrow> string \<Rightarrow> string \<Rightarrow> jobs \<Rightarrow> (err + unit) \<times> jobs" where
  "RequeueDeadJob c1 c2 tenant jid rows =
     (case exec c1 (\<lambda>s. let (n, s') = sql_update (requeue_where tenant jid) (requeue_set (pgnow c1)) s
                        in (Inr n, s')) rows of
        (Inl e, s) \<Rightarrow> (Inl e, s)
      | (Inr n, s) \<Rightarrow> if n = 0 then not_found_or_invalid (GetJob c2 tenant jid s) else (Inr (), s))"

definition prunable :: "job_state \<Rightarrow> time \<Rightarrow> job_row \<Rightarrow> bool" where
  "prunable state before r \<longleftrightarrow> r_state r = state \<and>
     (case r_completed_at r of None \<Rightarrow> False | Some t \<Rightarrow> t < pg_ts before)"

definition delete_stmt :: "job_state \<Rightarrow> time \<Rightarrow> nat \<Rightarrow> jobs \<Rightarrow> (err + nat) \<times> jobs" where
  "delete_stmt state before limit rows =
     (let ids = map r_id (order_limit (\<lambda>r. with_nulls_last (r_completed_at r)) limit
            (filter (prunable state before) rows))
      in (Inr (length (filter (\<lambda>r. r_id r \<in> set ids) rows)), filter (\<lambda>r. r_id r \<notin> set ids) rows))"

definition DeleteFinished :: "jobs call \<Rightarrow> job_state \<Rightarrow> time \<Rightarrow> int \<Rightarrow> jobs \<Rightarrow> (err + nat) \<times> jobs" where
  "DeleteFinished c state before limit rows =
     (if state \<noteq> JobStateCompleted \<and> state \<noteq> JobStateDead
      then (Inl (Errorf (''store: refusing to delete jobs in state '' @ state_string state) []), rows)
      else if limit \<le> 0 then (Inr 0, rows)
      else exec c (delete_stmt state before (nat limit)) rows)"

definition BacklogStates :: "job_state list" where
  "BacklogStates = [JobStatePending, JobStateRunning, JobStateDead]"

definition CountByState :: "jobs call \<Rightarrow> jobs \<Rightarrow> (err + (job_state \<times> nat) list) \<times> jobs" where
  "CountByState c rows =
     exec c (\<lambda>s. (Inr (map (\<lambda>st. (st, length (filter (\<lambda>r. r_state r = st) s)))
       [JobStatePending, JobStateRunning, JobStateDead]), s)) rows"

section \<open>What every update keeps\<close>

text \<open>The columns no statement of the store writes after the insert.\<close>

definition same_job :: "job_row \<Rightarrow> job_row \<Rightarrow> bool" where
  "same_job a b \<longleftrightarrow> r_id a = r_id b \<and> r_idempotency_key a = r_idempotency_key b \<and>
     r_task_id a = r_task_id b \<and> r_task_name a = r_task_name b \<and>
     r_task_payload a = r_task_payload b \<and> r_task_max_retries a = r_task_max_retries b \<and>
     r_task_timeout_ns a = r_task_timeout_ns b \<and> r_task_cron_expr a = r_task_cron_expr b \<and>
     r_task_queue a = r_task_queue b \<and> r_created_at a = r_created_at b \<and>
     r_tenant_id a = r_tenant_id b \<and> r_task_priority a = r_task_priority b"

lemma same_job_refl [simp]: "same_job r r"
  by (simp add: same_job_def)

lemma same_job_trans: "same_job a b \<Longrightarrow> same_job b c \<Longrightarrow> same_job a c"
  by (simp add: same_job_def)

lemma same_job_columns:
  assumes "same_job a b"
  shows "r_id a = r_id b" "r_idempotency_key a = r_idempotency_key b" "r_tenant_id a = r_tenant_id b"
    "r_task_max_retries a = r_task_max_retries b" "r_task_name a = r_task_name b"
    "r_created_at a = r_created_at b" "r_task_queue a = r_task_queue b"
  using assms by (simp_all add: same_job_def)

locale row_update =
  fixes upd :: "job_row \<Rightarrow> job_row"
  assumes keeps: "same_job (upd r) r"

sublocale row_update \<subseteq> keyed_update r_id upd
  by unfold_locales (rule same_job_columns(1) [OF keeps])

context row_update
begin

lemma same_key_upd: "same_key (upd a) (upd b) = same_key a b"
  "same_key (upd a) b = same_key a b" "same_key a (upd b) = same_key a b"
  using keeps [of a] keeps [of b] by (simp_all add: same_key_def same_job_def)

lemma updated_row:
  assumes "r' \<in> set (snd (sql_update p upd rows))"
  shows "\<exists>r\<in>set rows. same_job r' r \<and> (r' = r \<or> p r \<and> r' = upd r)"
proof -
  from assms obtain r where "r \<in> set rows" "r' = (if p r then upd r else r)"
    by (auto simp: in_set_sql_update)
  with keeps [of r] show ?thesis by (intro bexI [of _ r]) auto
qed

end

interpretation upd_job: row_update "update_set now job" for now job
  by unfold_locales (simp add: update_set_def same_job_def)

interpretation upd_cancel: row_update "cancel_set t" for t
  by unfold_locales (simp add: cancel_set_def same_job_def)

interpretation upd_claim: row_update "claim_set now expires token" for now expires token
  by unfold_locales (simp add: claim_set_def same_job_def)

interpretation upd_renew: row_update "renew_set t expires" for t expires
  by unfold_locales (simp add: renew_set_def same_job_def)

interpretation upd_release: row_update "release_set t reason nextRun" for t reason nextRun
  by unfold_locales (simp add: release_set_def same_job_def)

interpretation upd_complete: row_update "complete_set t meta" for t meta
  by unfold_locales (simp add: complete_set_def same_job_def)

interpretation upd_fail: row_update "fail_set t errMsg nextRun" for t errMsg nextRun
  by unfold_locales (simp add: fail_set_def same_job_def)

interpretation upd_reap: row_update "reap_set t" for t
  by unfold_locales (simp add: reap_set_def same_job_def)

interpretation upd_requeue: row_update "requeue_set t" for t
  by unfold_locales (simp add: requeue_set_def same_job_def)

lemma update_or_state: "snd (update_or e p f rows) = snd (sql_update p f rows)"
  by (simp add: update_or_def split: prod.splits)

lemma update_or_Inr:
  "update_or e p f rows = (Inr u, rows') \<longleftrightarrow>
     (\<exists>r\<in>set rows. p r) \<and> rows' = snd (sql_update p f rows)"
  using sql_update_count_0 [of p f rows] by (auto simp: update_or_def split: prod.splits)

lemma update_or_Inl:
  "update_or e p f rows = (Inl x, rows') \<longleftrightarrow>
     x = Sentinel e \<and> (\<forall>r\<in>set rows. \<not> p r) \<and> rows' = rows"
  using sql_update_count_0 [of p f rows] sql_update_none [of rows p f]
  by (auto simp: update_or_def split: prod.splits)

lemma select_one_state [simp]: "snd (select_one p rows) = rows"
  by (simp add: select_one_def)

lemma GetJob_state: "snd (GetJob c tenant jid rows) = rely c rows"
  using exec_state [of c "select_one (\<lambda>r. r_id r = jid \<and> of_tenant tenant r)" rows]
  by (simp add: GetJob_def)

lemma GetJobByIdempotencyKey_state: "snd (GetJobByIdempotencyKey c tenant key rows) = rely c rows"
  using exec_state [of c "select_one (\<lambda>r. r_idempotency_key r = Some key \<and> of_tenant tenant r)" rows]
  by (simp add: GetJobByIdempotencyKey_def)

lemma select_one_Inr:
  "select_one p rows = (Inr j, rows') \<Longrightarrow> \<exists>r\<in>set rows. p r \<and> j = scanJob r \<and> rows' = rows"
  by (auto simp: select_one_def split: option.splits dest: find_SomeD)

lemma select_one_Inl:
  "select_one p rows = (Inl e, rows') \<Longrightarrow> e = Sentinel ErrJobNotFound \<and> (\<forall>r\<in>set rows. \<not> p r)"
  by (auto simp: select_one_def find_None_ball split: option.splits)

lemma select_by_id:
  assumes "distinct (map r_id rows)" "r \<in> set rows" "r_id r = jid"
  shows "map (\<lambda>x. if r_id x = jid then f x else x) rows = map (\<lambda>x. if x = r then f r else x) rows"
  using assms distinct_map_inj [OF assms(1)] by auto

lemma matched_in_batch:
  assumes "distinct (map r_id rows)" "B \<subseteq> set rows" "r \<in> set rows"
  shows "r_id r \<in> r_id ` B \<longleftrightarrow> r \<in> B"
  using assms distinct_map_inj [OF assms(1,3)] by auto

lemma distinct_ids: "distinct (map r_id rows) \<Longrightarrow> distinct rows"
  by (simp add: distinct_map)

lemma batch_count:
  assumes "distinct (map r_id rows)" "B \<subseteq> set rows"
  shows "length (filter (\<lambda>r. r_id r \<in> r_id ` B) rows) = card B"
proof -
  have "filter (\<lambda>r. r_id r \<in> r_id ` B) rows = filter (\<lambda>r. r \<in> B) rows"
    by (rule filter_cong [OF refl matched_in_batch [OF assms]])
  moreover have "distinct (filter (\<lambda>r. r \<in> B) rows)" using distinct_ids [OF assms(1)] by simp
  moreover have "set (filter (\<lambda>r. r \<in> B) rows) = B" using assms(2) by auto
  ultimately show ?thesis by (metis distinct_card)
qed

section \<open>What the statements promise\<close>

text \<open>A job as \<^verbatim>\<open>Enqueue\<close> stores it, for the examples of this development.\<close>

definition example_job :: "string \<Rightarrow> int \<Rightarrow> job" where
  "example_job i prio = zero_job\<lparr>j_id := i, j_tenant_id := DefaultTenant, j_state := JobStatePending,
     j_scheduled_at := Some 0, j_created_at := 0,
     j_task := zero_task\<lparr>t_name := ''demo'', t_queue := DefaultQueue, t_max_retries := 3, t_priority := prio\<rparr>\<rparr>"

definition example_row :: "string \<Rightarrow> int \<Rightarrow> job_row" where
  "example_row i prio = row_of_job 0 (example_job i prio)"

lemmas example_simps = example_row_def example_job_def row_of_job_def zero_job_def zero_task_def
  DefaultTenant_def DefaultQueue_def nullableString_def zero_time_def pg_ts_def

lemma example_row_columns [simp]:
  "r_id (example_row i p) = i" "r_task_priority (example_row i p) = p"
  "r_state (example_row i p) = JobStatePending" "r_attempt (example_row i p) = 0"
  "r_scheduled_at (example_row i p) = Some 0" "r_tenant_id (example_row i p) = ''default''"
  "r_task_queue (example_row i p) = ''default''" "r_task_name (example_row i p) = ''demo''"
  "r_task_max_retries (example_row i p) = 3" "r_lease_token (example_row i p) = None"
  "r_started_at (example_row i p) = None" "r_lease_expires_at (example_row i p) = None"
  "r_completed_at (example_row i p) = None" "r_idempotency_key (example_row i p) = None"
  "r_metadata (example_row i p) = Json_null" "r_created_at (example_row i p) = 0"
  "r_task_retry_count (example_row i p) = 0"
  by (simp_all add: example_simps)

lemma example_row_inj [simp]: "example_row i p = example_row j q \<longleftrightarrow> i = j \<and> p = q"
  by (metis example_row_columns(1,2))

definition stored :: "time \<Rightarrow> job \<Rightarrow> job" where
  "stored now job = job\<lparr>j_scheduled_at := map_option pg_ts (j_scheduled_at job),
     j_started_at := map_option pg_ts (j_started_at job),
     j_lease_expires_at := map_option pg_ts (j_lease_expires_at job),
     j_completed_at := map_option pg_ts (j_completed_at job),
     j_created_at := pg_ts (if j_created_at job = zero_time then now else j_created_at job),
     j_updated_at := pg_ts now\<rparr>"

lemma flatten_nullable [simp]: "flatten_string (nullableString v) = v"
  by (simp add: flatten_string_def nullableString_def)

lemma unmarshal_marshal [simp]: "unmarshal_map (marshal_map m) = m"
  by (cases m) simp_all

lemma scan_row_of_job: "scanJob (row_of_job now job) = stored now job"
  by (simp add: scanJob_def row_of_job_def stored_def)

text \<open>
  Reading a job back returns what was created. When \<^verbatim>\<open>CreateJob\<close> succeeds, \<^verbatim>\<open>GetJob\<close> for the
  job's tenant, or for any tenant, returns the job with every instant cut to the microseconds the
  columns hold and nothing else changed: payload, metadata (nil or not), keys and budget survive
  the trip through the columns.
\<close>

lemma create_then_get:
  assumes "CreateJob c now job rows = (Inr (), rows')" "tenant = AnyTenant \<or> tenant = j_tenant_id job"
  shows "GetJob (quiet t) tenant (j_id job) rows' = (Inr (stored now job), rows')"
proof -
  have "exec c (insert_job (row_of_job now job)) rows = (Inr (), rows')"
    using assms(1) by (auto simp: CreateJob_def split: prod.splits sum.splits if_splits)
  from exec_Inr [OF this] have rows': "rows' = rely c rows @ [row_of_job now job]"
    and new: "\<forall>x\<in>set (rely c rows). r_id x \<noteq> j_id job"
    by (auto simp: insert_job_def list_ex_iff row_of_job_def split: if_splits)
  have "of_tenant tenant (row_of_job now job)" using assms(2)
    by (auto simp: of_tenant_def AnyTenant_def row_of_job_def)
  with new have "find (\<lambda>r. r_id r = j_id job \<and> of_tenant tenant r) rows' = Some (row_of_job now job)"
    unfolding rows' by (intro find_append_new) (auto simp: row_of_job_def)
  then show ?thesis by (simp add: GetJob_def select_one_def scan_row_of_job)
qed

lemma create_then_get_witness:
  "GetJob (quiet 9) DefaultTenant ''a'' [example_row ''a'' 0] =
     (Inr (stored 0 (example_job ''a'' 0)), [example_row ''a'' 0])"
proof -
  have "CreateJob (quiet 5) 0 (example_job ''a'' 0) [] = (Inr (), [example_row ''a'' 0])"
    by (simp add: CreateJob_def insert_job_def example_simps int4_def)
  from create_then_get [OF this, of DefaultTenant 9] show ?thesis by (simp add: example_simps)
qed

text \<open>
  C5. \<^verbatim>\<open>ClaimNextJob\<close> hands out the right job. The job returned was PENDING, due, in the caller's
  tenant, queues and task names, and not locked by another claimer; no other such job has a higher
  priority, nor the same priority and an earlier schedule (a job without a schedule comes last). It
  comes back RUNNING with one more attempt and the new token, and that row alone has changed.
\<close>

theorem claim_takes_best:
  assumes "ClaimNextJob c now random lease flt rows = (Inr job, rows')" "distinct (map r_id (rely c rows))"
  shows "\<exists>r bytes. random = Some bytes \<and> r \<in> set (rely c rows) \<and>
    claimable (pgnow c) flt r \<and> \<not> locked c (r_id r) \<and>
    (\<forall>x\<in>set (rely c rows). claimable (pgnow c) flt x \<and> \<not> locked c (r_id x) \<longrightarrow>
       r_task_priority x < r_task_priority r \<or>
       r_task_priority x = r_task_priority r \<and>
         (case (r_scheduled_at r, r_scheduled_at x) of (Some a, Some b) \<Rightarrow> a \<le> b | (None, Some b) \<Rightarrow> False
          | (_, None) \<Rightarrow> True)) \<and>
    job = scanJob (claim_set now (now + lease) (hex_encode bytes) r) \<and>
    rows' = map (\<lambda>x. if x = r then claim_set now (now + lease) (hex_encode bytes) r else x) (rely c rows)"
proof -
  let ?p = "\<lambda>r. claimable (pgnow c) flt r \<and> \<not> locked c (r_id r)"
  from assms(1) obtain bytes where random: "random = Some bytes"
    and "exec c (claim_stmt (pgnow c) (locked c) now lease (hex_encode bytes) flt) rows = (Inr job, rows')"
    by (auto simp: ClaimNextJob_def newLeaseToken_def split: option.splits)
  from exec_Inr [OF this(2)] obtain r where first: "first_by claim_key (filter ?p (rely c rows)) = Some r"
    and job: "job = scanJob (claim_set now (now + lease) (hex_encode bytes) r)"
    and upd: "rows' = snd (sql_update (\<lambda>x. r_id x = r_id r) (claim_set now (now + lease) (hex_encode bytes)) (rely c rows))"
    by (auto simp: claim_stmt_def split: option.splits if_splits)
  from first_by_Some(1) [OF first] have r: "r \<in> set (rely c rows)" "?p r" by auto
  have best: "claim_key r \<le> claim_key x" if "x \<in> set (rely c rows)" "?p x" for x
    using first_by_Some(2) [OF first, of x] that by simp
  have order: "r_task_priority x < r_task_priority r \<or> r_task_priority x = r_task_priority r \<and>
      (case (r_scheduled_at r, r_scheduled_at x) of (Some a, Some b) \<Rightarrow> a \<le> b | (None, Some b) \<Rightarrow> False
       | (_, None) \<Rightarrow> True)" if "claim_key r \<le> claim_key x" for x
    using that by (auto simp: claim_key_def less_eq_prod_def split: option.splits)
  have "rows' = map (\<lambda>x. if x = r then claim_set now (now + lease) (hex_encode bytes) r else x) (rely c rows)"
    unfolding upd sql_update_def snd_conv by (rule select_by_id [OF assms(2) r(1) refl])
  with random r best order job show ?thesis by blast
qed

theorem claim_takes_best_witness:
  "\<exists>job rows'. ClaimNextJob (quiet 10) 7 (Some [0xAB]) second \<lparr>cf_tenant = '''', cf_queues = [], cf_names = []\<rparr>
     [example_row ''a'' 0, example_row ''b'' 5] = (Inr job, rows') \<and>
   j_id job = ''b'' \<and> j_attempt job = 1 \<and> j_lease_token job = ''ab'' \<and> hd rows' = example_row ''a'' 0"
proof -
  let ?flt = "\<lparr>cf_tenant = '''', cf_queues = [], cf_names = []\<rparr>"
  let ?rows = "[example_row ''a'' 0, example_row ''b'' 5]"
  obtain job rows' where e: "ClaimNextJob (quiet 10) 7 (Some [0xAB]) second ?flt ?rows = (Inr job, rows')"
    by (simp add: ClaimNextJob_def newLeaseToken_def claim_stmt_def first_by_def order_limit_def claimable_def
        of_tenant_def claim_key_def less_eq_prod_def int4_def)
  have d: "distinct (map r_id (rely (quiet 10) ?rows))" by simp
  from claim_takes_best [OF e d] obtain r bytes where bytes: "Some [0xAB] = Some bytes" and r: "r \<in> set ?rows"
    and best: "\<forall>x\<in>set ?rows. claimable 10 ?flt x \<and> \<not> False \<longrightarrow> r_task_priority x < r_task_priority r \<or>
      r_task_priority x = r_task_priority r \<and> (case (r_scheduled_at r, r_scheduled_at x) of
        (Some a, Some b) \<Rightarrow> a \<le> b | (None, Some b) \<Rightarrow> False | (_, None) \<Rightarrow> True)"
    and job: "job = scanJob (claim_set 7 (7 + second) (hex_encode bytes) r)"
    and rows': "rows' = map (\<lambda>x. if x = r then claim_set 7 (7 + second) (hex_encode bytes) r else x) ?rows"
    unfolding quiet_simps by (elim exE conjE) (rule that; assumption)
  have "claimable 10 ?flt (example_row ''b'' 5)" by (simp add: claimable_def of_tenant_def)
  with bspec [OF best, of "example_row ''b'' 5"] have "5 \<le> r_task_priority r" by auto
  with r have "r = example_row ''b'' 5" by auto
  moreover have "bytes = [0xAB]" using bytes by simp
  moreover have "hex_encode [0xAB] = ''ab''" by code_simp
  ultimately have "j_id job = ''b'' \<and> j_attempt job = 1 \<and> j_lease_token job = ''ab'' \<and> hd rows' = example_row ''a'' 0"
    using job rows' by (simp add: scanJob_def claim_set_def flatten_string_def)
  with e show ?thesis by blast
qed

lemma claim_idle_iff:
  "ClaimNextJob c now (Some bytes) lease flt rows = (Inl (Sentinel ErrJobNotFound), rows') \<longleftrightarrow>
     io c = Done \<and> rows' = rely c rows \<and>
     (\<forall>r\<in>set (rely c rows). claimable (pgnow c) flt r \<longrightarrow> locked c (r_id r))"
proof -
  let ?p = "\<lambda>r. claimable (pgnow c) flt r \<and> \<not> locked c (r_id r)"
  note defs = ClaimNextJob_def newLeaseToken_def exec_def claim_stmt_def Let_def
  have idle: "(\<forall>r\<in>set (rely c rows). claimable (pgnow c) flt r \<longrightarrow> locked c (r_id r)) \<longleftrightarrow>
      first_by claim_key (filter ?p (rely c rows)) = None"
    unfolding first_by_None by (auto simp: filter_empty_conv)
  show ?thesis unfolding idle
    by (cases "first_by claim_key (filter ?p (rely c rows))"; cases "io c")
      (auto simp: defs simp del: first_by_None)
qed

text \<open>
  A worker's result is never lost. When \<^verbatim>\<open>CompleteClaimedJob\<close> succeeds, the job it returns
  is COMPLETED and its metadata is the stored map with the worker's entries written over it, also
  when the column held JSON null (a job enqueued without metadata): the result is a map either
  way. Only the row that held the lease has changed.
\<close>

lemma complete_merges_metadata:
  assumes "CompleteClaimedJob c jid token (Some meta) rows = (Inr job, rows')" "distinct (map r_id (rely c rows))"
  shows "\<exists>r m. r \<in> set (rely c rows) \<and> holds_lease jid token r \<and> j_state job = JobStateCompleted \<and>
    j_metadata job = Some m \<and>
    (\<forall>k. map_of m k = (case map_of meta k of Some v \<Rightarrow> Some v
       | None \<Rightarrow> (case unmarshal_map (r_metadata r) of None \<Rightarrow> None | Some old \<Rightarrow> map_of old k))) \<and>
    rows' = map (\<lambda>x. if x = r then complete_set (pgnow c) (Json_object meta) r else x) (rely c rows) \<and>
    job = scanJob (complete_set (pgnow c) (Json_object meta) r)"
proof -
  from assms(1) have "exec c (complete_stmt (pgnow c) jid token (Json_object meta)) rows = (Inr job, rows')"
    by (simp add: CompleteClaimedJob_def complete_meta_def split: if_splits)
  from exec_Inr [OF this] obtain r where f: "find (holds_lease jid token) (rely c rows) = Some r"
    and job: "job = scanJob (complete_set (pgnow c) (Json_object meta) r)"
    and upd: "rows' = snd (sql_update (holds_lease jid token) (complete_set (pgnow c) (Json_object meta)) (rely c rows))"
    by (auto simp: complete_stmt_def split: option.splits)
  from find_SomeD [OF f] have r: "r \<in> set (rely c rows)" "holds_lease jid token r" by auto
  have only: "holds_lease jid token x \<longleftrightarrow> x = r" if "x \<in> set (rely c rows)" for x
    using that r distinct_map_inj [OF assms(2) that r(1)] by (auto simp: holds_lease_def)
  have "rows' = map (\<lambda>x. if x = r then complete_set (pgnow c) (Json_object meta) r else x) (rely c rows)"
    unfolding upd sql_update_def snd_conv by (rule map_cong [OF refl]) (simp add: only)
  moreover have "\<exists>m. j_metadata job = Some m \<and> (\<forall>k. map_of m k = (case map_of meta k of Some v \<Rightarrow> Some v
       | None \<Rightarrow> (case unmarshal_map (r_metadata r) of None \<Rightarrow> None | Some old \<Rightarrow> map_of old k)))"
    unfolding job by (cases "r_metadata r")
      (auto simp: scanJob_def complete_set_def merge_conv' map_add_def split: option.splits)
  moreover have "j_state job = JobStateCompleted" by (simp add: job scanJob_def complete_set_def)
  ultimately show ?thesis using r job by blast
qed

lemma complete_merges_metadata_witness:
  "\<exists>job rows'. CompleteClaimedJob (quiet 10) ''a'' ''t'' (Some [(''rows'', ''7'')])
     [claim_set 1 2 ''t'' (example_row ''a'' 0)] = (Inr job, rows') \<and>
     j_state job = JobStateCompleted \<and>
     (case j_metadata job of None \<Rightarrow> False | Some m \<Rightarrow> map_of m ''rows'' = Some ''7'')"
proof -
  let ?rows = "[claim_set 1 2 ''t'' (example_row ''a'' 0)]"
  have h: "holds_lease ''a'' ''t'' (claim_set 1 2 ''t'' (example_row ''a'' 0))"
    by (simp add: holds_lease_def claim_set_def)
  obtain job rows' where e: "CompleteClaimedJob (quiet 10) ''a'' ''t'' (Some [(''rows'', ''7'')]) ?rows = (Inr job, rows')"
    using h by (simp add: CompleteClaimedJob_def complete_stmt_def)
  have d: "distinct (map r_id (rely (quiet 10) ?rows))" by simp
  from complete_merges_metadata [OF e d] obtain m where m: "j_state job = JobStateCompleted" "j_metadata job = Some m"
    and k: "\<And>k. k = ''rows'' \<Longrightarrow> map_of m k = Some ''7''" by (elim exE conjE) (rule that, assumption+, simp)
  with e show ?thesis by (intro exI [of _ job] exI [of _ rows']) (simp add: m k)
qed

text \<open>
  C29. Lease recovery takes expired leases only, oldest first. A successful
  \<^verbatim>\<open>RequeueExpiredRunning\<close> rewrites a batch of RUNNING jobs whose lease has run out by the
  database's clock: as many as the limit allows and no more than there are, none of them with a later
  expiry than an expired job left behind. A job with attempts left becomes PENDING and due now, one
  without becomes DEAD with a completion time; either loses its lease. Every other row is untouched.
\<close>

theorem reap_recovers_expired:
  assumes "RequeueExpiredRunning c limit rows = (Inr n, rows')" "0 < limit" "distinct (map r_id (rely c rows))"
  shows "\<exists>B. B \<subseteq> {r \<in> set (rely c rows). expired_at (pgnow c) r \<and> \<not> locked c (r_id r)} \<and>
    n = card B \<and>
    n = min (nat limit) (card {r \<in> set (rely c rows). expired_at (pgnow c) r \<and> \<not> locked c (r_id r)}) \<and>
    (\<forall>r\<in>B. \<forall>x\<in>set (rely c rows). expired_at (pgnow c) x \<and> \<not> locked c (r_id x) \<and> x \<notin> B \<longrightarrow>
       the (r_lease_expires_at r) \<le> the (r_lease_expires_at x)) \<and>
    rows' = map (\<lambda>r. if r \<notin> B then r
       else if r_attempt r < r_task_max_retries r
       then r\<lparr>r_state := JobStatePending, r_last_error := ''job lease expired before completion'',
              r_scheduled_at := Some (pg_ts (pgnow c)), r_started_at := None, r_lease_expires_at := None,
              r_lease_token := None, r_updated_at := pg_ts (pgnow c)\<rparr>
       else r\<lparr>r_state := JobStateDead, r_last_error := ''job lease expired before completion'',
              r_completed_at := Some (pg_ts (pgnow c)), r_started_at := None, r_lease_expires_at := None,
              r_lease_token := None, r_updated_at := pg_ts (pgnow c)\<rparr>) (rely c rows)"
proof -
  let ?s = "rely c rows" and ?p = "\<lambda>r. expired_at (pgnow c) r \<and> \<not> locked c (r_id r)"
  let ?k = "\<lambda>r. with_nulls_last (r_lease_expires_at r)"
  define B where "B = set (order_limit ?k (nat limit) (filter ?p ?s))"
  have b: "B \<subseteq> {r \<in> set ?s. ?p r}" "card B = min (nat limit) (card {r \<in> set ?s. ?p r})"
    using order_limit_batch [OF distinct_ids [OF assms(3)], of ?k "nat limit" ?p] by (auto simp: B_def)
  from assms(1,2) have "exec c (reap_stmt (pgnow c) (locked c) (nat limit)) rows = (Inr n, rows')"
    by (simp add: RequeueExpiredRunning_def)
  from exec_Inr [OF this] have n: "n = length (filter (\<lambda>r. r_id r \<in> r_id ` B) ?s)"
    and rows': "rows' = map (\<lambda>r. if r_id r \<in> r_id ` B then reap_set (pgnow c) r else r) ?s"
    by (auto simp: reap_stmt_def expired_batch_def sql_update_def B_def Let_def)
  have m: "r_id r \<in> r_id ` B \<longleftrightarrow> r \<in> B" if "r \<in> set ?s" for r
    using b(1) by (intro matched_in_batch [OF assms(3) _ that]) auto
  have card: "n = card B" using b(1) n batch_count [OF assms(3), of B] by auto
  have "the (r_lease_expires_at r) \<le> the (r_lease_expires_at x)" if "r \<in> B" "x \<in> set ?s" "?p x" "x \<notin> B" for r x
  proof -
    have "?k r \<le> ?k x" using that unfolding B_def by (intro order_limit_least) auto
    moreover have "?p r" using b(1) that(1) by auto
    ultimately show ?thesis using that(3) by (auto simp: expired_at_def split: option.splits)
  qed
  moreover have "rows' = map (\<lambda>r. if r \<notin> B then r else reap_set (pgnow c) r) ?s"
    unfolding rows' by (rule map_cong [OF refl]) (simp add: m)
  ultimately show ?thesis using b card unfolding reap_set_def exhausted_def
    by (intro exI [of _ B]) (auto simp: not_le)
qed

theorem reap_recovers_expired_witness:
  "\<exists>rows' B. RequeueExpiredRunning (quiet 10000) 5 [claim_set 1 2000 ''t'' (example_row ''a'' 0)] = (Inr 1, rows') \<and>
     card B = 1 \<and> B \<subseteq> {claim_set 1 2000 ''t'' (example_row ''a'' 0)} \<and> map r_state rows' = [JobStatePending]"
proof -
  let ?r = "claim_set 1 2000 ''t'' (example_row ''a'' 0)"
  have x: "expired_at 10000 ?r" by (simp add: expired_at_def claim_set_def pg_ts_def)
  obtain rows' where e: "RequeueExpiredRunning (quiet 10000) 5 [?r] = (Inr 1, rows')"
    and st: "map r_state rows' = [JobStatePending]"
    using x by (simp add: RequeueExpiredRunning_def reap_stmt_def expired_batch_def order_limit_def sql_update_def)
      (simp add: reap_set_def exhausted_def claim_set_def)
  have l: "0 < (5 :: int)" and d: "distinct (map r_id (rely (quiet 10000) [?r]))" by simp_all
  from reap_recovers_expired [OF e l d] obtain B where "1 = card B" "B \<subseteq> {?r}" by fastforce
  with e st show ?thesis by (intro exI [of _ rows'] exI [of _ B]) simp
qed

lemma DeleteFinished_batch:
  assumes "DeleteFinished c state before limit rows = (Inr n, rows')" "0 < limit" "distinct (map r_id (rely c rows))"
  shows "(state = JobStateCompleted \<or> state = JobStateDead) \<and>
    (\<exists>B. B \<subseteq> {r \<in> set (rely c rows). prunable state before r} \<and>
       n = card B \<and> n = min (nat limit) (card {r \<in> set (rely c rows). prunable state before r}) \<and>
       (\<forall>r\<in>B. \<forall>x\<in>set (rely c rows). prunable state before x \<and> x \<notin> B \<longrightarrow>
          the (r_completed_at r) \<le> the (r_completed_at x)) \<and>
       rows' = filter (\<lambda>r. r \<notin> B) (rely c rows))"
proof -
  let ?s = "rely c rows" and ?k = "\<lambda>r. with_nulls_last (r_completed_at r)"
  from assms(1,2) have st: "state = JobStateCompleted \<or> state = JobStateDead"
    and e: "exec c (delete_stmt state before (nat limit)) rows = (Inr n, rows')"
    by (auto simp: DeleteFinished_def split: if_splits)
  define B where "B = set (order_limit ?k (nat limit) (filter (prunable state before) ?s))"
  have b: "B \<subseteq> {r \<in> set ?s. prunable state before r}"
    "card B = min (nat limit) (card {r \<in> set ?s. prunable state before r})"
    using order_limit_batch [OF distinct_ids [OF assms(3)], of ?k "nat limit" "prunable state before"]
    by (auto simp: B_def)
  from exec_Inr [OF e] have n: "n = length (filter (\<lambda>r. r_id r \<in> r_id ` B) ?s)"
    and rows': "rows' = filter (\<lambda>r. r_id r \<notin> r_id ` B) ?s"
    by (auto simp: delete_stmt_def B_def Let_def)
  have m: "r_id r \<in> r_id ` B \<longleftrightarrow> r \<in> B" if "r \<in> set ?s" for r
    using b(1) by (intro matched_in_batch [OF assms(3) _ that]) auto
  have "n = card B" using b(1) n batch_count [OF assms(3), of B] by auto
  moreover have "rows' = filter (\<lambda>r. r \<notin> B) ?s" unfolding rows' by (rule filter_cong [OF refl]) (simp add: m)
  moreover have "the (r_completed_at r) \<le> the (r_completed_at x)"
    if "r \<in> B" "x \<in> set ?s" "prunable state before x" "x \<notin> B" for r x
  proof -
    have "?k r \<le> ?k x" using that unfolding B_def by (intro order_limit_least) auto
    moreover have "prunable state before r" using b(1) that(1) by auto
    ultimately show ?thesis using that(3) by (auto simp: prunable_def split: option.splits)
  qed
  ultimately show ?thesis using st b by (intro conjI exI [of _ B]) blast+
qed

text \<open>
  Retention deletes finished history and nothing else. A successful \<^verbatim>\<open>DeleteFinished\<close> removes
  only rows that are in the given terminal state and were completed before the cut-off, oldest
  first, at most the limit, and reports how many; PENDING and RUNNING jobs survive any call, and asking
  to delete them is an error that touches nothing.
\<close>

lemma delete_finished_only:
  assumes "DeleteFinished c state before limit rows = (Inr n, rows')" "0 < limit" "distinct (map r_id (rely c rows))"
  shows "(state = JobStateCompleted \<or> state = JobStateDead) \<and>
    (\<exists>B. B \<subseteq> {r \<in> set (rely c rows). prunable state before r} \<and>
       n = card B \<and> n = min (nat limit) (card {r \<in> set (rely c rows). prunable state before r}) \<and>
       (\<forall>r\<in>B. \<forall>x\<in>set (rely c rows). prunable state before x \<and> x \<notin> B \<longrightarrow>
          the (r_completed_at r) \<le> the (r_completed_at x)) \<and>
       rows' = filter (\<lambda>r. r \<notin> B) (rely c rows))"
  using assms by (rule DeleteFinished_batch)

lemma delete_finished_only_witness:
  "\<exists>rows'. DeleteFinished (quiet 0) JobStateDead 99000 10 [cancel_set 5000 (example_row ''a'' 0), example_row ''b'' 0] =
      (Inr 1, rows') \<and> example_row ''b'' 0 \<in> set rows'"
proof -
  let ?rows = "[cancel_set 5000 (example_row ''a'' 0), example_row ''b'' 0]"
  have p: "prunable JobStateDead 99000 (cancel_set 5000 (example_row ''a'' 0))"
    "\<not> prunable JobStateDead 99000 (example_row ''b'' 0)"
    by (simp_all add: prunable_def cancel_set_def pg_ts_def)
  have i: "r_id (cancel_set 5000 (example_row ''a'' 0)) = ''a''" by (simp add: cancel_set_def)
  obtain rows' where e: "DeleteFinished (quiet 0) JobStateDead 99000 10 ?rows = (Inr 1, rows')"
    using p by (simp add: DeleteFinished_def delete_stmt_def order_limit_def i)
  have l: "0 < (10 :: int)" and d: "distinct (map r_id (rely (quiet 0) ?rows))" by (simp_all add: i)
  from delete_finished_only [OF e l d] obtain B where
    "B \<subseteq> {r \<in> set ?rows. prunable JobStateDead 99000 r}" "rows' = filter (\<lambda>r. r \<notin> B) ?rows" by auto
  with e p show ?thesis by auto
qed

lemma delete_refuses_live:
  "state \<noteq> JobStateCompleted \<Longrightarrow> state \<noteq> JobStateDead \<Longrightarrow>
     \<exists>e. DeleteFinished c state before limit rows = (Inl e, rows)"
  by (simp add: DeleteFinished_def)

text \<open>Other sessions that leave one row alone and keep the primary key.\<close>

definition leaves_alone :: "job_row \<Rightarrow> jobs call \<Rightarrow> bool" where
  "leaves_alone r c \<longleftrightarrow> (\<forall>s. r \<in> set s \<and> distinct (map r_id s) \<longrightarrow>
     r \<in> set (rely c s) \<and> distinct (map r_id (rely c s)))"

lemma leaves_alone_quiet [simp]: "leaves_alone r (quiet t)"
  by (simp add: leaves_alone_def)

lemma unmatched_survives: "r \<in> set rows \<Longrightarrow> \<not> p r \<Longrightarrow> r \<in> set (snd (sql_update p f rows))"
  by (force simp: in_set_sql_update)

lemma not_found_or_invalid_state: "snd (not_found_or_invalid res) = snd res"
  by (auto simp: not_found_or_invalid_def split: prod.splits sum.splits)

lemma guarded_update_survives:
  assumes "r \<in> set rows" "distinct (map r_id rows)" "leaves_alone r c1" "leaves_alone r c2" "\<not> p r"
    and "\<And>x. r_id (f x) = r_id x"
  shows "r \<in> set (snd (case exec c1 (\<lambda>s. let (n, s') = sql_update p f s in (Inr n, s')) rows of
        (Inl e, s) \<Rightarrow> (Inl e, s)
      | (Inr n, s) \<Rightarrow> if n = 0 then not_found_or_invalid (GetJob c2 tenant jid s) else (Inr (), s)))"
proof -
  let ?e = "exec c1 (\<lambda>s. let (n, s') = sql_update p f s in (Inr n, s')) rows"
  have i: "keyed_update r_id f" by unfold_locales (rule assms(6))
  have "r \<in> set (rely c1 rows) \<and> distinct (map r_id (rely c1 rows))" using assms by (simp add: leaves_alone_def)
  then have "r \<in> set (snd ?e) \<and> distinct (map r_id (snd ?e))"
    using exec_state [of c1 "\<lambda>s. let (n, s') = sql_update p f s in (Inr n, s')" rows]
      unmatched_survives [of r "rely c1 rows" p f] assms(5) keyed_update.distinct_pk_update [OF i]
    by (auto simp: case_prod_beta Let_def)
  moreover have "r \<in> set (rely c2 s)" if "r \<in> set s" "distinct (map r_id s)" for s
    using that assms(4) by (simp add: leaves_alone_def)
  ultimately show ?thesis
    by (cases ?e) (auto simp: not_found_or_invalid_state GetJob_state split: sum.splits)
qed

lemma cancel_survives:
  assumes "r \<in> set rows" "distinct (map r_id rows)" "leaves_alone r c1" "leaves_alone r c2" "\<not> of_tenant tenant r"
  shows "r \<in> set (snd (CancelJob c1 c2 tenant jid rows))"
  unfolding CancelJob_def using assms
  by (intro guarded_update_survives) (auto simp: cancel_where_def upd_cancel.pk_upd)

lemma requeue_survives:
  assumes "r \<in> set rows" "distinct (map r_id rows)" "leaves_alone r c1" "leaves_alone r c2" "\<not> of_tenant tenant r"
  shows "r \<in> set (snd (RequeueDeadJob c1 c2 tenant jid rows))"
  unfolding RequeueDeadJob_def using assms
  by (intro guarded_update_survives) (auto simp: requeue_where_def upd_requeue.pk_upd)

lemma claim_survives:
  assumes "r \<in> set rows" "distinct (map r_id rows)" "leaves_alone r c" "\<not> of_tenant (cf_tenant flt) r"
  shows "r \<in> set (snd (ClaimNextJob c now random lease flt rows))"
proof (cases random)
  case (Some bytes)
  have in1: "r \<in> set (rely c rows)" "distinct (map r_id (rely c rows))"
    using assms by (simp_all add: leaves_alone_def)
  have "r \<in> set (snd (claim_stmt (pgnow c) (locked c) now lease (hex_encode bytes) flt (rely c rows)))"
  proof (cases "first_by claim_key (filter (\<lambda>r. claimable (pgnow c) flt r \<and> \<not> locked c (r_id r)) (rely c rows))")
    case (Some x)
    from first_by_Some(1) [OF this] have "x \<in> set (rely c rows)" "of_tenant (cf_tenant flt) x" by (auto simp: claimable_def)
    with assms(4) in1 distinct_map_inj [OF in1(2) in1(1), of x] have "r_id r \<noteq> r_id x" by auto
    with Some in1 show ?thesis by (simp add: claim_stmt_def unmatched_survives)
  qed (use in1 in \<open>simp add: claim_stmt_def del: first_by_None\<close>)
  with in1 Some show ?thesis
    by (simp add: ClaimNextJob_def newLeaseToken_def exec_invariant [where P = "\<lambda>s. r \<in> set s"])
qed (simp add: ClaimNextJob_def newLeaseToken_def assms)

lemma claim_keeps_ids:
  assumes "r \<in> set rows" "distinct (map r_id rows)" "leaves_alone r c"
  shows "distinct (map r_id (snd (ClaimNextJob c now random lease flt rows)))"
proof (cases random)
  case (Some bytes)
  have in1: "distinct (map r_id (rely c rows))" using assms by (simp add: leaves_alone_def)
  then have "distinct (map r_id (snd (claim_stmt (pgnow c) (locked c) now lease (hex_encode bytes) flt (rely c rows))))"
    by (auto simp: claim_stmt_def upd_claim.map_pk_update split: option.splits)
  with in1 Some show ?thesis
    by (simp add: ClaimNextJob_def newLeaseToken_def exec_invariant [where P = "\<lambda>s. distinct (map r_id s)"])
qed (simp add: ClaimNextJob_def newLeaseToken_def assms)

lemma GetJob_tenant:
  assumes "tenant \<noteq> AnyTenant" "GetJob c tenant jid rows = (Inr job, s)"
  shows "j_tenant_id job = tenant"
  using select_one_Inr [OF exec_Inr [OF assms(2) [unfolded GetJob_def]]] assms(1)
  by (auto simp: of_tenant_def AnyTenant_def scanJob_def)

lemma GetJobByIdempotencyKey_tenant:
  assumes "tenant \<noteq> AnyTenant" "GetJobByIdempotencyKey c tenant key rows = (Inr job, s)"
  shows "j_tenant_id job = tenant"
  using select_one_Inr [OF exec_Inr [OF assms(2) [unfolded GetJobByIdempotencyKey_def]]] assms(1)
  by (auto simp: of_tenant_def AnyTenant_def scanJob_def)

text \<open>
  Tenants are isolated. With a tenant given (not \<^verbatim>\<open>AnyTenant\<close>), cancelling, requeueing and
  claiming leave every row of another tenant exactly as it was, whatever id is named, and reading
  never returns a job of another tenant. Concurrent sessions may do anything to the other rows; they
  are only assumed to leave the row in question alone.
\<close>

lemma tenant_isolation:
  assumes "tenant \<noteq> AnyTenant" "r_tenant_id r \<noteq> tenant" "r \<in> set rows" "distinct (map r_id rows)"
    and "leaves_alone r c1" "leaves_alone r c2"
  shows "r \<in> set (snd (CancelJob c1 c2 tenant jid rows)) \<and>
    r \<in> set (snd (RequeueDeadJob c1 c2 tenant jid rows)) \<and>
    r \<in> set (snd (ClaimNextJob c1 now random lease \<lparr>cf_tenant = tenant, cf_queues = qs, cf_names = ns\<rparr> rows)) \<and>
    (\<forall>job s. GetJob c1 tenant jid rows = (Inr job, s) \<longrightarrow> j_tenant_id job = tenant)"
proof -
  have other: "\<not> of_tenant tenant r" using assms(1,2) by (simp add: of_tenant_def AnyTenant_def)
  note here = assms(3,4,5)
  show ?thesis
    using cancel_survives [OF here assms(6) other] requeue_survives [OF here assms(6) other]
      claim_survives [OF here, of "\<lparr>cf_tenant = tenant, cf_queues = qs, cf_names = ns\<rparr>"] other
      GetJob_tenant [OF assms(1)] by auto
qed

lemma tenant_isolation_witness:
  "cancel_set 1 (example_row ''a'' 0) \<in> set (snd (RequeueDeadJob (quiet 3) (quiet 4) ''other'' ''a'' [cancel_set 1 (example_row ''a'' 0)]))"
  using tenant_isolation [of "''other''" "cancel_set 1 (example_row ''a'' 0)" "[cancel_set 1 (example_row ''a'' 0)]"
      "quiet 3" "quiet 4" "''a''"]
  by (simp add: AnyTenant_def cancel_set_def)

end
