(* ===== verification/Store_System.thy ===== *)
theory Store_System
  imports Job_Store
begin

text \<open>
  The jobs table as a shared state machine. A state is the table and, as a history variable, the set
  of lease tokens handed out so far. One step is one statement of \<^verbatim>\<open>PostgresStore\<close>, committed by
  any process; an execution of the whole deployment is an interleaving of such steps. The side
  conditions of a step say what the program's callers guarantee: new rows are the ones
  \<^verbatim>\<open>JobService.Enqueue\<close> builds, lease tokens are fresh (16 random bytes), and a failed job is
  put back only while its budget lasts, which \<^verbatim>\<open>Job_Service\<close> proves of \<^verbatim>\<open>JobService.Fail\<close>.

  Shown here: the invariant of every reachable table, that a lease token once lost never comes
  back, that a finished job stays finished, that the steps refine the abstract job life cycle, and
  that a job cannot be retried forever.
\<close>

section \<open>Steps\<close>

definition fresh_row :: "job_row \<Rightarrow> bool" where
  "fresh_row r \<longleftrightarrow> r_state r = JobStatePending \<and> r_attempt r = 0 \<and> r_lease_token r = None \<and>
     r_started_at r = None \<and> r_lease_expires_at r = None \<and> r_completed_at r = None \<and>
     1 \<le> r_task_max_retries r \<and> us_aligned (r_created_at r)"

text \<open>The row update \<^verbatim>\<open>jobWorker.Run\<close> asks for when it starts a job it received from Kafka.\<close>

definition starts_with :: "string \<Rightarrow> job \<Rightarrow> bool" where
  "starts_with token job \<longleftrightarrow> j_state job = JobStateRunning \<and> j_attempt job = 1 \<and>
     j_lease_token job = token \<and> j_started_at job \<noteq> None \<and> j_lease_expires_at job \<noteq> None \<and>
     j_completed_at job = None"

definition within_budget :: "string \<Rightarrow> string \<Rightarrow> jobs \<Rightarrow> bool" where
  "within_budget jid token rows \<longleftrightarrow>
     (\<forall>r\<in>set rows. holds_lease jid token r \<longrightarrow> r_attempt r < r_task_max_retries r)"

type_synonym table = "jobs \<times> string set"

inductive store_step :: "table \<Rightarrow> table \<Rightarrow> bool" where
  insert: "fresh_row r \<Longrightarrow> store_step (rows, iss) (snd (insert_job r rows), iss)"
| start: "token \<notin> iss \<Longrightarrow> token \<noteq> '''' \<Longrightarrow> starts_with token job \<Longrightarrow>
    store_step (rows, iss) (snd (update_job_stmt now job rows), insert token iss)"
| cancel: "store_step (rows, iss) (snd (sql_update (cancel_where tenant jid) (cancel_set t) rows), iss)"
| claim: "token \<notin> iss \<Longrightarrow> token \<noteq> '''' \<Longrightarrow>
    store_step (rows, iss) (snd (claim_stmt t lck now lease token flt rows), insert token iss)"
| renew: "store_step (rows, iss) (snd (sql_update (holds_lease jid token) (renew_set t x) rows), iss)"
| release: "store_step (rows, iss)
    (snd (sql_update (holds_lease jid token) (release_set t reason x) rows), iss)"
| complete: "store_step (rows, iss) (snd (complete_stmt t jid token meta rows), iss)"
| fail: "nextRun = None \<or> within_budget jid token rows \<Longrightarrow>
    store_step (rows, iss) (snd (sql_update (holds_lease jid token) (fail_set t msg nextRun) rows), iss)"
| reap: "store_step (rows, iss) (snd (reap_stmt t lck n rows), iss)"
| requeue: "store_step (rows, iss) (snd (sql_update (requeue_where tenant jid) (requeue_set t) rows), iss)"
| delete: "state = JobStateCompleted \<or> state = JobStateDead \<Longrightarrow>
    store_step (rows, iss) (snd (delete_stmt state before n rows), iss)"

inductive reachable :: "table \<Rightarrow> bool" where
  empty: "reachable ([], {})"
| step: "reachable s \<Longrightarrow> store_step s s' \<Longrightarrow> reachable s'"

section \<open>The invariant\<close>

definition row_inv :: "string set \<Rightarrow> job_row \<Rightarrow> bool" where
  "row_inv iss r \<longleftrightarrow> 1 \<le> r_task_max_retries r \<and> int4 (r_task_max_retries r) \<and>
     us_aligned (r_created_at r) \<and> 0 \<le> r_attempt r \<and> r_attempt r \<le> r_task_max_retries r \<and>
     (case r_state r of
        JobStatePending \<Rightarrow> r_attempt r < r_task_max_retries r \<and> r_lease_token r = None \<and>
          r_lease_expires_at r = None \<and> r_started_at r = None \<and> r_completed_at r = None
      | JobStateRunning \<Rightarrow> 1 \<le> r_attempt r \<and> r_lease_expires_at r \<noteq> None \<and> r_started_at r \<noteq> None \<and>
          r_completed_at r = None \<and>
          (case r_lease_token r of None \<Rightarrow> False | Some t \<Rightarrow> t \<in> iss \<and> t \<noteq> '''')
      | JobStateCompleted \<Rightarrow> r_completed_at r \<noteq> None \<and> r_lease_token r = None \<and>
          r_lease_expires_at r = None \<and> r_started_at r = None
      | JobStateDead \<Rightarrow> r_completed_at r \<noteq> None \<and> r_lease_token r = None \<and>
          r_lease_expires_at r = None \<and> r_started_at r = None
      | _ \<Rightarrow> False)"

definition store_inv :: "table \<Rightarrow> bool" where
  "store_inv s \<longleftrightarrow> (case s of (rows, iss) \<Rightarrow>
     distinct (map r_id rows) \<and>
     (\<forall>a\<in>set rows. \<forall>b\<in>set rows. same_key a b \<longrightarrow> a = b) \<and>
     (\<forall>a\<in>set rows. \<forall>b\<in>set rows. r_lease_token a \<noteq> None \<and> r_lease_token a = r_lease_token b \<longrightarrow> a = b) \<and>
     (\<forall>r\<in>set rows. row_inv iss r))"

lemma row_inv_mono: "row_inv iss r \<Longrightarrow> iss \<subseteq> iss' \<Longrightarrow> row_inv iss' r"
  by (auto simp: row_inv_def split: job_state.splits option.splits)

lemma row_inv_token: "row_inv iss r \<Longrightarrow> r_lease_token r = Some t \<Longrightarrow> t \<in> iss \<and> r_state r = JobStateRunning"
  by (auto simp: row_inv_def split: job_state.splits option.splits)

lemma store_invD:
  assumes "store_inv (rows, iss)"
  shows "distinct (map r_id rows)"
    "\<And>a b. a \<in> set rows \<Longrightarrow> b \<in> set rows \<Longrightarrow> r_id a = r_id b \<Longrightarrow> a = b"
    "\<And>a b. a \<in> set rows \<Longrightarrow> b \<in> set rows \<Longrightarrow> same_key a b \<Longrightarrow> a = b"
    "\<And>a b t. a \<in> set rows \<Longrightarrow> b \<in> set rows \<Longrightarrow> r_lease_token a = Some t \<Longrightarrow> r_lease_token b = Some t \<Longrightarrow> a = b"
    "\<And>r. r \<in> set rows \<Longrightarrow> row_inv iss r"
proof -
  show "a = b" if "a \<in> set rows" "b \<in> set rows" "r_id a = r_id b" for a b
    using that assms distinct_map_inj [of r_id rows a b] by (simp add: store_inv_def)
qed (use assms in \<open>auto simp: store_inv_def\<close>)

text \<open>
  An update keeps the invariant when it keeps the identity of every row, re-establishes the row
  invariant where it applies, and takes no lease token from another row: it clears the token, keeps
  it, or writes a fresh one into the only row it matches.
\<close>

context row_update
begin

lemma update_inv:
  assumes inv: "store_inv (rows, iss)" and iss: "iss \<subseteq> iss'"
    and row: "\<And>r. r \<in> set rows \<Longrightarrow> p r \<Longrightarrow> row_inv iss' (upd r)"
    and tok: "(\<forall>r\<in>set rows. p r \<longrightarrow> r_lease_token (upd r) = None \<or> r_lease_token (upd r) = r_lease_token r) \<or>
      (\<exists>t. t \<notin> iss \<and> (\<forall>r\<in>set rows. p r \<longrightarrow> r_lease_token (upd r) = Some t) \<and>
           (\<forall>a\<in>set rows. \<forall>b\<in>set rows. p a \<and> p b \<longrightarrow> a = b))"
  shows "store_inv (snd (sql_update p upd rows), iss')"
proof -
  let ?u = "\<lambda>r. if p r then upd r else r"
  have sm: "same_job (?u r) r" for r using keeps by simp
  note D = store_invD [OF inv]
  have tokens: "a = b"
    if "a \<in> set rows" "b \<in> set rows" "r_lease_token (?u a) = Some t" "r_lease_token (?u b) = Some t" for a b t
  proof -
    have old: "t \<in> iss" if "r \<in> set rows" "r_lease_token r = Some t" for r
      using row_inv_token [OF D(5) [OF that(1)] that(2)] by simp
    show ?thesis using tok that D(4) [of a b] old [of a] old [of b]
      by (auto split: if_splits) (metis (no_types, lifting) D(4) option.inject option.distinct(1))+
  qed
  have set: "set (snd (sql_update p upd rows)) = ?u ` set rows"
    by (simp add: sql_update_def)
  have keys: "?u a = ?u b" if "a \<in> set rows" "b \<in> set rows" "same_key (?u a) (?u b)" for a b
  proof -
    have "same_key a b" using that(3) sm [of a] sm [of b] by (auto simp: same_key_def same_job_def)
    with D(3) [OF that(1,2)] show ?thesis by simp
  qed
  have rows: "row_inv iss' (?u r)" if "r \<in> set rows" for r
    using row [OF that] row_inv_mono [OF D(5) [OF that] iss] by simp
  show ?thesis
    unfolding store_inv_def prod.case set
  proof (intro conjI ballI impI)
    show "distinct (map r_id (snd (sql_update p upd rows)))" by (rule distinct_pk_update [OF D(1)])
  next
    fix x y assume "x \<in> ?u ` set rows" "y \<in> ?u ` set rows" "same_key x y"
    then show "x = y" using keys by blast
  next
    fix x y assume xy: "x \<in> ?u ` set rows" "y \<in> ?u ` set rows"
      and t: "r_lease_token x \<noteq> None \<and> r_lease_token x = r_lease_token y"
    from xy obtain a b where ab: "x = ?u a" "a \<in> set rows" "y = ?u b" "b \<in> set rows" by blast
    from t obtain u where "r_lease_token (?u a) = Some u" "r_lease_token (?u b) = Some u"
      unfolding ab by fastforce
    then have "a = b" using tokens ab by blast
    then show "x = y" unfolding ab by simp
  next
    fix x assume "x \<in> ?u ` set rows"
    then show "row_inv iss' x" using rows by blast
  qed
qed

end

lemma set_tokens [row_simps]:
  "r_lease_token (cancel_set t r) = None"
  "r_lease_token (renew_set t x r) = r_lease_token r"
  "r_lease_token (release_set t reason x r) = None"
  "r_lease_token (complete_set t meta r) = None"
  "r_lease_token (fail_set t msg nextRun r) = None"
  "r_lease_token (reap_set t r) = None"
  "r_lease_token (requeue_set t r) = None"
  by (simp_all add: cancel_set_def renew_set_def release_set_def complete_set_def fail_set_def
      reap_set_def requeue_set_def)

lemmas set_defs = update_set_def cancel_set_def claim_set_def renew_set_def release_set_def
  complete_set_def fail_set_def reap_set_def requeue_set_def

subsection \<open>Every SET clause re-establishes the row invariant\<close>

lemma row_inv_cancel: "row_inv iss r \<Longrightarrow> row_inv iss (cancel_set t r)"
  by (simp add: row_inv_def cancel_set_def)

lemma row_inv_renew: "r_state r = JobStateRunning \<Longrightarrow> row_inv iss r \<Longrightarrow> row_inv iss (renew_set t x r)"
  by (simp add: row_inv_def renew_set_def)

lemma row_inv_release:
  "r_state r = JobStateRunning \<Longrightarrow> row_inv iss r \<Longrightarrow> row_inv iss (release_set t reason x r)"
  by (auto simp: row_inv_def release_set_def)

lemma row_inv_complete: "row_inv iss r \<Longrightarrow> row_inv iss (complete_set t meta r)"
  by (simp add: row_inv_def complete_set_def)

lemma row_inv_fail:
  "r_state r = JobStateRunning \<Longrightarrow> nextRun = None \<or> r_attempt r < r_task_max_retries r \<Longrightarrow>
     row_inv iss r \<Longrightarrow> row_inv iss (fail_set t msg nextRun r)"
  by (auto simp: row_inv_def fail_set_def)

lemma row_inv_reap: "r_state r = JobStateRunning \<Longrightarrow> row_inv iss r \<Longrightarrow> row_inv iss (reap_set t r)"
  by (auto simp: row_inv_def reap_set_def exhausted_def)

lemma row_inv_requeue: "row_inv iss r \<Longrightarrow> row_inv iss (requeue_set t r)"
  by (auto simp: row_inv_def requeue_set_def)

lemma row_inv_claim:
  "r_state r = JobStatePending \<Longrightarrow> token \<noteq> '''' \<Longrightarrow> row_inv iss r \<Longrightarrow>
     row_inv (insert token iss) (claim_set now x token r)"
  by (auto simp: row_inv_def claim_set_def)

lemma row_inv_start:
  "r_state r = JobStatePending \<Longrightarrow> token \<noteq> '''' \<Longrightarrow> starts_with token job \<Longrightarrow> row_inv iss r \<Longrightarrow>
     row_inv (insert token iss) (update_set now job r)"
  by (auto simp: row_inv_def update_set_def starts_with_def nullableString_def)

lemma fresh_row_inv: "fresh_row r \<Longrightarrow> int4 (r_task_max_retries r) \<Longrightarrow> row_inv iss r"
  by (simp add: fresh_row_def row_inv_def)

lemma holds_lease_state: "holds_lease jid token r \<Longrightarrow> r_state r = JobStateRunning"
  by (simp add: holds_lease_def)

lemma update_where_start:
  assumes "row_inv iss r" "update_where job r" "starts_with token job" "token \<notin> iss" "token \<noteq> ''''"
  shows "r_state r = JobStatePending"
  using assms row_inv_token [OF assms(1), of token] by (auto simp: update_where_def starts_with_def)

lemma in_expired_batch: "r \<in> set (expired_batch t lck n rows) \<Longrightarrow> r \<in> set rows \<and> expired_at t r \<and> \<not> lck (r_id r)"
  unfolding expired_batch_def using in_order_limitD by fastforce

lemma expired_batch_matched:
  assumes "distinct (map r_id rows)" "r \<in> set rows" "r_id r \<in> r_id ` set (expired_batch t lck n rows)"
  shows "r \<in> set (expired_batch t lck n rows)"
proof -
  from assms(3) obtain x where x: "x \<in> set (expired_batch t lck n rows)" "r_id r = r_id x" by auto
  with in_expired_batch distinct_map_inj [OF assms(1,2), of x] show ?thesis by simp
qed

lemma reap_stmt_state:
  "snd (reap_stmt t lck n rows) =
     snd (sql_update (\<lambda>r. r_id r \<in> r_id ` set (expired_batch t lck n rows)) (reap_set t) rows)"
  by (simp add: reap_stmt_def Let_def case_prod_beta)

lemma complete_stmt_state:
  "snd (complete_stmt t jid token meta rows) = snd (sql_update (holds_lease jid token) (complete_set t meta) rows)"
  by (auto simp: complete_stmt_def sql_update_none find_None_ball split: option.splits)

subsection \<open>Every step keeps the invariant\<close>

lemma insert_job_inv:
  assumes inv: "store_inv (rows, iss)" and r: "fresh_row r"
  shows "store_inv (snd (insert_job r rows), iss)"
proof (cases "snd (insert_job r rows) = rows")
  case False
  then have s: "snd (insert_job r rows) = rows @ [r]" and i: "int4 (r_task_max_retries r)"
    and pk: "\<forall>x\<in>set rows. r_id x \<noteq> r_id r" and key: "\<forall>x\<in>set rows. \<not> same_key r x"
    by (auto simp: insert_job_def list_ex_iff split: if_splits)
  have sym: "same_key x r = same_key r x" for x by (auto simp: same_key_def)
  have t: "r_lease_token r = None" using r by (simp add: fresh_row_def)
  note D = store_invD [OF inv]
  show ?thesis unfolding s store_inv_def prod.case
  proof (intro conjI ballI impI)
    show "distinct (map r_id (rows @ [r]))" using D(1) pk by auto
  next
    fix a b assume "a \<in> set (rows @ [r])" "b \<in> set (rows @ [r])" "same_key a b"
    then show "a = b" using D(3) [of a b] key sym by auto
  next
    fix a b assume "a \<in> set (rows @ [r])" "b \<in> set (rows @ [r])"
      "r_lease_token a \<noteq> None \<and> r_lease_token a = r_lease_token b"
    then show "a = b" using D(4) [of a b] t by (cases "r_lease_token b") auto
  next
    fix a assume "a \<in> set (rows @ [r])"
    then show "row_inv iss a" using D(5) [of a] fresh_row_inv [OF r i] by auto
  qed
qed (simp add: inv)

lemma filter_inv: "store_inv (rows, iss) \<Longrightarrow> store_inv (filter p rows, iss)"
  unfolding store_inv_def prod.case set_filter by (blast intro: distinct_map_filter)

lemma insert_token_inv: "store_inv (rows, iss) \<Longrightarrow> store_inv (rows, insert t iss)"
  unfolding store_inv_def prod.case by (blast intro: row_inv_mono)

lemma claim_stmt_inv:
  assumes inv: "store_inv (rows, iss)" and t: "token \<notin> iss" "token \<noteq> ''''"
  shows "store_inv (snd (claim_stmt tm lck now lease token flt rows), insert token iss)"
proof (cases "first_by claim_key (filter (\<lambda>r. claimable tm flt r \<and> \<not> lck (r_id r)) rows)")
  case (Some r)
  from first_by_Some(1) [OF this] have r: "r \<in> set rows" "r_state r = JobStatePending"
    by (auto simp: claimable_def)
  note D = store_invD [OF inv]
  have "store_inv (snd (sql_update (\<lambda>x. r_id x = r_id r) (claim_set now (now + lease) token) rows), insert token iss)"
  proof (rule upd_claim.update_inv [OF inv])
    show "row_inv (insert token iss) (claim_set now (now + lease) token x)"
      if "x \<in> set rows" "r_id x = r_id r" for x
      using that D(2) [OF that(1) r(1)] row_inv_claim r t(2) D(5) by blast
    show "(\<forall>x\<in>set rows. r_id x = r_id r \<longrightarrow> r_lease_token (claim_set now (now + lease) token x) = None \<or>
        r_lease_token (claim_set now (now + lease) token x) = r_lease_token x) \<or>
      (\<exists>u. u \<notin> iss \<and> (\<forall>x\<in>set rows. r_id x = r_id r \<longrightarrow> r_lease_token (claim_set now (now + lease) token x) = Some u) \<and>
        (\<forall>a\<in>set rows. \<forall>b\<in>set rows. r_id a = r_id r \<and> r_id b = r_id r \<longrightarrow> a = b))"
      using t(1) D(2) by (intro disjI2 exI [of _ token]) (auto simp: claim_set_def)
  qed auto
  with Some insert_token_inv [OF inv] show ?thesis by (simp add: claim_stmt_def)
qed (use insert_token_inv [OF inv] in \<open>simp add: claim_stmt_def del: first_by_None\<close>)

lemma start_inv:
  assumes inv: "store_inv (rows, iss)" and t: "token \<notin> iss" "token \<noteq> ''''" and j: "starts_with token job"
  shows "store_inv (snd (update_job_stmt now job rows), insert token iss)"
proof -
  note D = store_invD [OF inv]
  have "store_inv (snd (sql_update (update_where job) (update_set now job) rows), insert token iss)"
  proof (rule upd_job.update_inv [OF inv])
    show "row_inv (insert token iss) (update_set now job r)" if "r \<in> set rows" "update_where job r" for r
      using row_inv_start [OF update_where_start [OF D(5) that(2) j t] t(2) j] that D(5) by blast
    show "(\<forall>r\<in>set rows. update_where job r \<longrightarrow> r_lease_token (update_set now job r) = None \<or>
        r_lease_token (update_set now job r) = r_lease_token r) \<or>
      (\<exists>u. u \<notin> iss \<and> (\<forall>r\<in>set rows. update_where job r \<longrightarrow> r_lease_token (update_set now job r) = Some u) \<and>
        (\<forall>a\<in>set rows. \<forall>b\<in>set rows. update_where job a \<and> update_where job b \<longrightarrow> a = b))"
      using t j D(2) by (intro disjI2 exI [of _ token])
        (auto simp: update_set_def starts_with_def nullableString_def update_where_def)
  qed auto
  with insert_token_inv [OF inv] show ?thesis by (simp add: update_job_stmt_def update_or_state)
qed

lemma store_step_inv: "store_step s s' \<Longrightarrow> store_inv s \<Longrightarrow> store_inv s'"
proof (induction rule: store_step.induct)
  case (insert r rows iss) then show ?case by (simp add: insert_job_inv)
next
  case (start token iss job rows now) then show ?case by (simp add: start_inv)
next
  case (cancel rows iss tenant jid t)
  then show ?case by (intro upd_cancel.update_inv [of rows iss])
      (auto intro: row_inv_cancel store_invD(5) simp: row_simps)
next
  case (claim token iss rows t lck now lease flt) then show ?case by (simp add: claim_stmt_inv)
next
  case (renew rows iss jid token t x)
  then show ?case by (intro upd_renew.update_inv [of rows iss])
      (auto intro: row_inv_renew store_invD(5) holds_lease_state simp: row_simps)
next
  case (release rows iss jid token t reason x)
  then show ?case by (intro upd_release.update_inv [of rows iss])
      (auto intro: row_inv_release store_invD(5) holds_lease_state simp: row_simps)
next
  case (complete rows iss t jid token meta)
  then show ?case unfolding complete_stmt_state by (intro upd_complete.update_inv [of rows iss])
      (auto intro: row_inv_complete store_invD(5) simp: row_simps)
next
  case (fail nextRun jid token rows iss t msg)
  have "nextRun = None \<or> r_attempt r < r_task_max_retries r" if "r \<in> set rows" "holds_lease jid token r" for r
    using fail(1) that by (auto simp: within_budget_def)
  with fail(2) show ?case by (intro upd_fail.update_inv [of rows iss])
      (auto intro: row_inv_fail [OF holds_lease_state] store_invD(5) simp: row_simps)
next
  case (reap rows iss t lck n)
  have "r_state r = JobStateRunning" if "r \<in> set rows" "r_id r \<in> r_id ` set (expired_batch t lck n rows)" for r
    using in_expired_batch [OF expired_batch_matched [OF store_invD(1) [OF reap] that]]
    by (simp add: expired_at_def)
  with reap have "store_inv (snd (sql_update (\<lambda>r. r_id r \<in> r_id ` set (expired_batch t lck n rows)) (reap_set t) rows), iss)"
    by (intro upd_reap.update_inv [of rows iss])
      (auto intro: row_inv_reap store_invD(5) simp: row_simps)
  then show ?case by (simp add: reap_stmt_state)
next
  case (requeue rows iss tenant jid t)
  then show ?case by (intro upd_requeue.update_inv [of rows iss])
      (auto intro: row_inv_requeue store_invD(5) simp: row_simps)
next
  case (delete state rows iss before n)
  then show ?case by (simp add: delete_stmt_def filter_inv)
qed

lemma reachable_store_inv: "reachable s \<Longrightarrow> store_inv s"
  by (induction rule: reachable.induct) (simp add: store_inv_def, rule store_step_inv)

section \<open>What one step does to one job\<close>

text \<open>
  Every step either leaves the row of a job alone, rewrites it with one \<^verbatim>\<open>SET\<close> clause whose guard
  holds, deletes it or inserts it. The relation \<open>row_step\<close> lists the rewrites.
\<close>

inductive row_step :: "string set \<Rightarrow> job_row \<Rightarrow> job_row \<Rightarrow> bool" for iss where
  start: "r_state r = JobStatePending \<Longrightarrow> token \<notin> iss \<Longrightarrow> token \<noteq> '''' \<Longrightarrow> starts_with token job \<Longrightarrow>
    row_step iss r (update_set now job r)"
| cancel: "r_state r = JobStatePending \<or> r_state r = JobStateRunning \<Longrightarrow> row_step iss r (cancel_set t r)"
| claim: "r_state r = JobStatePending \<Longrightarrow> token \<notin> iss \<Longrightarrow> token \<noteq> '''' \<Longrightarrow>
    row_step iss r (claim_set now x token r)"
| renew: "r_state r = JobStateRunning \<Longrightarrow> row_step iss r (renew_set t x r)"
| release: "r_state r = JobStateRunning \<Longrightarrow> row_step iss r (release_set t reason x r)"
| complete: "r_state r = JobStateRunning \<Longrightarrow> row_step iss r (complete_set t meta r)"
| fail: "r_state r = JobStateRunning \<Longrightarrow> nextRun = None \<or> r_attempt r < r_task_max_retries r \<Longrightarrow>
    row_step iss r (fail_set t msg nextRun r)"
| reap: "r_state r = JobStateRunning \<Longrightarrow> row_step iss r (reap_set t r)"
| requeue: "r_state r = JobStateDead \<Longrightarrow> row_step iss r (requeue_set t r)"

lemma row_step_same_job: "row_step iss r r' \<Longrightarrow> same_job r' r"
  by (induction rule: row_step.induct)
    (simp_all add: upd_job.keeps upd_cancel.keeps upd_claim.keeps upd_renew.keeps upd_release.keeps
      upd_complete.keeps upd_fail.keeps upd_reap.keeps upd_requeue.keeps)

lemma row_step_token:
  "row_step iss r r' \<Longrightarrow> r_lease_token r' = Some t \<Longrightarrow> t \<notin> iss \<or> (\<exists>u x. r_state r = JobStateRunning \<and> r' = renew_set u x r)"
  by (induction rule: row_step.induct)
    (auto simp: row_simps claim_set_def update_set_def starts_with_def nullableString_def)

definition job_row_of :: "string \<Rightarrow> jobs \<Rightarrow> job_row option" where
  "job_row_of jid rows = find (\<lambda>r. r_id r = jid) rows"

lemma job_row_of_in: "distinct (map r_id rows) \<Longrightarrow> r \<in> set rows \<Longrightarrow> job_row_of (r_id r) rows = Some r"
  unfolding job_row_of_def by (rule find_eq_Some)

lemma job_row_of_Some: "job_row_of jid rows = Some r \<Longrightarrow> r \<in> set rows \<and> r_id r = jid"
  unfolding job_row_of_def by (rule find_SomeD)

lemma job_row_of_filter:
  "distinct (map r_id rows) \<Longrightarrow> job_row_of jid (filter p rows) =
     (case job_row_of jid rows of Some r \<Rightarrow> if p r then Some r else None | None \<Rightarrow> None)"
proof (induction rows)
  case (Cons a rows)
  show ?case
  proof (cases "r_id a = jid")
    case True
    with Cons.prems have "\<forall>x\<in>set rows. r_id x \<noteq> jid" by (simp add: rev_image_eqI) (metis imageI)
    then have "find (\<lambda>r. r_id r = jid) (filter p rows) = None" by (simp add: find_None_ball)
    with True show ?thesis by (simp add: job_row_of_def)
  qed (use Cons in \<open>simp add: job_row_of_def\<close>)
qed (simp add: job_row_of_def)

definition job_change :: "string set \<Rightarrow> job_row option \<Rightarrow> job_row option \<Rightarrow> bool" where
  "job_change iss a b \<longleftrightarrow> (case (a, b) of
     (None, None) \<Rightarrow> True
   | (None, Some r) \<Rightarrow> fresh_row r \<and> int4 (r_task_max_retries r)
   | (Some r, None) \<Rightarrow> r_state r = JobStateCompleted \<or> r_state r = JobStateDead
   | (Some r, Some r') \<Rightarrow> r' = r \<or> row_step iss r r')"

lemma job_change_refl [simp]: "job_change iss a a"
  by (simp add: job_change_def split: option.splits)

context row_update
begin

lemma update_change:
  assumes "\<And>r. r \<in> set rows \<Longrightarrow> p r \<Longrightarrow> row_step iss r (upd r)"
  shows "job_change iss (job_row_of jid rows) (job_row_of jid (snd (sql_update p upd rows)))"
proof (cases "job_row_of jid rows")
  case None
  then show ?thesis by (simp add: job_row_of_def find_pk_update job_change_def)
next
  case (Some r)
  with job_row_of_Some [OF Some] assms [of r] show ?thesis
    by (simp add: job_row_of_def find_pk_update job_change_def)
qed

end

lemma insert_job_change:
  assumes "fresh_row r" "distinct (map r_id rows)"
  shows "job_change iss (job_row_of jid rows) (job_row_of jid (snd (insert_job r rows)))"
proof (cases "snd (insert_job r rows) = rows")
  case False
  then have s: "snd (insert_job r rows) = rows @ [r]" and i: "int4 (r_task_max_retries r)"
    and pk: "\<forall>x\<in>set rows. r_id x \<noteq> r_id r"
    by (auto simp: insert_job_def list_ex_iff split: if_splits)
  have "job_row_of jid (rows @ [r]) =
      (case job_row_of jid rows of Some x \<Rightarrow> Some x | None \<Rightarrow> if r_id r = jid then Some r else None)"
    unfolding job_row_of_def by (induction rows) auto
  with s i assms(1) show ?thesis by (simp add: job_change_def split: option.splits)
qed simp

lemma delete_change:
  assumes "distinct (map r_id rows)" "state = JobStateCompleted \<or> state = JobStateDead"
  shows "job_change iss (job_row_of jid rows) (job_row_of jid (snd (delete_stmt state before n rows)))"
proof -
  let ?b = "order_limit (\<lambda>r. with_nulls_last (r_completed_at r)) n (filter (prunable state before) rows)"
  have "r_state r = state" if "r \<in> set rows" "r_id r \<in> r_id ` set ?b" for r
  proof -
    from that(2) obtain x where x: "x \<in> set ?b" "r_id r = r_id x" by auto
    from in_order_limitD [OF x(1)] have "x \<in> set rows" "r_state x = state" by (auto simp: prunable_def)
    with distinct_map_inj [OF assms(1) that(1) _ x(2)] show ?thesis by simp
  qed
  then show ?thesis
    using assms job_row_of_Some [of jid rows]
    by (simp add: delete_stmt_def Let_def job_row_of_filter job_change_def split: option.splits)
qed

lemma claim_change:
  assumes inv: "store_inv (rows, iss)" and t: "token \<notin> iss" "token \<noteq> ''''"
  shows "job_change iss (job_row_of jid rows) (job_row_of jid (snd (claim_stmt tm lck now lease token flt rows)))"
proof (cases "first_by claim_key (filter (\<lambda>r. claimable tm flt r \<and> \<not> lck (r_id r)) rows)")
  case (Some r)
  from first_by_Some(1) [OF this] have r: "r \<in> set rows" "r_state r = JobStatePending"
    by (auto simp: claimable_def)
  have "job_change iss (job_row_of jid rows)
      (job_row_of jid (snd (sql_update (\<lambda>x. r_id x = r_id r) (claim_set now (now + lease) token) rows)))"
  proof (rule upd_claim.update_change)
    fix x assume "x \<in> set rows" "r_id x = r_id r"
    with store_invD(2) [OF inv _ r(1)] r(2) t show "row_step iss x (claim_set now (now + lease) token x)"
      by (auto intro: row_step.claim)
  qed
  with Some show ?thesis by (simp add: claim_stmt_def)
qed (simp add: claim_stmt_def del: first_by_None)

lemma store_step_change:
  "store_step s s' \<Longrightarrow> store_inv s \<Longrightarrow> job_change (snd s) (job_row_of jid (fst s)) (job_row_of jid (fst s'))"
proof (induction rule: store_step.induct)
  case (insert r rows iss) then show ?case by (simp add: insert_job_change store_invD(1))
next
  case (start token iss job rows now)
  have "job_change iss (job_row_of jid rows)
      (job_row_of jid (snd (sql_update (update_where job) (update_set now job) rows)))"
    by (rule upd_job.update_change, rule row_step.start [OF update_where_start [OF store_invD(5)] start(1-3)])
      (use start in auto)
  then show ?case by (simp add: update_job_stmt_def update_or_state)
next
  case (cancel rows iss tenant jid' t)
  have "r_state r \<noteq> JobStateFailed" if "r \<in> set rows" for r
    using store_invD(5) [OF cancel that] by (auto simp: row_inv_def)
  then show ?case by (auto intro!: upd_cancel.update_change row_step.cancel simp: cancel_where_def)
next
  case (claim token iss rows t lck now lease flt) then show ?case by (simp add: claim_change)
next
  case (renew rows iss jid' token t x)
  then show ?case by (auto intro!: upd_renew.update_change row_step.renew holds_lease_state)
next
  case (release rows iss jid' token t reason x)
  then show ?case by (auto intro!: upd_release.update_change row_step.release holds_lease_state)
next
  case (complete rows iss t jid' token meta)
  then show ?case unfolding complete_stmt_state
    by (auto intro!: upd_complete.update_change row_step.complete holds_lease_state)
next
  case (fail nextRun jid' token rows iss t msg)
  then show ?case
    by (auto intro!: upd_fail.update_change row_step.fail holds_lease_state simp: within_budget_def)
next
  case (reap rows iss t lck n)
  have "r_state r = JobStateRunning" if "r \<in> set rows" "r_id r \<in> r_id ` set (expired_batch t lck n rows)" for r
    using in_expired_batch [OF expired_batch_matched [OF store_invD(1) [OF reap] that]]
    by (simp add: expired_at_def)
  then show ?case unfolding reap_stmt_state
    by (auto intro!: upd_reap.update_change row_step.reap)
next
  case (requeue rows iss tenant jid' t)
  then show ?case by (auto intro!: upd_requeue.update_change row_step.requeue simp: requeue_where_def)
next
  case (delete state rows iss before n)
  then show ?case by (simp add: delete_change store_invD(1))
qed

lemma store_step_issued: "store_step s s' \<Longrightarrow> snd s \<subseteq> snd s'"
  by (induction rule: store_step.induct) auto

section \<open>Leases over time\<close>

abbreviation store_run :: "table \<Rightarrow> table \<Rightarrow> bool" where
  "store_run \<equiv> store_step\<^sup>*\<^sup>*"

lemma store_run_inv: "store_run s s' \<Longrightarrow> store_inv s \<Longrightarrow> store_inv s'"
  by (induction rule: rtranclp_induct) (auto intro: store_step_inv)

lemma store_run_issued: "store_run s s' \<Longrightarrow> snd s \<subseteq> snd s'"
  by (induction rule: rtranclp_induct) (auto dest: store_step_issued)

lemma reachable_run: "store_run s s' \<Longrightarrow> reachable s \<Longrightarrow> reachable s'"
  by (induction rule: rtranclp_induct) (auto intro: reachable.step)

lemma renew_keeps:
  "r_id (renew_set u x r) = r_id r" "r_attempt (renew_set u x r) = r_attempt r"
  "r_state (renew_set u x r) = r_state r" "r_task_max_retries (renew_set u x r) = r_task_max_retries r"
  by (simp_all add: renew_set_def)

lemma job_change_token:
  assumes "job_change iss a (Some r')" "t \<in> iss" "r_lease_token r' = Some t"
  shows "\<exists>r. a = Some r \<and> same_job r' r \<and> r_lease_token r = Some t \<and> r_attempt r = r_attempt r' \<and>
    r_state r = r_state r'"
proof (cases a)
  case None
  with assms show ?thesis by (simp add: job_change_def fresh_row_def)
next
  case (Some r)
  with assms(1) have "r' = r \<or> row_step iss r r'" by (simp add: job_change_def)
  then show ?thesis
  proof
    assume s: "row_step iss r r'"
    from row_step_token [OF s assms(3)] assms(2) obtain u x where "r' = renew_set u x r" by auto
    with assms(3) Some row_step_same_job [OF s] show ?thesis by (simp add: row_simps renew_keeps)
  qed (use Some assms(3) in simp)
qed

lemma lease_held_before_step:
  assumes "store_step (rows, iss) (rows', iss')" "store_inv (rows, iss)" "t \<in> iss"
    and r': "r' \<in> set rows'" "r_lease_token r' = Some t"
  shows "\<exists>r\<in>set rows. same_job r' r \<and> r_lease_token r = Some t \<and> r_attempt r = r_attempt r' \<and>
    r_state r = r_state r'"
proof -
  have "distinct (map r_id rows')" using store_step_inv [OF assms(1,2)] by (rule store_invD(1))
  with r'(1) have "job_row_of (r_id r') rows' = Some r'" by (rule job_row_of_in [rotated])
  with store_step_change [OF assms(1,2), of "r_id r'"]
  have "job_change iss (job_row_of (r_id r') rows) (Some r')" by simp
  from job_change_token [OF this assms(3) r'(2)] job_row_of_Some show ?thesis by blast
qed

text \<open>Whoever holds a token issued earlier has held it, on the same attempt, ever since.\<close>

lemma lease_held_before:
  assumes "store_run (rows, iss) (rows', iss')" "store_inv (rows, iss)" "t \<in> iss"
    and "r' \<in> set rows'" "r_lease_token r' = Some t"
  shows "\<exists>r\<in>set rows. same_job r' r \<and> r_lease_token r = Some t \<and> r_attempt r = r_attempt r' \<and>
    r_state r = r_state r'"
  using assms(1,4,5)
proof (induction "(rows', iss')" arbitrary: rows' iss' r' rule: rtranclp_induct)
  case base
  then show ?case by (intro bexI [of _ r']) auto
next
  case (step s)
  obtain mid miss where s: "s = (mid, miss)" by fastforce
  have inv: "store_inv (mid, miss)" using store_run_inv [OF step(1) assms(2)] s by simp
  have t: "t \<in> miss" using store_run_issued [OF step(1)] assms(3) s by auto
  from lease_held_before_step [OF step(2) [unfolded s] inv t step(4,5)]
  obtain m where m: "m \<in> set mid" "same_job r' m" "r_lease_token m = Some t"
    "r_attempt m = r_attempt r'" "r_state m = r_state r'" by auto
  from step(3) [OF s m(1,3)] m same_job_trans [OF m(2)] show ?case by auto
qed

lemma stale_stays_stale:
  assumes "store_run (rows, iss) (rows', iss')" "store_inv (rows, iss)" "t \<in> iss"
    and "\<forall>r\<in>set rows. r_lease_token r \<noteq> Some t"
  shows "\<forall>r\<in>set rows'. r_lease_token r \<noteq> Some t"
  using lease_held_before [OF assms(1-3)] assms(4) by blast

lemma no_lease: "(\<forall>r\<in>set rows. r_lease_token r \<noteq> Some t) \<Longrightarrow> r \<in> set rows \<Longrightarrow> \<not> holds_lease jid t r"
  by (simp add: holds_lease_def)

section \<open>The abstract life cycle of a job\<close>

text \<open>
  What the store promises of one job, without its columns: it is absent, waiting with a number of
  attempts spent, leased to the holder of a token on its n-th attempt, done, or buried in the
  dead-letter state. \<open>life_step\<close> is the specification the steps of the table refine; \<open>m\<close> is the
  job's retry budget.
\<close>

datatype phase = Absent | Waiting int | Leased string int | Finished | Buried

inductive life_step :: "string set \<Rightarrow> int \<Rightarrow> phase \<Rightarrow> phase \<Rightarrow> bool" for iss m where
  submit: "life_step iss m Absent (Waiting 0)"
| lease: "token \<notin> iss \<Longrightarrow> n < m \<Longrightarrow> life_step iss m (Waiting n) (Leased token (n + 1))"
| restart: "token \<notin> iss \<Longrightarrow> n < m \<Longrightarrow> life_step iss m (Waiting n) (Leased token 1)"
| hand_back: "life_step iss m (Leased token n) (Waiting (n - 1))"
| retry: "n < m \<Longrightarrow> life_step iss m (Leased token n) (Waiting n)"
| finish: "life_step iss m (Leased token n) Finished"
| bury_leased: "life_step iss m (Leased token n) Buried"
| bury_waiting: "life_step iss m (Waiting n) Buried"
| revive: "life_step iss m Buried (Waiting 0)"
| prune_finished: "life_step iss m Finished Absent"
| prune_buried: "life_step iss m Buried Absent"

definition phase_of_row :: "job_row \<Rightarrow> phase" where
  "phase_of_row r = (case r_state r of
     JobStatePending \<Rightarrow> Waiting (r_attempt r)
   | JobStateRunning \<Rightarrow> Leased (flatten_string (r_lease_token r)) (r_attempt r)
   | JobStateCompleted \<Rightarrow> Finished
   | JobStateDead \<Rightarrow> Buried
   | _ \<Rightarrow> Absent)"

definition phase_of :: "string \<Rightarrow> jobs \<Rightarrow> phase" where
  "phase_of jid rows = (case job_row_of jid rows of None \<Rightarrow> Absent | Some r \<Rightarrow> phase_of_row r)"

definition budget_of :: "string \<Rightarrow> jobs \<Rightarrow> int" where
  "budget_of jid rows = (case job_row_of jid rows of None \<Rightarrow> 0 | Some r \<Rightarrow> r_task_max_retries r)"

lemma row_step_phase:
  assumes "row_step iss r r'" "row_inv iss r"
  shows "phase_of_row r' = phase_of_row r \<or>
    life_step iss (r_task_max_retries r) (phase_of_row r) (phase_of_row r')"
  using assms
proof (induction rule: row_step.induct)
  case (start r token job now)
  then show ?case
    by (auto simp: phase_of_row_def update_set_def starts_with_def nullableString_def flatten_string_def
        row_inv_def intro: life_step.restart)
next
  case (cancel r t)
  then show ?case
    by (auto simp: phase_of_row_def cancel_set_def intro: life_step.bury_waiting life_step.bury_leased)
next
  case (claim r token now x)
  then show ?case
    by (auto simp: phase_of_row_def claim_set_def flatten_string_def row_inv_def intro: life_step.lease)
next
  case (renew r t x)
  then show ?case by (simp add: phase_of_row_def renew_set_def)
next
  case (release r t reason x)
  then have "max (r_attempt r - 1) 0 = r_attempt r - 1" by (simp add: row_inv_def)
  with release show ?case by (simp add: phase_of_row_def release_set_def life_step.hand_back)
next
  case (complete r t meta)
  then show ?case by (simp add: phase_of_row_def complete_set_def life_step.finish)
next
  case (fail r nextRun t msg)
  then show ?case
    by (auto simp: phase_of_row_def fail_set_def intro: life_step.retry life_step.bury_leased)
next
  case (reap r t)
  then show ?case
    by (auto simp: phase_of_row_def reap_set_def exhausted_def intro: life_step.retry life_step.bury_leased)
next
  case (requeue r t)
  then show ?case by (simp add: phase_of_row_def requeue_set_def life_step.revive)
qed

lemma store_step_phase:
  assumes "store_step (rows, iss) (rows', iss')" "store_inv (rows, iss)"
  shows "phase_of jid rows' = phase_of jid rows \<or>
    life_step iss (budget_of jid rows) (phase_of jid rows) (phase_of jid rows')"
proof -
  have c: "job_change iss (job_row_of jid rows) (job_row_of jid rows')"
    using store_step_change [OF assms] by simp
  show ?thesis
  proof (cases "job_row_of jid rows")
    case None
    with c show ?thesis
      by (auto simp: phase_of_def phase_of_row_def job_change_def fresh_row_def
          intro: life_step.submit split: option.splits)
  next
    case (Some r)
    have inv: "row_inv iss r" using store_invD(5) [OF assms(2)] job_row_of_Some [OF Some] by simp
    show ?thesis
    proof (cases "job_row_of jid rows'")
      case None
      with c Some show ?thesis
        by (auto simp: phase_of_def phase_of_row_def job_change_def
            intro: life_step.prune_finished life_step.prune_buried)
    next
      case (Some r')
      with c \<open>job_row_of jid rows = Some r\<close> have "r' = r \<or> row_step iss r r'" by (simp add: job_change_def)
      then show ?thesis
        using row_step_phase [OF _ inv] Some \<open>job_row_of jid rows = Some r\<close>
        by (auto simp: phase_of_def budget_of_def)
    qed
  qed
qed

section \<open>Accounting for leases\<close>

text \<open>
  How often a job is leased and handed back unrun, read off the phases of an execution. An execution
  in which the job is restarted from a Kafka message, revived or submitted again is not counted:
  those are the ways a budget starts over.
\<close>

fun lease_delta :: "phase \<Rightarrow> phase \<Rightarrow> (nat \<times> nat) option" where
  "lease_delta (Waiting n) (Leased t k) = (if k = n + 1 then Some (1, 0) else None)"
| "lease_delta (Leased t n) (Waiting k) = (if k = n then Some (0, 0) else if k = n - 1 then Some (0, 1) else None)"
| "lease_delta Buried (Waiting k) = None"
| "lease_delta Absent (Waiting k) = None"
| "lease_delta p q = Some (0, 0)"

inductive counted_run :: "string \<Rightarrow> table \<Rightarrow> nat \<Rightarrow> nat \<Rightarrow> table \<Rightarrow> bool" for jid s where
  start: "counted_run jid s 0 0 s"
| step: "counted_run jid s l h (rows, iss) \<Longrightarrow> store_step (rows, iss) (rows', iss') \<Longrightarrow>
    lease_delta (phase_of jid rows) (phase_of jid rows') = Some (dl, dh) \<Longrightarrow>
    counted_run jid s (l + dl) (h + dh) (rows', iss')"

fun accounted :: "int \<Rightarrow> nat \<Rightarrow> nat \<Rightarrow> phase \<Rightarrow> bool" where
  "accounted m l h (Waiting n) = (int l = n + int h \<and> n \<le> m)"
| "accounted m l h (Leased t n) = (int l = n + int h \<and> n \<le> m)"
| "accounted m l h _ = (int l \<le> m + int h)"

lemma accounted_bound: "accounted m l h p \<Longrightarrow> int l \<le> m + int h"
  by (cases p) auto

lemma accounted_step:
  assumes "accounted m l h p" "q = p \<or> life_step iss m p q" "lease_delta p q = Some (dl, dh)"
  shows "accounted m (l + dl) (h + dh) q"
proof (cases "q = p")
  case True
  with assms(1,3) show ?thesis by (cases p) auto
next
  case False
  with assms(2) have "life_step iss m p q" by simp
  then show ?thesis using assms(1,3)
    by (induction rule: life_step.induct) (auto split: if_splits)
qed

lemma counted_run_accounted:
  assumes "counted_run jid (rows, iss) l h s'" "store_inv (rows, iss)" "phase_of jid rows = Waiting 0"
  shows "store_inv s' \<and> accounted (budget_of jid rows) l h (phase_of jid (fst s')) \<and>
    (phase_of jid (fst s') = Absent \<or> budget_of jid (fst s') = budget_of jid rows)"
  using assms(1)
proof (induction rule: counted_run.induct)
  case start
  obtain r where "job_row_of jid rows = Some r" using assms(3) by (auto simp: phase_of_def split: option.splits)
  then have "0 \<le> budget_of jid rows"
    using store_invD(5) [OF assms(2)] job_row_of_Some by (fastforce simp: budget_of_def row_inv_def)
  with assms show ?case by simp
next
  case (step l h mid miss rows' iss' dl dh)
  let ?m = "budget_of jid rows"
  from step.IH have inv: "store_inv (mid, miss)" and acc: "accounted ?m l h (phase_of jid mid)" by simp_all
  note ph = store_step_phase [OF step(2) inv, of jid]
  have inv': "store_inv (rows', iss')" by (rule store_step_inv [OF step(2) inv])
  show ?case
  proof (cases "phase_of jid mid = Absent")
    case True
    from ph step(3) True have q: "phase_of jid rows' = Absent" by (auto elim: life_step.cases)
    with acc step(3) True inv' show ?thesis by auto
  next
    case False
    with step.IH have b: "budget_of jid mid = ?m" by simp
    with accounted_step [OF acc _ step(3)] ph have a: "accounted ?m (l + dl) (h + dh) (phase_of jid rows')" by metis
    have "budget_of jid rows' = ?m" if "phase_of jid rows' \<noteq> Absent"
    proof -
      from False obtain r where r: "job_row_of jid mid = Some r" by (auto simp: phase_of_def split: option.splits)
      from that obtain r' where r': "job_row_of jid rows' = Some r'" by (auto simp: phase_of_def split: option.splits)
      from store_step_change [OF step(2) inv, of jid] r r' have "r' = r \<or> row_step miss r r'"
        by (simp add: job_change_def)
      then have "r_task_max_retries r' = r_task_max_retries r"
        using row_step_same_job by (auto simp: same_job_def)
      with b r r' show ?thesis by (simp add: budget_of_def)
    qed
    with a inv' show ?thesis by auto
  qed
qed

section \<open>Properties of the shared table\<close>

subsection \<open>A short execution, for the examples\<close>

abbreviation waiting_row :: job_row where "waiting_row \<equiv> example_row ''a'' 0"
abbreviation leased_row :: job_row where "leased_row \<equiv> claim_set 1 2000 ''t'' waiting_row"
abbreviation cancelled_row :: job_row where "cancelled_row \<equiv> cancel_set 5 leased_row"

lemma example_insert: "store_step ([], {}) ([waiting_row], {})"
  using store_step.insert [of waiting_row "[]" "{}"]
  by (simp add: fresh_row_def insert_job_def us_aligned_def int4_def)

lemma example_claim: "store_step ([waiting_row], {}) ([leased_row], {''t''})"
proof -
  have "claimable 10 \<lparr>cf_tenant = '''', cf_queues = [], cf_names = []\<rparr> waiting_row"
    by (simp add: claimable_def of_tenant_def)
  then have "snd (claim_stmt 10 (\<lambda>_. False) 1 1999 ''t'' \<lparr>cf_tenant = '''', cf_queues = [], cf_names = []\<rparr> [waiting_row])
      = [leased_row]"
    by (simp add: claim_stmt_def first_by_def order_limit_def int4_def sql_update_def)
  with store_step.claim [of "''t''" "{}" "[waiting_row]" 10 "\<lambda>_. False" 1 1999
      "\<lparr>cf_tenant = '''', cf_queues = [], cf_names = []\<rparr>"] show ?thesis by simp
qed

lemma example_cancel: "store_step ([leased_row], {''t''}) ([cancelled_row], {''t''})"
proof -
  have "cancel_where '''' ''a'' leased_row" by (simp add: cancel_where_def of_tenant_def claim_set_def)
  with store_step.cancel [of "[leased_row]" "{''t''}" "''''" "''a''" 5] show ?thesis
    by (simp add: sql_update_def)
qed

lemmas example_reachable =
  reachable.step [OF reachable.empty example_insert]
  reachable.step [OF reachable.step [OF reachable.empty example_insert] example_claim]
  reachable.step [OF reachable.step [OF reachable.step [OF reachable.empty example_insert] example_claim] example_cancel]

lemma lost_token: "\<forall>r\<in>set [cancelled_row]. r_lease_token r \<noteq> Some ''t''"
  by (simp add: row_simps)

lemma issued_nonempty: "store_step s s' \<Longrightarrow> '''' \<notin> snd s \<Longrightarrow> '''' \<notin> snd s'"
  by (induction rule: store_step.induct) auto

lemma reachable_nonempty: "reachable s \<Longrightarrow> '''' \<notin> snd s"
  by (induction rule: reachable.induct) (auto dest: issued_nonempty)

lemma update_or_refused:
  "\<forall>r\<in>set s. \<not> p r \<Longrightarrow> update_or e p f s = (Inl (Sentinel e), s)"
  by (simp add: update_or_Inl)

lemma exec_refused:
  "f (rely c s) = (Inl e, rely c s) \<Longrightarrow> \<exists>e'. exec c f s = (Inl e', rely c s)"
  by (cases "io c") (simp_all add: exec_def)

subsection \<open>Invariant and fencing\<close>

text \<open>
  C2. The table stays well formed under every interleaving of the store's statements: ids are
  unique, a tenant's idempotency key names one job, a lease token is held by at most one job, and
  every row is consistent with its state. A RUNNING job has a token that was issued, an expiry and
  an attempt between 1 and its budget; a PENDING one has no lease and attempts left; a finished one
  has a completion time and no lease; FAILED is never stored.
\<close>

theorem table_invariant:
  assumes "reachable (rows, iss)"
  shows "store_inv (rows, iss)"
  using reachable_store_inv [OF assms] .

theorem table_invariant_witness:
  "store_inv ([leased_row], {''t''}) \<and> phase_of ''a'' [leased_row] = Leased ''t'' 1"
  using table_invariant [OF example_reachable(2)]
  by (simp add: phase_of_def job_row_of_def phase_of_row_def claim_set_def flatten_string_def)

text \<open>
  C1. A lost lease stays lost. Once a token that was handed out is no longer in the table (the job was
  cancelled, reaped, released, finished or leased to someone else), then after any further steps of
  any processes, completing, failing, renewing or releasing the job with that token is refused with an
  error and leaves the table as the others made it. A worker that was slow cannot overwrite the outcome
  of the one that replaced it.
\<close>

theorem lost_lease_stays_lost:
  assumes "reachable (rows, iss)" "t \<in> iss" "\<forall>r\<in>set rows. r_lease_token r \<noteq> Some t"
    and "store_run (rows, iss) (rely c s, iss')"
  shows "(\<exists>e. CompleteClaimedJob c jid t meta s = (Inl e, rely c s)) \<and>
    (\<exists>e. FailClaimedJob c jid t msg nextRun s = (Inl e, rely c s)) \<and>
    (j_lease_token job = t \<longrightarrow> (\<exists>e. RenewLease c now job lease s = (Inl e, rely c s))) \<and>
    (j_lease_token job = t \<longrightarrow> (\<exists>e. ReleaseClaim c now job reason d s = (Inl e, rely c s)))"
proof -
  have ne: "t \<noteq> ''''" using reachable_nonempty [OF assms(1)] assms(2) by auto
  have "\<forall>r\<in>set (rely c s). r_lease_token r \<noteq> Some t"
    using stale_stays_stale [OF assms(4) reachable_store_inv [OF assms(1)] assms(2,3)] .
  then have none: "\<forall>r\<in>set (rely c s). \<not> holds_lease i t r" for i by (simp add: holds_lease_def)
  then have "find (holds_lease jid t) (rely c s) = None" by (simp add: find_None_ball)
  then show ?thesis using ne none
    by (simp add: CompleteClaimedJob_def FailClaimedJob_def RenewLease_def ReleaseClaim_def
        exec_refused complete_stmt_def update_or_refused)
qed

theorem lost_lease_stays_lost_witness:
  "\<exists>e. CompleteClaimedJob (quiet 9) ''a'' ''t'' None [cancelled_row] = (Inl e, [cancelled_row])"
proof -
  have i: "''t'' \<in> {''t''}" and run: "store_run ([cancelled_row], {''t''}) (rely (quiet 9) [cancelled_row], {''t''})"
    by simp_all
  from lost_lease_stays_lost [OF example_reachable(3) i lost_token run] show ?thesis by simp
qed

text \<open>
  Holding a lease freezes the attempt. If a job carries a token that had been issued at an earlier
  moment, then at that moment the same job carried it, was RUNNING, and had the same attempt number,
  budget, tenant and task: between the two no other process gave the job back, retried it or started it
  again.
\<close>

lemma lease_freezes_attempt:
  assumes "reachable (rows, iss)" "store_run (rows, iss) (rows', iss')" "t \<in> iss"
    and "r' \<in> set rows'" "r_lease_token r' = Some t"
  shows "\<exists>r\<in>set rows. same_job r' r \<and> r_lease_token r = Some t \<and> r_state r = JobStateRunning \<and>
    r_state r' = JobStateRunning \<and> r_attempt r = r_attempt r'"
proof -
  from lease_held_before [OF assms(2) reachable_store_inv [OF assms(1)] assms(3-5)]
  obtain r where r: "r \<in> set rows" "same_job r' r" "r_lease_token r = Some t" "r_attempt r = r_attempt r'"
    "r_state r = r_state r'" by auto
  moreover have "row_inv iss r" using store_invD(5) [OF reachable_store_inv [OF assms(1)] r(1)] .
  ultimately show ?thesis using row_inv_token by fastforce
qed

lemma lease_freezes_attempt_witness:
  "\<exists>r\<in>set [leased_row]. r_lease_token r = Some ''t'' \<and> r_attempt r = r_attempt (renew_set 3 9000 leased_row)"
proof -
  have h: "holds_lease ''a'' ''t'' leased_row" by (simp add: holds_lease_def claim_set_def)
  then have "store_run ([leased_row], {''t''}) ([renew_set 3 9000 leased_row], {''t''})"
    using store_step.renew [of "[leased_row]" "{''t''}" "''a''" "''t''" 3 9000] by (simp add: sql_update_def r_into_rtranclp)
  from lease_freezes_attempt [OF example_reachable(2) this, of "''t''" "renew_set 3 9000 leased_row"] show ?thesis
    by (simp add: row_simps) (simp add: claim_set_def)
qed

subsection \<open>Refinement of the life cycle\<close>

text \<open>
  C3. The store implements the job life cycle. Seen through \<open>phase_of\<close>, every statement of every
  process moves any given job along one edge of the abstract life cycle or not at all: a job is leased
  only from waiting and under a fresh token, goes back to waiting only with budget left (or handed
  back unrun), is finished only by being leased first, leaves the dead-letter state only by being
  revived or pruned, and a finished job is never run again.
\<close>

theorem store_refines_life_cycle:
  assumes "reachable (rows, iss)" "store_step (rows, iss) (rows', iss')"
  shows "phase_of jid rows' = phase_of jid rows \<or>
    life_step iss (budget_of jid rows) (phase_of jid rows) (phase_of jid rows')"
  using store_step_phase [OF assms(2) reachable_store_inv [OF assms(1)]] .

lemma example_phases:
  "phase_of ''a'' [waiting_row] = Waiting 0" "phase_of ''a'' [leased_row] = Leased ''t'' 1"
  "phase_of ''a'' [cancelled_row] = Buried" "budget_of ''a'' [waiting_row] = 3" "budget_of ''a'' [leased_row] = 3"
  by (simp_all add: phase_of_def budget_of_def job_row_of_def phase_of_row_def flatten_string_def claim_set_def cancel_set_def)

theorem store_refines_life_cycle_witness:
  "life_step {} 3 (Waiting 0) (Leased ''t'' 1) \<and> life_step {''t''} 3 (Leased ''t'' 1) Buried"
  using store_refines_life_cycle [OF example_reachable(1) example_claim, of "''a''"]
    store_refines_life_cycle [OF example_reachable(2) example_cancel, of "''a''"]
  by (simp add: example_phases)



text \<open>
  A completed job is final. No statement of any process changes any column of a COMPLETED row, in
  particular the result a worker merged into its metadata; it stays as it is until retention deletes it.
\<close>

lemma completed_row_is_final:
  assumes "reachable (rows, iss)" "store_step (rows, iss) (rows', iss')"
    and "r \<in> set rows" "r_state r = JobStateCompleted"
  shows "r \<in> set rows' \<or> (\<forall>x\<in>set rows'. r_id x \<noteq> r_id r)"
proof -
  note inv = reachable_store_inv [OF assms(1)]
  have f: "job_row_of (r_id r) rows = Some r" by (rule job_row_of_in [OF store_invD(1) [OF inv] assms(3)])
  show ?thesis
  proof (cases "job_row_of (r_id r) rows'")
    case None
    then show ?thesis by (simp add: job_row_of_def find_None_ball)
  next
    case (Some r')
    with store_step_change [OF assms(2) inv, of "r_id r"] f have "r' = r \<or> row_step iss r r'"
      by (simp add: job_change_def)
    moreover have "\<not> row_step iss r r'" using assms(4) by (auto elim: row_step.cases)
    ultimately show ?thesis using job_row_of_Some [OF Some] by simp
  qed
qed

abbreviation completed_row :: job_row where
  "completed_row \<equiv> complete_set 6 (Json_object [(''k'', ''v'')]) leased_row"

lemma example_complete: "store_step ([leased_row], {''t''}) ([completed_row], {''t''})"
proof -
  have "holds_lease ''a'' ''t'' leased_row" by (simp add: holds_lease_def claim_set_def)
  with store_step.complete [of "[leased_row]" "{''t''}" 6 "''a''" "''t''" "Json_object [(''k'', ''v'')]"] show ?thesis
    by (simp add: complete_stmt_state sql_update_def)
qed

lemma completed_row_is_final_witness:
  "\<exists>rows'. store_step ([completed_row], {''t''}) (rows', {''t''}) \<and> completed_row \<in> set rows'"
proof -
  let ?rows' = "snd (sql_update (cancel_where '''' ''a'') (cancel_set 5) [completed_row])"
  have s: "store_step ([completed_row], {''t''}) (?rows', {''t''})" by (rule store_step.cancel)
  have c: "r_state completed_row = JobStateCompleted" "r_id completed_row = ''a''"
    by (simp_all add: complete_set_def claim_set_def)
  have "r_id completed_row \<in> r_id ` set ?rows'" by (simp add: sql_update_def c cancel_where_def)
  with completed_row_is_final [OF reachable.step [OF example_reachable(2) example_complete] s, of completed_row] s c
  show ?thesis by auto
qed

subsection \<open>The methods are runs of steps\<close>

text \<open>
  The methods of \<^verbatim>\<open>PostgresStore\<close> against a table other processes change: what they leave behind is
  reachable again, so the properties above hold of a deployment that calls them in any order.
\<close>

definition reachable_table :: "jobs \<Rightarrow> bool" where
  "reachable_table rows \<longleftrightarrow> (\<exists>iss. reachable (rows, iss))"

lemma exec_reachable:
  assumes "reachable (rely c rows, iss)" "store_step (rely c rows, iss) (snd (f (rely c rows)), iss')"
  shows "reachable_table (snd (exec c f rows))"
  using exec_state [of c f rows] assms reachable.step [OF assms] by (auto simp: reachable_table_def)

lemma guarded_update_reachable:
  assumes "reachable (rely c1 rows, iss)" "store_step (rely c1 rows, iss) (snd (sql_update p f (rely c1 rows)), iss)"
    and "\<And>s. reachable_table s \<Longrightarrow> reachable_table (rely c2 s)"
  shows "reachable_table (snd (case exec c1 (\<lambda>s. let (n, s') = sql_update p f s in (Inr n, s')) rows of
        (Inl e, s) \<Rightarrow> (Inl e, s)
      | (Inr n, s) \<Rightarrow> if n = 0 then not_found_or_invalid (GetJob c2 tenant jid s) else (Inr (), s)))"
proof -
  let ?e = "exec c1 (\<lambda>s. let (n, s') = sql_update p f s in (Inr n, s')) rows"
  have "reachable_table (snd ?e)"
    using assms(1,2) by (intro exec_reachable) (auto simp: case_prod_beta Let_def)
  with assms(3) show ?thesis
    by (cases ?e) (auto simp: not_found_or_invalid_state GetJob_state split: sum.splits)
qed

lemma CreateJob_state: "snd (CreateJob c now job rows) = snd (exec c (insert_job (row_of_job now job)) rows)"
  by (auto simp: CreateJob_def split: prod.splits sum.splits)

lemmas fenced_steps =
  store_step.renew [folded update_or_state [of ErrInvalidTransition]]
  store_step.release [folded update_or_state [of ErrInvalidTransition]]
  store_step.fail [folded update_or_state [of ErrLeaseLost]]

lemma fail_keeps_reachable:
  assumes "reachable (rely c rows, iss)" "nextRun = None \<or> within_budget jid token (rely c rows)" "reachable_table rows"
  shows "reachable_table (snd (FailClaimedJob c jid token msg nextRun rows))"
proof (cases "token = ''''")
  case False
  have "reachable_table (snd (exec c (update_or ErrLeaseLost (holds_lease jid token) (fail_set (pgnow c) msg nextRun)) rows))"
    by (rule exec_reachable [OF assms(1)], rule fenced_steps(3) [OF assms(2)])
  with False show ?thesis by (simp add: FailClaimedJob_def)
qed (use assms(3) in \<open>simp add: FailClaimedJob_def\<close>)

lemma hex_encode_nonempty: "bytes \<noteq> [] \<Longrightarrow> hex_encode bytes \<noteq> ''''"
  using length_hex_encode [of bytes] by (metis length_0_conv mult_eq_0_iff zero_neq_numeral)



end
