(* ===== verification/Retry.thy ===== *)
theory Retry
  imports Complex_Main Conduit_Prelude
begin

text \<open>
  \<^verbatim>\<open>internal/retry/backoff.go\<close>: the exponential backoff between attempts.

  \<^verbatim>\<open>float64\<close> values are rationals, and every arithmetic operation is followed by \<open>fl64\<close>, rounding
  to 53 significant bits with ties to even. The exponent is unbounded: a product that would overflow
  is above \<^verbatim>\<open>MaxDelay\<close> and clamped at once, and a jitter so small that it would be subnormal vanishes
  in the sum either way. \<^verbatim>\<open>NaN\<close> and infinities as configuration values are outside the model.
  \<^verbatim>\<open>rand.Float64()\<close> is the argument \<open>u\<close>.

  The locale \<open>float_rounding\<close> is what the bounds need of the arithmetic: monotone, and exact on integers
  up to \<open>2 ^ 53\<close>. It is interpreted on \<open>fl64\<close>.
\<close>

section \<open>Rounding to float64\<close>

function flog2 :: "rat \<Rightarrow> int" where
  "flog2 x = (if x \<le> 0 then 0 else if x < 1 then flog2 (2 * x) - 1 else if x < 2 then 0 else flog2 (x / 2) + 1)"
  by pat_completeness auto

termination
proof (relation "measure (\<lambda>x. if x < 1 then nat \<lceil>1 / x\<rceil> else nat \<lfloor>x\<rfloor>)", goal_cases)
  case 1 show ?case by simp
next
  case (2 x)
  then have x: "0 < x" "x < 1" by simp_all
  show ?case
  proof (cases "2 * x < 1")
    case True
    with x have y: "2 \<le> 1 / x" by (simp add: field_simps)
    then have "1 / (2 * x) \<le> 1 / x - 1" using x by (simp add: field_simps)
    then have "\<lceil>1 / (2 * x)\<rceil> \<le> \<lceil>1 / x\<rceil> - 1" by (simp add: ceiling_le_iff) linarith
    moreover have "2 \<le> \<lceil>1 / x\<rceil>" using y by linarith
    ultimately show ?thesis using True x by simp
  next
    case False
    with x have "\<lfloor>2 * x\<rfloor> = 1" by (simp add: floor_eq_iff)
    moreover have "1 < 1 / x" using x by (simp add: field_simps)
    then have "2 \<le> \<lceil>1 / x\<rceil>" by linarith
    ultimately show ?thesis using False x by simp
  qed
next
  case (3 x)
  then have x: "2 \<le> x" by simp
  then have "\<lfloor>x / 2\<rfloor> < \<lfloor>x\<rfloor>" by linarith
  moreover have "0 \<le> \<lfloor>x / 2\<rfloor>" using x by simp
  ultimately show ?case using x by simp
qed

declare flog2.simps [simp del]

definition pow2 :: "int \<Rightarrow> rat" where
  "pow2 k = (if 0 \<le> k then 2 ^ nat k else 1 / 2 ^ nat (- k))"

definition round_half_even :: "rat \<Rightarrow> int" where
  "round_half_even x =
     (let n = \<lfloor>x\<rfloor>; d = x - of_int n in
      if d < 1 / 2 then n else if 1 / 2 < d then n + 1 else if even n then n else n + 1)"

definition fl64 :: "rat \<Rightarrow> rat" where
  "fl64 x = (if x = 0 then 0
     else let e = pow2 (flog2 \<bar>x\<bar> - 52) in
       (if x < 0 then - 1 else 1) * of_int (round_half_even (\<bar>x\<bar> / e)) * e)"

lemma pow2_powi: "pow2 k = power_int 2 k"
  by (simp add: pow2_def power_int_def field_simps)

lemma pow2_pos [simp]: "0 < pow2 k" by (simp add: pow2_powi)

lemma pow2_add: "pow2 (a + b) = pow2 a * pow2 b" by (simp add: pow2_powi power_int_add)

lemma pow2_0 [simp]: "pow2 0 = 1" and pow2_1: "pow2 1 = 2" by (simp_all add: pow2_powi)

lemma pow2_mono: "a \<le> b \<Longrightarrow> pow2 a \<le> pow2 b" by (simp add: pow2_powi power_int_increasing)

lemma pow2_Suc: "pow2 (k + 1) = 2 * pow2 k" by (simp add: pow2_add pow2_1)

lemma flog2_bounds: "0 < x \<Longrightarrow> pow2 (flog2 x) \<le> x \<and> x < 2 * pow2 (flog2 x)"
proof (induction x rule: flog2.induct)
  case (1 x)
  consider "x < 1" | "1 \<le> x" "x < 2" | "2 \<le> x" by linarith
  then show ?case
  proof cases
    case 1
    with "1.IH"(1) "1.prems" have "pow2 (flog2 (2 * x)) \<le> 2 * x \<and> 2 * x < 2 * pow2 (flog2 (2 * x))" by simp
    moreover have "flog2 (2 * x) = flog2 x + 1" using 1 "1.prems" by (simp add: flog2.simps [of x])
    ultimately show ?thesis by (simp add: pow2_Suc)
  next
    case 2
    then show ?thesis by (simp add: flog2.simps [of x])
  next
    case 3
    with "1.IH"(2) have "pow2 (flog2 (x / 2)) \<le> x / 2 \<and> x / 2 < 2 * pow2 (flog2 (x / 2))" by simp
    moreover have "flog2 x = flog2 (x / 2) + 1" using 3 by (simp add: flog2.simps [of x])
    ultimately show ?thesis by (simp add: pow2_Suc)
  qed
qed

lemma round_half_even_of_int [simp]: "round_half_even (of_int n) = n"
  by (simp add: round_half_even_def)

lemma round_half_even_mono: "x \<le> y \<Longrightarrow> round_half_even x \<le> round_half_even y"
proof -
  assume le: "x \<le> y"
  then have f: "\<lfloor>x\<rfloor> \<le> \<lfloor>y\<rfloor>" by (rule floor_mono)
  show ?thesis
  proof (cases "\<lfloor>x\<rfloor> = \<lfloor>y\<rfloor>")
    case True
    with le show ?thesis by (auto simp: round_half_even_def Let_def)
  next
    case False
    with f have "\<lfloor>x\<rfloor> + 1 \<le> \<lfloor>y\<rfloor>" by simp
    then show ?thesis by (auto simp: round_half_even_def Let_def)
  qed
qed

lemma flog2_mono: "0 < x \<Longrightarrow> x \<le> y \<Longrightarrow> flog2 x \<le> flog2 y"
proof (rule ccontr)
  assume a: "0 < x" "x \<le> y" "\<not> flog2 x \<le> flog2 y"
  then have "pow2 (flog2 y + 1) \<le> pow2 (flog2 x)" by (intro pow2_mono) simp
  with flog2_bounds [of x] flog2_bounds [of y] a show False by (simp add: pow2_Suc)
qed

lemma fl64_pos: "0 < x \<Longrightarrow> fl64 x = of_int (round_half_even (x / pow2 (flog2 x - 52))) * pow2 (flog2 x - 52)"
  by (simp add: fl64_def Let_def)

lemma fl64_exact: "0 < x \<Longrightarrow> x = of_int n * pow2 (flog2 x - 52) \<Longrightarrow> fl64 x = x"
proof -
  assume x: "0 < x" "x = of_int n * pow2 (flog2 x - 52)"
  let ?e = "pow2 (flog2 x - 52)"
  have "?e \<noteq> 0" using pow2_pos [of "flog2 x - 52"] by linarith
  with x(2) have "x / ?e = of_int n" by (metis nonzero_mult_div_cancel_right)
  with x show ?thesis by (simp add: fl64_pos)
qed

lemma fl64_binade:
  assumes "0 < x"
  shows "pow2 (flog2 x) \<le> fl64 x" "fl64 x \<le> 2 * pow2 (flog2 x)"
proof -
  let ?e = "pow2 (flog2 x - 52)"
  have k: "pow2 (flog2 x) = 2 ^ 52 * ?e"
    using pow2_add [of 52 "flog2 x - 52"] by (simp add: pow2_def)
  have "of_int (2 ^ 52) \<le> x / ?e" "x / ?e \<le> of_int (2 ^ 53)"
    using flog2_bounds [OF assms] unfolding k by (simp_all add: field_simps)
  then have "2 ^ 52 \<le> round_half_even (x / ?e)" "round_half_even (x / ?e) \<le> 2 ^ 53"
    using round_half_even_mono round_half_even_of_int by metis+
  then have "(2 ^ 52 :: rat) \<le> of_int (round_half_even (x / ?e))" "of_int (round_half_even (x / ?e)) \<le> (2 ^ 53 :: rat)"
    by (metis of_int_le_iff of_int_numeral of_int_power)+
  then show "pow2 (flog2 x) \<le> fl64 x" "fl64 x \<le> 2 * pow2 (flog2 x)"
    unfolding k fl64_pos [OF assms] by simp_all
qed

lemma fl64_mono: "0 \<le> x \<Longrightarrow> x \<le> y \<Longrightarrow> fl64 x \<le> fl64 y"
proof -
  assume xy: "0 \<le> x" "x \<le> y"
  show ?thesis
  proof (cases "x = 0")
    case True
    have "0 \<le> fl64 y" if "y \<noteq> 0"
      using that xy True fl64_binade(1) [of y] pow2_pos [of "flog2 y"] by linarith
    with True show ?thesis by (cases "y = 0") (auto simp: fl64_def [of 0])
  next
    case False
    with xy have p: "0 < x" "0 < y" by simp_all
    show ?thesis
    proof (cases "flog2 x = flog2 y")
      case True
      have "x / pow2 (flog2 y - 52) \<le> y / pow2 (flog2 y - 52)" using xy by (simp add: divide_right_mono less_imp_le)
      from round_half_even_mono [OF this] show ?thesis
        unfolding fl64_pos [OF p(1)] fl64_pos [OF p(2)] True by (simp add: mult_right_mono less_imp_le)
    next
      case False
      with flog2_mono [OF p(1) xy(2)] have "pow2 (flog2 x + 1) \<le> pow2 (flog2 y)" by (intro pow2_mono) simp
      with fl64_binade(2) [OF p(1)] fl64_binade(1) [OF p(2)] show ?thesis by (simp add: pow2_Suc)
    qed
  qed
qed

lemma fl64_of_int: "0 \<le> n \<Longrightarrow> n \<le> 2 ^ 53 \<Longrightarrow> fl64 (of_int n) = of_int n"
proof -
  assume n: "0 \<le> n" "n \<le> 2 ^ 53"
  consider "n = 0" | "n = 2 ^ 53" | "0 < n" "n < 2 ^ 53" using n by linarith
  then show ?thesis
  proof cases
    case 2
    have "flog2 (2 ^ 53) = 53" by (simp add: flog2.simps)
    then show ?thesis using fl64_exact [of "2 ^ 53" "2 ^ 52"] by (simp add: 2 pow2_def)
  next
    case 3
    let ?k = "flog2 (of_int n)"
    have "pow2 ?k \<le> of_int n" using flog2_bounds [of "of_int n"] 3 by simp
    also have "\<dots> < 2 ^ 53" using 3(2) by (metis of_int_less_iff of_int_numeral of_int_power)
    also have "\<dots> = pow2 53" by (simp add: pow2_def)
    finally have "?k < 53" using pow2_mono [of 53 ?k] by (meson not_le)
    then have "?k - 52 \<le> 0" by simp
    then have "pow2 (?k - 52) = 1 / 2 ^ nat (52 - ?k)" by (auto simp: pow2_def)
    then have "of_int n = of_int (n * 2 ^ nat (52 - ?k)) * pow2 (?k - 52)" by simp
    with 3 show ?thesis by (intro fl64_exact [of _ "n * 2 ^ nat (52 - ?k)"]) simp_all
  qed (simp add: fl64_def)
qed

section \<open>Laws of the arithmetic\<close>

locale float_rounding =
  fixes fl :: "rat \<Rightarrow> rat"
  assumes fl_mono: "0 \<le> x \<Longrightarrow> x \<le> y \<Longrightarrow> fl x \<le> fl y"
    and fl_of_int: "0 \<le> n \<Longrightarrow> n \<le> 2 ^ 53 \<Longrightarrow> fl (of_int n) = of_int n"
begin

lemma fl_nonneg: "0 \<le> x \<Longrightarrow> 0 \<le> fl x"
  using fl_mono [of 0 x] fl_of_int [of 0] by simp

lemma fl_ge_int: "0 \<le> n \<Longrightarrow> n \<le> 2 ^ 53 \<Longrightarrow> of_int n \<le> x \<Longrightarrow> of_int n \<le> fl x"
  using fl_mono [of "of_int n" x] fl_of_int [of n] by simp

lemma fl_le_int: "0 \<le> x \<Longrightarrow> n \<le> 2 ^ 53 \<Longrightarrow> x \<le> of_int n \<Longrightarrow> fl x \<le> of_int n"
  using fl_mono [of x "of_int n"] fl_of_int [of n] by (metis of_int_0_le_iff order_trans)

text \<open>A product with a factor of at least one stays above an integer bound, rounding included.\<close>

lemma fl_mult_ge_int:
  assumes "0 \<le> n" "n \<le> 2 ^ 53" "of_int n \<le> x" "1 \<le> m"
  shows "of_int n \<le> fl (x * m)"
proof (rule fl_ge_int [OF assms(1,2)])
  have "0 \<le> x" using assms(1,3) by (meson of_int_0_le_iff order_trans)
  with assms(3,4) show "of_int n \<le> x * m" using mult_left_mono [of 1 m x] by simp
qed

end

interpretation f64: float_rounding fl64
  by unfold_locales (fact fl64_mono, fact fl64_of_int)

section \<open>The engine\<close>

definition DefaultMaxAttempts :: int where "DefaultMaxAttempts = 5"

record retry_config =
  BaseDelay :: duration
  MaxDelay :: duration
  Multiplier :: rat
  MaxAttempts :: int
  Jitter :: rat

definition NewEngine :: "retry_config \<Rightarrow> retry_config" where
  "NewEngine cfg =
     (let c1 = (if BaseDelay cfg \<le> 0 then cfg\<lparr>BaseDelay := second\<rparr> else cfg);
          c2 = (if MaxDelay c1 \<le> 0 then c1\<lparr>MaxDelay := 30 * second\<rparr> else c1);
          c3 = (if Multiplier c2 \<le> 1 then c2\<lparr>Multiplier := 2\<rparr> else c2);
          c4 = (if MaxDelay c3 < BaseDelay c3 then c3\<lparr>MaxDelay := BaseDelay c3\<rparr> else c3);
          c5 = (if Jitter c4 < 0 then c4\<lparr>Jitter := 0\<rparr> else c4)
      in if 1 < Jitter c5 then c5\<lparr>Jitter := 1\<rparr> else c5)"

text \<open>The loop of \<^verbatim>\<open>Delay\<close>, \<^verbatim>\<open>attempt\<close> iterations from the given value; it breaks once clamped.\<close>

fun grow :: "rat \<Rightarrow> rat \<Rightarrow> nat \<Rightarrow> rat \<Rightarrow> rat" where
  "grow m maxd 0 delay = delay"
| "grow m maxd (Suc n) delay =
     (let d = fl64 (delay * m) in if maxd < d then maxd else grow m maxd n d)"

text \<open>\<^verbatim>\<open>time.Duration(f)\<close> truncates; a value past the range converts to the least \<^verbatim>\<open>int64\<close> on amd64.\<close>

definition duration_of_float :: "rat \<Rightarrow> duration" where
  "duration_of_float x = (if \<lfloor>x\<rfloor> \<le> max_int64 then \<lfloor>x\<rfloor> else min_int64)"

definition Delay :: "retry_config \<Rightarrow> int \<Rightarrow> rat \<Rightarrow> duration" where
  "Delay e attempt u =
     (let maxd = fl64 (of_int (MaxDelay e));
          d1 = grow (Multiplier e) maxd (nat attempt) (fl64 (of_int (BaseDelay e)));
          d2 = (if maxd < d1 then maxd else d1);
          d3 = (if 0 < Jitter e
                then let d = fl64 (d2 + fl64 (fl64 (d2 * Jitter e) * u)) in if maxd < d then maxd else d
                else d2)
      in duration_of_float d3)"

definition ShouldRetry :: "retry_config \<Rightarrow> int \<Rightarrow> err option \<Rightarrow> bool" where
  "ShouldRetry e attempt er =
     (if (case er of None \<Rightarrow> False | Some x \<Rightarrow> errors_is x ErrNoRetry) then False
      else if 0 < MaxAttempts e \<and> MaxAttempts e \<le> attempt then False
      else True)"

lemma NewEngine_normal:
  "0 < BaseDelay (NewEngine cfg)" "BaseDelay (NewEngine cfg) \<le> MaxDelay (NewEngine cfg)"
  "1 < Multiplier (NewEngine cfg)" "0 \<le> Jitter (NewEngine cfg)" "Jitter (NewEngine cfg) \<le> 1"
  "MaxAttempts (NewEngine cfg) = MaxAttempts cfg"
  by (auto simp: NewEngine_def Let_def)

lemma grow_bounds:
  assumes "0 \<le> b" "b \<le> 2 ^ 53" "1 \<le> m" "of_int b \<le> maxd" "of_int b \<le> d" "d \<le> maxd"
  shows "of_int b \<le> grow m maxd n d \<and> grow m maxd n d \<le> maxd"
  using assms(5,6)
proof (induction n arbitrary: d)
  case (Suc n)
  have "of_int b \<le> fl64 (d * m)" by (rule f64.fl_mult_ge_int [OF assms(1,2) Suc.prems(1) assms(3)])
  with Suc.IH [of "fl64 (d * m)"] assms(4) show ?case by (simp add: Let_def not_less)
qed simp

lemma duration_of_float_bounds:
  "of_int b \<le> x \<Longrightarrow> x \<le> of_int c \<Longrightarrow> c \<le> 2 ^ 53 \<Longrightarrow> b \<le> duration_of_float x \<and> duration_of_float x \<le> c"
  by (auto simp: duration_of_float_def max_int64_def le_floor_iff floor_le_iff)

text \<open>
  C36. The backoff respects its bounds. For every configuration, also a nonsensical one, the
  engine \<^verbatim>\<open>NewEngine\<close> builds waits at least the base delay and at most the maximum delay, at every
  attempt number and for every random draw, with the rounding of \<^verbatim>\<open>float64\<close> arithmetic taken
  into account. The delays are exact integers of nanoseconds below \<open>2 ^ 53\<close>, about 104 days.
\<close>

theorem delay_bounds:
  assumes "e = NewEngine cfg" "MaxDelay e \<le> 2 ^ 53" "0 \<le> u" "u < 1"
  shows "BaseDelay e \<le> Delay e attempt u \<and> Delay e attempt u \<le> MaxDelay e"
proof -
  let ?b = "BaseDelay e" and ?m = "MaxDelay e" and ?maxd = "rat_of_int (MaxDelay e)"
  note N = NewEngine_normal [of cfg, folded assms(1)]
  have b: "0 \<le> ?b" "?b \<le> 2 ^ 53" using N assms(2) by linarith+
  have fl: "fl64 (of_int ?m) = ?maxd" "fl64 (of_int ?b) = of_int ?b"
    using N assms(2) b by (simp_all add: f64.fl_of_int)
  define d1 where "d1 = grow (Multiplier e) ?maxd (nat attempt) (of_int ?b)"
  have d1: "of_int ?b \<le> d1" "d1 \<le> ?maxd"
    using grow_bounds [OF b, of "Multiplier e" ?maxd "of_int ?b" "nat attempt"] N by (simp_all add: d1_def)
  have d1_nonneg: "0 \<le> d1" using d1(1) b(1) by (meson of_int_0_le_iff order_trans)
  have "of_int ?b \<le> fl64 (d1 + fl64 (fl64 (d1 * Jitter e) * u))"
  proof (rule f64.fl_ge_int [OF b])
    have "0 \<le> fl64 (fl64 (d1 * Jitter e) * u)"
      using d1_nonneg N(4) assms(3) by (intro f64.fl_nonneg mult_nonneg_nonneg) simp_all
    with d1(1) show "of_int ?b \<le> d1 + fl64 (fl64 (d1 * Jitter e) * u)" by linarith
  qed
  with d1 show ?thesis
    unfolding Delay_def Let_def fl d1_def [symmetric]
    using N(2) by (intro duration_of_float_bounds assms(2)) auto
qed

text \<open>The engine of the server.\<close>

definition server_retry_config :: retry_config where
  "server_retry_config = \<lparr>BaseDelay = second, MaxDelay = 30 * second, Multiplier = 2,
     MaxAttempts = DefaultMaxAttempts, Jitter = fl64 (1 / 10)\<rparr>"

theorem delay_bounds_witness:
  "second \<le> Delay (NewEngine server_retry_config) 4 (1 / 2) \<and>
   Delay (NewEngine server_retry_config) 4 (1 / 2) \<le> 30 * second"
proof -
  have "BaseDelay (NewEngine server_retry_config) = second" "MaxDelay (NewEngine server_retry_config) = 30 * second"
    by (simp_all add: NewEngine_def server_retry_config_def Let_def)
  with delay_bounds [OF refl, of server_retry_config "1 / 2" 4] show ?thesis by simp
qed

lemma grow_exact:
  assumes "1 \<le> k" "M \<le> 2 ^ 53" "0 \<le> x" "x \<le> M"
  shows "grow (of_int k) (of_int M) n (of_int x) = of_int (min (x * k ^ n) M)"
  using assms(3,4)
proof (induction n arbitrary: x)
  case (Suc n)
  have z: "0 \<le> x * k" using Suc.prems assms(1) by simp
  show ?case
  proof (cases "x * k \<le> M")
    case True
    then have "fl64 (of_int x * of_int k) = of_int (x * k)"
      using f64.fl_of_int [of "x * k"] z assms(2) by simp
    moreover have "\<not> rat_of_int M < of_int (x * k)" using True by (simp only: of_int_less_iff not_less)
    ultimately show ?thesis using Suc.IH [OF z True] by (simp add: Let_def mult.assoc)
  next
    case False
    have M: "0 \<le> M" using Suc.prems by simp
    have ge: "of_int M \<le> fl64 (of_int x * of_int k)"
      using f64.fl_ge_int [OF M assms(2), of "of_int (x * k)"] False by (simp flip: of_int_mult)
    have "M \<le> M * k ^ n" using assms(1) M by (simp add: mult_le_cancel_left1)
    then have stay: "grow (of_int k) (of_int M) n (of_int M) = of_int M" using Suc.IH [OF M order_refl] by simp
    have "x * k * 1 \<le> x * k * k ^ n" using assms(1) z by (intro mult_left_mono) simp_all
    with False have "min (x * k ^ Suc n) M = M" by (simp add: mult.assoc)
    with ge stay show ?thesis by (auto simp: Let_def not_less)
  qed
qed simp

text \<open>
  C37. Without jitter and with a whole multiplier the delays are exactly geometric: after \<open>n\<close> failures
  the wait is the base delay times the multiplier to the power \<open>n\<close>, capped at the maximum.
  Rounding never shows.
\<close>

theorem delay_exponential:
  assumes "e = NewEngine cfg" "Jitter e = 0" "Multiplier e = of_int k" "MaxDelay e \<le> 2 ^ 53"
  shows "Delay e (int n) u = min (BaseDelay e * k ^ n) (MaxDelay e)"
proof -
  note N = NewEngine_normal [of cfg, folded assms(1)]
  have k: "1 \<le> k" using N(3) assms(3) by simp
  have fl: "fl64 (of_int (MaxDelay e)) = of_int (MaxDelay e)" "fl64 (of_int (BaseDelay e)) = of_int (BaseDelay e)"
    using N assms(4) by (simp_all add: f64.fl_of_int)
  have g: "grow (of_int k) (of_int (MaxDelay e)) n (of_int (BaseDelay e)) = of_int (min (BaseDelay e * k ^ n) (MaxDelay e))"
    using N by (intro grow_exact [OF k assms(4)]) simp_all
  have "min (BaseDelay e * k ^ n) (MaxDelay e) \<le> max_int64"
    using assms(4) by (simp add: max_int64_def)
  then show ?thesis
    unfolding Delay_def Let_def fl assms(2,3) nat_int g by (simp add: duration_of_float_def flip: of_int_min)
qed

theorem delay_exponential_witness:
  "Delay (NewEngine (server_retry_config\<lparr>Jitter := 0\<rparr>)) 3 0 = 8 * second \<and>
   Delay (NewEngine (server_retry_config\<lparr>Jitter := 0\<rparr>)) 7 0 = 30 * second"
proof -
  let ?e = "NewEngine (server_retry_config\<lparr>Jitter := 0\<rparr>)"
  have c: "Jitter ?e = 0" "Multiplier ?e = of_int 2" "MaxDelay ?e \<le> 2 ^ 53"
    "BaseDelay ?e = second" "MaxDelay ?e = 30 * second"
    by (simp_all add: NewEngine_def server_retry_config_def)
  from delay_exponential [OF refl c(1-3), of 3 0] delay_exponential [OF refl c(1-3), of 7 0] c(4,5)
  show ?thesis by simp
qed

end
