(* ===== verification/Job_Service.thy ===== *)
theory Job_Service
  imports Store_System Retry
begin

text \<open>
  \<^verbatim>\<open>internal/service/job_service.go\<close>: the operations behind the HTTP handlers, the scheduler and the
  in-process worker. Each takes one \<open>call\<close> per statement it sends, the readings of the process clock
  in the order the code takes them, and its random bytes. \<^verbatim>\<open>Enqueue\<close> also returns the job its
  goroutine publishes, if any; publishing is best-effort and its result changes nothing.

  Shown here: enqueueing is idempotent under races, nothing is published that is not stored, the
  callers' side conditions of the shared table hold of this service, and a failed attempt is retried
  or buried as its budget says.
\<close>

section \<open>Operations\<close>

record service =
  sv_retry :: retry_config
  sv_topic :: string
  sv_lease :: duration

definition NewJobService :: "retry_config \<Rightarrow> string \<Rightarrow> duration \<Rightarrow> service" where
  "NewJobService r topic lease =
     \<lparr>sv_retry = r, sv_topic = topic, sv_lease = (if lease \<le> 0 then 5 * minute else lease)\<rparr>"

definition newJobID :: "byte list option \<Rightarrow> err + string" where
  "newJobID random = (case random of
     None \<Rightarrow> Inl (Errorf ''rand.Read'' [])
   | Some b \<Rightarrow> Inr (uuid_layout (hex_encode (uuid_bytes b))))"

definition shouldPublishImmediately :: "job \<Rightarrow> time \<Rightarrow> bool" where
  "shouldPublishImmediately job now \<longleftrightarrow> (case j_scheduled_at job of None \<Rightarrow> True | Some t \<Rightarrow> \<not> now < t)"

definition default_tenant :: "job \<Rightarrow> job" where
  "default_tenant job = (if j_tenant_id job = '''' then job\<lparr>j_tenant_id := DefaultTenant\<rparr> else job)"

text \<open>What \<^verbatim>\<open>Enqueue\<close> fills in once the job has an id.\<close>

definition normalise :: "service \<Rightarrow> time \<Rightarrow> job \<Rightarrow> job" where
  "normalise svc now job =
     (let j1 = (if j_state job = Unlisted '''' then job\<lparr>j_state := JobStatePending\<rparr> else job);
          j2 = (if t_queue (j_task j1) = '''' then j1\<lparr>j_task := (j_task j1)\<lparr>t_queue := DefaultQueue\<rparr>\<rparr> else j1);
          engine = MaxAttempts (sv_retry svc);
          j3 = (if t_max_retries (j_task j2) \<le> 0
                then j2\<lparr>j_task := (j_task j2)\<lparr>t_max_retries := (if engine \<le> 0 then DefaultMaxAttempts else engine)\<rparr>\<rparr>
                else j2)
      in if j_scheduled_at j3 = None then j3\<lparr>j_scheduled_at := Some now\<rparr> else j3)"

text \<open>The insert, and the second lookup when another request with the same key won the race.\<close>

definition persist :: "jobs call \<Rightarrow> jobs call \<Rightarrow> time \<Rightarrow> time \<Rightarrow> job \<Rightarrow> jobs \<Rightarrow>
    (err + string) \<times> jobs \<times> job option" where
  "persist c2 c3 now now' job rows =
     (case CreateJob c2 now' job rows of
        (Inl e, s) \<Rightarrow>
          if errors_is e ErrDuplicateIdempotencyKey \<and> j_idempotency_key job \<noteq> ''''
          then (case GetJobByIdempotencyKey c3 (j_tenant_id job) (j_idempotency_key job) s of
                  (Inl e', s') \<Rightarrow> (Inl (Errorf ''service: lookup duplicate idempotency key'' [e']), s', None)
                | (Inr existing, s') \<Rightarrow> (Inr (j_id existing), s', None))
          else (Inl (Errorf ''service: persist job'' [e]), s, None)
      | (Inr u, s) \<Rightarrow> (Inr (j_id job), s, if shouldPublishImmediately job now then Some job else None))"

definition create :: "service \<Rightarrow> jobs call \<Rightarrow> jobs call \<Rightarrow> time \<Rightarrow> time \<Rightarrow> byte list option \<Rightarrow> job \<Rightarrow> jobs \<Rightarrow>
    (err + string) \<times> jobs \<times> job option" where
  "create svc c2 c3 now now' random job rows =
     (if j_id job = '''' then
        (case newJobID random of
           Inl e \<Rightarrow> (Inl (Errorf ''service: generate job id'' [e]), rows, None)
         | Inr i \<Rightarrow> persist c2 c3 now now' (normalise svc now (job\<lparr>j_id := i\<rparr>)) rows)
      else persist c2 c3 now now' (normalise svc now job) rows)"

definition Enqueue :: "service \<Rightarrow> jobs call \<Rightarrow> jobs call \<Rightarrow> jobs call \<Rightarrow> time \<Rightarrow> time \<Rightarrow> byte list option \<Rightarrow> job \<Rightarrow>
    jobs \<Rightarrow> (err + string) \<times> jobs \<times> job option" where
  "Enqueue svc c1 c2 c3 now now' random job0 rows =
     (let job = default_tenant job0 in
      if j_idempotency_key job \<noteq> '''' then
        (case GetJobByIdempotencyKey c1 (j_tenant_id job) (j_idempotency_key job) rows of
           (Inr existing, s) \<Rightarrow> (Inr (j_id existing), s, None)
         | (Inl e, s) \<Rightarrow>
             if \<not> errors_is e ErrJobNotFound
             then (Inl (Errorf ''service: lookup idempotency key'' [e]), s, None)
             else create svc c2 c3 now now' random job s)
      else create svc c2 c3 now now' random job rows)"

definition wrap_err :: "string \<Rightarrow> (err + 'a) \<times> 's \<Rightarrow> (err + 'a) \<times> 's" where
  "wrap_err msg res = (case res of (Inl e, s) \<Rightarrow> (Inl (Errorf msg [e]), s) | (Inr a, s) \<Rightarrow> (Inr a, s))"

text \<open>\<^verbatim>\<open>if errors.Is(err, sentinel) { return err }\<close> ahead of the wrapping.\<close>

definition wrap_unless :: "sentinel \<Rightarrow> string \<Rightarrow> (err + 'a) \<times> 's \<Rightarrow> (err + 'a) \<times> 's" where
  "wrap_unless st msg res = (case res of
     (Inl e, s) \<Rightarrow> (Inl (if errors_is e st then e else Errorf msg [e]), s)
   | (Inr a, s) \<Rightarrow> (Inr a, s))"

definition Cancel :: "jobs call \<Rightarrow> jobs call \<Rightarrow> string \<Rightarrow> string \<Rightarrow> jobs \<Rightarrow> (err + unit) \<times> jobs" where
  "Cancel c1 c2 tenant jid rows =
     wrap_err (''service: cancel job '' @ jid) (CancelJob c1 c2 tenant jid rows)"

definition clampLease :: "service \<Rightarrow> duration \<Rightarrow> duration" where
  "clampLease svc requested = (if requested \<le> 0 \<or> sv_lease svc < requested then sv_lease svc else requested)"

definition Claim :: "service \<Rightarrow> jobs call \<Rightarrow> time \<Rightarrow> byte list option \<Rightarrow> claim_filter \<Rightarrow> duration \<Rightarrow> jobs \<Rightarrow>
    (err + job) \<times> jobs" where
  "Claim svc c now random flt lease rows =
     wrap_unless ErrJobNotFound ''service: claim job'' (ClaimNextJob c now random (clampLease svc lease) flt rows)"

definition Heartbeat :: "service \<Rightarrow> jobs call \<Rightarrow> time \<Rightarrow> time \<Rightarrow> string \<Rightarrow> string \<Rightarrow> duration \<Rightarrow> jobs \<Rightarrow>
    (err + time) \<times> jobs" where
  "Heartbeat svc c now now' jid leaseToken lease rows =
     (let d = clampLease svc lease in
      case RenewLease c now (zero_job\<lparr>j_id := jid, j_lease_token := leaseToken\<rparr>) d rows of
        (Inl e, s) \<Rightarrow>
          (if errors_is e ErrInvalidTransition then (Inl (Sentinel ErrLeaseLost), s)
           else (Inl (Errorf (''service: renew lease for job '' @ jid) [e]), s))
      | (Inr u, s) \<Rightarrow> (Inr (now' + d), s))"

definition Complete :: "jobs call \<Rightarrow> string \<Rightarrow> string \<Rightarrow> string_map option \<Rightarrow> jobs \<Rightarrow> (err + job) \<times> jobs" where
  "Complete c jid leaseToken meta rows =
     wrap_unless ErrLeaseLost (''service: complete job '' @ jid) (CompleteClaimedJob c jid leaseToken meta rows)"

definition shouldRetry :: "service \<Rightarrow> job \<Rightarrow> bool" where
  "shouldRetry svc job =
     (if 0 < t_max_retries (j_task job) then j_attempt job < t_max_retries (j_task job)
      else ShouldRetry (sv_retry svc) (j_attempt job) None)"

definition retry_at :: "service \<Rightarrow> time \<Rightarrow> rat \<Rightarrow> bool \<Rightarrow> job \<Rightarrow> time option" where
  "retry_at svc now u permanent job =
     (if \<not> permanent \<and> shouldRetry svc job then Some (now + Delay (sv_retry svc) (j_attempt job) u) else None)"

definition failed_job :: "string \<Rightarrow> time option \<Rightarrow> job \<Rightarrow> job" where
  "failed_job errMsg nextRun job =
     (let j = job\<lparr>j_last_error := errMsg, j_started_at := None, j_lease_expires_at := None, j_lease_token := ''''\<rparr>
      in if nextRun \<noteq> None then j\<lparr>j_state := JobStatePending, j_scheduled_at := nextRun\<rparr>
         else j\<lparr>j_state := JobStateDead\<rparr>)"

definition Fail :: "service \<Rightarrow> jobs call \<Rightarrow> jobs call \<Rightarrow> time \<Rightarrow> rat \<Rightarrow> string \<Rightarrow> string \<Rightarrow> string \<Rightarrow> bool \<Rightarrow> jobs \<Rightarrow>
    (err + job) \<times> jobs" where
  "Fail svc c1 c2 now u jid leaseToken errMsg permanent rows =
     (case GetJob c1 AnyTenant jid rows of
        (Inl e, s) \<Rightarrow> (Inl (Errorf (''service: load job '' @ jid) [e]), s)
      | (Inr job, s) \<Rightarrow>
          let nextRun = retry_at svc now u permanent job in
          (case FailClaimedJob c2 jid leaseToken errMsg nextRun s of
             (Inl e, s') \<Rightarrow>
               (Inl (if errors_is e ErrLeaseLost then e else Errorf (''service: fail job '' @ jid) [e]), s')
           | (Inr _, s') \<Rightarrow> (Inr (failed_job errMsg nextRun job), s')))"

section \<open>Enqueueing\<close>

definition keys_unique :: "jobs \<Rightarrow> bool" where
  "keys_unique rows \<longleftrightarrow> (\<forall>a\<in>set rows. \<forall>b\<in>set rows. same_key a b \<longrightarrow> a = b)"

definition the_job_with_key :: "string \<Rightarrow> string \<Rightarrow> string \<Rightarrow> jobs \<Rightarrow> bool" where
  "the_job_with_key tenant key jid rows \<longleftrightarrow>
     (\<exists>r\<in>set rows. r_id r = jid \<and> (\<forall>x\<in>set rows. r_idempotency_key x = Some key \<and> r_tenant_id x = tenant \<longleftrightarrow> x = r))"

lemma insert_keys_unique: "keys_unique rows \<Longrightarrow> keys_unique (snd (insert_job r rows))"
proof (cases "snd (insert_job r rows) = rows")
  case False
  then have s: "snd (insert_job r rows) = rows @ [r]" and new: "\<forall>x\<in>set rows. \<not> same_key r x"
    by (auto simp: insert_job_def list_ex_iff split: if_splits)
  have sym: "same_key x r = same_key r x" for x by (auto simp: same_key_def)
  show "?thesis" if u: "keys_unique rows"
    unfolding s keys_unique_def
  proof (intro ballI impI)
    fix a b assume "a \<in> set (rows @ [r])" "b \<in> set (rows @ [r])" "same_key a b"
    with u [unfolded keys_unique_def, rule_format, of a b] new sym show "a = b" by auto
  qed
qed simp

lemma lookup_key_result:
  assumes "GetJobByIdempotencyKey c tenant key rows = (Inr job, rows')" "tenant \<noteq> ''''" "keys_unique (rely c rows)"
  shows "the_job_with_key tenant key (j_id job) rows'"
proof -
  from select_one_Inr [OF exec_Inr [OF assms(1) [unfolded GetJobByIdempotencyKey_def]]]
  obtain r where r: "r \<in> set (rely c rows)" "r_idempotency_key r = Some key" "r_tenant_id r = tenant"
    "j_id job = r_id r" "rows' = rely c rows"
    using assms(2) by (auto simp: of_tenant_def scanJob_def)
  have "r_idempotency_key x = Some key \<and> r_tenant_id x = tenant \<longleftrightarrow> x = r" if "x \<in> set (rely c rows)" for x
    using assms(3) that r(1-3) by (auto simp: keys_unique_def same_key_def)
  with r show ?thesis by (auto simp: the_job_with_key_def)
qed

lemma normalise_keeps [simp]:
  "j_id (normalise svc now job) = j_id job" "j_tenant_id (normalise svc now job) = j_tenant_id job"
  "j_idempotency_key (normalise svc now job) = j_idempotency_key job"
  by (simp_all add: normalise_def Let_def)

lemma normalise_fills:
  "j_scheduled_at (normalise svc now job) = Some (case j_scheduled_at job of None \<Rightarrow> now | Some t \<Rightarrow> t)"
  "1 \<le> t_max_retries (j_task (normalise svc now job))"
  "t_queue (j_task (normalise svc now job)) \<noteq> ''''"
  "j_state (normalise svc now job) = (if j_state job = Unlisted '''' then JobStatePending else j_state job)"
  "j_attempt (normalise svc now job) = j_attempt job" "j_lease_token (normalise svc now job) = j_lease_token job"
  "j_started_at (normalise svc now job) = j_started_at job"
  "j_lease_expires_at (normalise svc now job) = j_lease_expires_at job"
  "j_completed_at (normalise svc now job) = j_completed_at job"
  by (cases "j_state job = Unlisted ''''"; cases "t_queue (j_task job) = ''''";
      cases "t_max_retries (j_task job) \<le> 0"; cases "j_scheduled_at job";
      simp add: normalise_def Let_def DefaultMaxAttempts_def DefaultQueue_def)+

lemma persist_result:
  assumes "persist c2 c3 now now' job rows = (Inr jid, rows', pub)" "j_tenant_id job \<noteq> ''''"
    "j_idempotency_key job \<noteq> ''''"
    and "\<And>c s. c \<in> {c2, c3} \<Longrightarrow> keys_unique s \<Longrightarrow> keys_unique (rely c s)" "keys_unique rows"
  shows "the_job_with_key (j_tenant_id job) (j_idempotency_key job) jid rows'"
proof (cases "CreateJob c2 now' job rows")
  case (Pair res s)
  let ?r = "row_of_job now' job"
  have key: "r_idempotency_key ?r = Some (j_idempotency_key job)" "r_tenant_id ?r = j_tenant_id job" "r_id ?r = j_id job"
    using assms(3) by (simp_all add: row_of_job_def nullableString_def)
  have u2: "keys_unique (rely c2 rows)" using assms(4) [of c2 rows] assms(5) by simp
  show ?thesis
  proof (cases res)
    case (Inr u)
    with Pair have e: "exec c2 (insert_job ?r) rows = (Inr u, s)"
      by (auto simp: CreateJob_def split: prod.splits sum.splits if_splits)
    from exec_Inr [OF e] have s: "s = rely c2 rows @ [?r]" and new: "\<forall>x\<in>set (rely c2 rows). \<not> same_key ?r x"
      by (auto simp: insert_job_def list_ex_iff split: if_splits)
    have "r_idempotency_key x = Some (j_idempotency_key job) \<and> r_tenant_id x = j_tenant_id job \<longleftrightarrow> x = ?r"
      if "x \<in> set s" for x using that new key unfolding s by (auto simp: same_key_def)
    moreover have "jid = j_id job" "rows' = s" using assms(1) Pair Inr by (simp_all add: persist_def)
    ultimately show ?thesis using key s by (auto simp: the_job_with_key_def intro!: bexI [of _ ?r])
  next
    case (Inl e)
    have us: "keys_unique s"
      using exec_invariant [of keys_unique c2 rows "insert_job ?r"] u2 insert_keys_unique Pair
        CreateJob_state [of c2 now' job rows] by simp
    from assms(1) Pair Inl obtain existing where
      "GetJobByIdempotencyKey c3 (j_tenant_id job) (j_idempotency_key job) s = (Inr existing, rows')" "jid = j_id existing"
      by (auto simp: persist_def split: if_splits prod.splits sum.splits)
    with lookup_key_result [OF this(1) assms(2)] assms(4) [of c3 s] us show ?thesis by simp
  qed
qed

lemma Enqueue_the_job:
  assumes "Enqueue svc c1 c2 c3 now now' random job rows = (Inr jid, rows', pub)"
    and "j_idempotency_key job \<noteq> ''''" "keys_unique rows"
    and "\<And>c s. c \<in> {c1, c2, c3} \<Longrightarrow> keys_unique s \<Longrightarrow> keys_unique (rely c s)"
  shows "the_job_with_key (j_tenant_id (default_tenant job)) (j_idempotency_key job) jid rows'"
proof -
  let ?job = "default_tenant job"
  have t: "j_tenant_id ?job \<noteq> ''''" "j_idempotency_key ?job = j_idempotency_key job"
    by (simp_all add: default_tenant_def DefaultTenant_def)
  have u1: "keys_unique (rely c1 rows)" using assms(3,4) by simp
  obtain res s where look: "GetJobByIdempotencyKey c1 (j_tenant_id ?job) (j_idempotency_key job) rows = (res, s)" by fastforce
  show ?thesis
  proof (cases res)
    case (Inr existing)
    with look assms(1,2) t(2) have "jid = j_id existing" "rows' = s" by (simp_all add: Enqueue_def)
    with lookup_key_result [OF _ t(1) u1] look Inr show ?thesis by simp
  next
    case (Inl e)
    have s: "keys_unique s" using look GetJobByIdempotencyKey_state u1 by (metis snd_conv)
    from look Inl assms(1,2) t(2) have "create svc c2 c3 now now' random ?job s = (Inr jid, rows', pub)"
      by (auto simp: Enqueue_def split: if_splits)
    then obtain i where p: "persist c2 c3 now now' (normalise svc now (?job\<lparr>j_id := i\<rparr>)) s = (Inr jid, rows', pub)"
      by (auto simp: create_def split: if_splits sum.splits) (metis (no_types, lifting) job.surjective job.update_convs(1))
    from persist_result [OF p _ _ _ s] t assms(2,4) show ?thesis by simp
  qed
qed

text \<open>
  What other sessions keep of the table, and inserting the row of the job keeps, \<^verbatim>\<open>Enqueue\<close> keeps.
\<close>

lemma Enqueue_invariant:
  assumes "I rows" "\<And>c s. c \<in> {c1, c2, c3} \<Longrightarrow> I s \<Longrightarrow> I (rely c s)"
    and "\<And>i s. I s \<Longrightarrow> I (snd (insert_job (row_of_job now' (normalise svc now ((default_tenant job)\<lparr>j_id := i\<rparr>))) s))"
  shows "I (fst (snd (Enqueue svc c1 c2 c3 now now' random job rows)))"
proof -
  let ?row = "\<lambda>i. normalise svc now ((default_tenant job)\<lparr>j_id := i\<rparr>)"
  have persist: "I (fst (snd (persist c2 c3 now now' (?row i) s)))" if "I s" for i s
  proof -
    obtain res s' where c: "CreateJob c2 now' (?row i) s = (res, s')" by fastforce
    have "I (snd (CreateJob c2 now' (?row i) s))"
      unfolding CreateJob_state by (rule exec_invariant) (use that assms(2,3) in auto)
    with c have "I s'" by simp
    then show ?thesis using assms(2) [of c3 s'] GetJobByIdempotencyKey_state [of c3 "j_tenant_id (?row i)" "j_idempotency_key (?row i)" s']
      by (auto simp: persist_def c split: sum.splits prod.splits)
  qed
  have create: "I (fst (snd (create svc c2 c3 now now' random (default_tenant job) s)))" if "I s" for s
    using persist [OF that] persist [OF that, of "j_id (default_tenant job)"] that
    by (simp add: create_def split: sum.splits)
  show ?thesis
    using create assms(1,2) GetJobByIdempotencyKey_state [of c1 "j_tenant_id (default_tenant job)" "j_idempotency_key (default_tenant job)" rows]
    by (auto simp: Enqueue_def Let_def split: prod.splits sum.splits)
qed

lemma Enqueue_keys_unique:
  assumes "keys_unique rows" "\<And>c s. c \<in> {c1, c2, c3} \<Longrightarrow> keys_unique s \<Longrightarrow> keys_unique (rely c s)"
  shows "keys_unique (fst (snd (Enqueue svc c1 c2 c3 now now' random job rows)))"
  by (rule Enqueue_invariant [where I = keys_unique]) (use assms insert_keys_unique in auto)

lemma normalise_task [simp]: "t_name (j_task (normalise svc now job)) = t_name (j_task job)"
  by (simp add: normalise_def Let_def)

text \<open>
  C9. Enqueueing is idempotent, also under races. Whenever \<^verbatim>\<open>Enqueue\<close> with an idempotency key
  succeeds, the id it returns is that of the one and only job in the resulting table with that
  key for the tenant, no matter whether it inserted the row itself, found it by the first lookup, or
  lost the race for the unique index and found it by the second. Other processes may change the table
  before each of its statements in any way that respects the unique index. So requests with the same
  key get the same id for as long as the job exists.
\<close>

theorem enqueue_idempotent:
  assumes "Enqueue svc c1 c2 c3 now now' random job rows = (Inr jid, rows', pub)"
    and "j_idempotency_key job \<noteq> ''''" "keys_unique rows"
    and "\<And>c s. c \<in> {c1, c2, c3} \<Longrightarrow> keys_unique s \<Longrightarrow> keys_unique (rely c s)"
  shows "the_job_with_key (j_tenant_id (default_tenant job)) (j_idempotency_key job) jid rows'"
  using assms by (rule Enqueue_the_job)

theorem enqueue_idempotent_witness:
  "\<exists>rows' pub. Enqueue (NewJobService server_retry_config ''jobs'' 0) (quiet 5) (quiet 6) (quiet 7) 5 6 None
      (zero_job\<lparr>j_id := ''b'', j_idempotency_key := ''k''\<rparr>) [row_of_job 0 (example_job ''a'' 0\<lparr>j_idempotency_key := ''k''\<rparr>)]
      = (Inr ''a'', rows', pub) \<and> the_job_with_key ''default'' ''k'' ''a'' rows'"
proof -
  let ?r = "row_of_job 0 (example_job ''a'' 0\<lparr>j_idempotency_key := ''k''\<rparr>)"
  have r: "r_idempotency_key ?r = Some ''k''" "r_tenant_id ?r = ''default''" "r_id ?r = ''a''"
    by (simp_all add: example_simps)
  obtain rows' pub where e: "Enqueue (NewJobService server_retry_config ''jobs'' 0) (quiet 5) (quiet 6) (quiet 7) 5 6 None
      (zero_job\<lparr>j_id := ''b'', j_idempotency_key := ''k''\<rparr>) [?r] = (Inr ''a'', rows', pub)"
    using r by (simp add: Enqueue_def default_tenant_def zero_job_def DefaultTenant_def GetJobByIdempotencyKey_def
        select_one_def of_tenant_def scanJob_def)
  have "the_job_with_key (j_tenant_id (default_tenant (zero_job\<lparr>j_id := ''b'', j_idempotency_key := ''k''\<rparr>)))
      (j_idempotency_key (zero_job\<lparr>j_id := ''b'', j_idempotency_key := ''k''\<rparr>)) ''a'' rows'"
    by (rule enqueue_idempotent [OF e]) (auto simp: keys_unique_def)
  with e show ?thesis by (auto simp: default_tenant_def zero_job_def DefaultTenant_def)
qed

text \<open>
  Nothing is published that is not stored. When \<^verbatim>\<open>Enqueue\<close> hands a job to the publisher it has
  succeeded, returns that job's id, and the row of exactly that job is in the table, PENDING and due
  by the process clock; a job scheduled for later is never published. A crash before the publish
  therefore loses a nudge and not a job.
\<close>

lemma publish_after_persist:
  assumes "Enqueue svc c1 c2 c3 now now' random job rows = (res, rows', Some j)"
  shows "res = Inr (j_id j) \<and> row_of_job now' j \<in> set rows' \<and>
    (\<exists>t. j_scheduled_at j = Some t \<and> t \<le> now) \<and> 1 \<le> t_max_retries (j_task j) \<and> t_queue (j_task j) \<noteq> ''''"
proof -
  obtain job' s where "create svc c2 c3 now now' random job' s = (res, rows', Some j)"
    using assms by (auto simp: Enqueue_def Let_def split: if_splits prod.splits sum.splits)
  then obtain job'' where p: "persist c2 c3 now now' (normalise svc now job'') s = (res, rows', Some j)"
    by (auto simp: create_def split: if_splits sum.splits)
  then obtain u where c: "CreateJob c2 now' j s = (Inr u, rows')" and j: "j = normalise svc now job''"
    and res: "res = Inr (j_id j)" and pub: "shouldPublishImmediately j now"
    by (auto simp: persist_def split: if_splits prod.splits sum.splits)
  from c have "exec c2 (insert_job (row_of_job now' j)) s = (Inr u, rows')"
    by (auto simp: CreateJob_def split: prod.splits sum.splits if_splits)
  from exec_Inr [OF this] have "row_of_job now' j \<in> set rows'" by (auto simp: insert_job_def split: if_splits)
  moreover have "\<exists>t. j_scheduled_at j = Some t \<and> t \<le> now"
    using pub unfolding j by (simp add: shouldPublishImmediately_def normalise_fills)
  moreover have "1 \<le> t_max_retries (j_task j)" "t_queue (j_task j) \<noteq> ''''"
    unfolding j by (rule normalise_fills)+
  ultimately show ?thesis using res by simp
qed

lemma publish_after_persist_witness:
  "\<exists>rows' j. Enqueue (NewJobService server_retry_config ''jobs'' 0) (quiet 5) (quiet 6) (quiet 7) 5 6 None
      (zero_job\<lparr>j_id := ''b''\<rparr>) [] = (Inr ''b'', rows', Some j) \<and> row_of_job 6 j \<in> set rows'"
proof -
  obtain rows' j where e: "Enqueue (NewJobService server_retry_config ''jobs'' 0) (quiet 5) (quiet 6) (quiet 7) 5 6 None
      (zero_job\<lparr>j_id := ''b''\<rparr>) [] = (Inr ''b'', rows', Some j)"
    by (simp add: Enqueue_def default_tenant_def create_def persist_def CreateJob_def insert_job_def normalise_def
        shouldPublishImmediately_def zero_job_def zero_task_def row_of_job_def int4_def NewJobService_def
        server_retry_config_def DefaultMaxAttempts_def Let_def)
  from publish_after_persist [OF e] e show ?thesis by blast
qed

section \<open>The side conditions of the shared table\<close>

text \<open>A job as the HTTP handler and the scheduler build it: the worker's fields are zero.\<close>

definition submitted :: "job \<Rightarrow> bool" where
  "submitted job \<longleftrightarrow> j_state job = Unlisted '''' \<and> j_attempt job = 0 \<and> j_lease_token job = '''' \<and>
     j_started_at job = None \<and> j_lease_expires_at job = None \<and> j_completed_at job = None"

lemma submitted_fresh: "submitted job \<Longrightarrow> fresh_row (row_of_job now' (normalise svc now job))"
  by (simp add: submitted_def fresh_row_def row_of_job_def normalise_fills nullableString_def)

lemma submitted_default [simp]:
  "submitted (default_tenant job) = submitted job" "submitted (job\<lparr>j_id := i\<rparr>) = submitted job"
  by (simp_all add: submitted_def default_tenant_def)

lemma CreateJob_reachable:
  assumes "reachable_table (rely c rows)" "fresh_row (row_of_job now job)"
  shows "reachable_table (snd (CreateJob c now job rows))"
proof -
  obtain iss where "reachable (rely c rows, iss)" using assms(1) by (auto simp: reachable_table_def)
  then show ?thesis unfolding CreateJob_state
    by (rule exec_reachable) (rule store_step.insert [OF assms(2)])
qed

lemma persist_reachable:
  assumes "fresh_row (row_of_job now' job)" "reachable_table rows"
    and "\<And>c s. c \<in> {c2, c3} \<Longrightarrow> reachable_table s \<Longrightarrow> reachable_table (rely c s)"
  shows "reachable_table (fst (snd (persist c2 c3 now now' job rows)))"
proof -
  obtain res s where c: "CreateJob c2 now' job rows = (res, s)" by fastforce
  have "reachable_table s"
    using CreateJob_reachable [of c2 rows now' job] assms c by simp
  moreover have "snd (GetJobByIdempotencyKey c3 (j_tenant_id job) (j_idempotency_key job) s) = rely c3 s"
    by (rule GetJobByIdempotencyKey_state)
  ultimately show ?thesis using assms(3) [of c3 s]
    by (auto simp: persist_def c split: sum.splits prod.splits)
qed

lemma create_reachable:
  assumes "submitted job" "reachable_table rows"
    and "\<And>c s. c \<in> {c2, c3} \<Longrightarrow> reachable_table s \<Longrightarrow> reachable_table (rely c s)"
  shows "reachable_table (fst (snd (create svc c2 c3 now now' random job rows)))"
  using assms persist_reachable [OF submitted_fresh]
  by (auto simp: create_def split: sum.splits)

lemma GetJob_Inr:
  assumes "GetJob c tenant jid rows = (Inr j, s)"
  shows "s = rely c rows \<and> (\<exists>r\<in>set s. r_id r = jid \<and> of_tenant tenant r \<and> j = scanJob r)"
  using select_one_Inr [OF exec_Inr [OF assms [unfolded GetJob_def]]] by auto

lemma retry_within_budget:
  assumes inv: "store_inv (s, iss)" and run: "store_run (s, iss) (s', iss')" and tok: "leaseToken \<in> iss"
    and r: "r \<in> set s" "r_id r = jid"
  shows "retry_at svc now u permanent (scanJob r) = None \<or> within_budget jid leaseToken s'"
proof (cases "retry_at svc now u permanent (scanJob r)")
  case (Some t)
  then have "shouldRetry svc (scanJob r)" by (simp add: retry_at_def split: if_splits)
  moreover have "1 \<le> r_task_max_retries r" using store_invD(5) [OF inv r(1)] by (simp add: row_inv_def)
  ultimately have budget: "r_attempt r < r_task_max_retries r"
    by (simp add: shouldRetry_def scanJob_def split: if_splits)
  have "r_attempt x < r_task_max_retries x" if "x \<in> set s'" "holds_lease jid leaseToken x" for x
  proof -
    from that(2) have x: "r_lease_token x = Some leaseToken" "r_id x = jid" by (simp_all add: holds_lease_def)
    from lease_held_before [OF run inv tok that(1) x(1)] obtain y where
      y: "y \<in> set s" "same_job x y" "r_attempt y = r_attempt x" by auto
    have "y = r" using store_invD(2) [OF inv y(1) r(1)] x(2) y(2) r(2) by (simp add: same_job_def)
    with y budget show ?thesis by (simp add: same_job_def)
  qed
  then show ?thesis by (simp add: within_budget_def)
qed simp

text \<open>
  C12. The service keeps the table reachable when jobs are submitted and failed. \<^verbatim>\<open>Enqueue\<close> of a
  job as the handlers build it inserts only well-formed rows. \<^verbatim>\<open>Fail\<close> decides on a retry from a
  separate, earlier read, with other processes running in between; all the same it puts a job back to
  PENDING only if the attempt that just failed was not the last one its budget allows, because the
  lease it holds freezes the attempt.
\<close>

theorem service_keeps_reachable:
  assumes "reachable (rely c1 rows, iss)" "store_run (rely c1 rows, iss) (rely c2 (rely c1 rows), iss')"
    and "leaseToken \<in> iss" "submitted job" "reachable_table rows"
    and "\<And>c s. c \<in> {c1, c2, c3} \<Longrightarrow> reachable_table s \<Longrightarrow> reachable_table (rely c s)"
  shows "reachable_table (snd (Fail svc c1 c2 now u jid leaseToken errMsg permanent rows)) \<and>
    reachable_table (fst (snd (Enqueue svc c1 c2 c3 now now' random job rows)))"
proof
  let ?s = "rely c1 rows"
  have inv: "store_inv (?s, iss)" by (rule reachable_store_inv [OF assms(1)])
  have r2: "reachable (rely c2 ?s, iss')" by (rule reachable_run [OF assms(2,1)])
  have s: "reachable_table ?s" using assms(1) by (auto simp: reachable_table_def)
  show "reachable_table (snd (Fail svc c1 c2 now u jid leaseToken errMsg permanent rows))"
  proof (cases "GetJob c1 AnyTenant jid rows")
    case (Pair res s')
    show ?thesis
    proof (cases res)
      case (Inr j)
      from GetJob_Inr Pair Inr obtain r where r: "s' = ?s" "r \<in> set ?s" "r_id r = jid" "j = scanJob r" by blast
      have "retry_at svc now u permanent j = None \<or> within_budget jid leaseToken (rely c2 s')"
        using retry_within_budget [OF inv assms(2,3) r(2,3)] by (simp add: r)
      from fail_keeps_reachable [OF _ this, of iss'] r2 s have
        "reachable_table (snd (FailClaimedJob c2 jid leaseToken errMsg (retry_at svc now u permanent j) s'))"
        by (simp add: r)
      with Pair Inr show ?thesis by (auto simp: Fail_def Let_def split: prod.splits sum.splits)
    qed (use Pair s GetJob_state [of c1 AnyTenant jid rows] in \<open>simp add: Fail_def\<close>)
  qed
  show "reachable_table (fst (snd (Enqueue svc c1 c2 c3 now now' random job rows)))"
    using create_reachable [of "default_tenant job"] assms(4,5,6) s
      GetJobByIdempotencyKey_state [of c1 "j_tenant_id (default_tenant job)" "j_idempotency_key (default_tenant job)" rows]
    by (auto simp: Enqueue_def Let_def split: prod.splits sum.splits)
qed

theorem service_keeps_reachable_witness:
  "reachable_table (snd (Fail (NewJobService server_retry_config ''jobs'' 0) (quiet 5) (quiet 6) 5 0 ''a'' ''t'' ''boom'' False [leased_row]))"
proof -
  have r: "reachable (rely (quiet 5) [leased_row], {''t''})" using example_reachable(2) by simp
  have run: "store_run (rely (quiet 5) [leased_row], {''t''}) (rely (quiet 6) (rely (quiet 5) [leased_row]), {''t''})" by simp
  have t: "reachable_table [leased_row]" using example_reachable(2) by (auto simp: reachable_table_def)
  have j: "submitted zero_job" by (simp add: submitted_def zero_job_def)
  show ?thesis
    by (rule conjunct1 [OF service_keeps_reachable [OF r run _ j t, where ?c3.0 = "quiet 7"]]) auto
qed

section \<open>Failing\<close>

text \<open>
  C13. A failed attempt has the outcome the policy says. When \<^verbatim>\<open>Fail\<close> succeeds, the job that held the
  lease, on the attempt it held it for, is PENDING again and due after the backoff delay of that
  attempt if the failure was not permanent and attempts remain, and DEAD with a completion time
  otherwise; the error is recorded, the lease is gone, and the state reported to the caller is the one
  stored. This holds with other processes running between the read and the write.
\<close>

theorem fail_outcome:
  assumes "reachable (rely c1 rows, iss)" "store_run (rely c1 rows, iss) (rely c2 (rely c1 rows), iss')"
    and "leaseToken \<in> iss" "Fail svc c1 c2 now u jid leaseToken errMsg permanent rows = (Inr job, rows')"
  shows "\<exists>r r'. r \<in> set (rely c2 (rely c1 rows)) \<and> holds_lease jid leaseToken r \<and> r' \<in> set rows' \<and> same_job r' r \<and>
    r_last_error r' = errMsg \<and> r_lease_token r' = None \<and> r_attempt r' = r_attempt r \<and> j_state job = r_state r' \<and>
    (if \<not> permanent \<and> r_attempt r < r_task_max_retries r
     then r_state r' = JobStatePending \<and>
       r_scheduled_at r' = Some (pg_ts (now + Delay (sv_retry svc) (r_attempt r) u))
     else r_state r' = JobStateDead \<and> r_completed_at r' = Some (pg_ts (pgnow c2)))"
proof -
  let ?s = "rely c1 rows"
  note inv = reachable_store_inv [OF assms(1)]
  from assms(4) obtain j s where g: "GetJob c1 AnyTenant jid rows = (Inr j, s)"
    and f: "FailClaimedJob c2 jid leaseToken errMsg (retry_at svc now u permanent j) s = (Inr (), rows')"
    and job: "job = failed_job errMsg (retry_at svc now u permanent j) j"
    by (auto simp: Fail_def Let_def split: prod.splits sum.splits)
  let ?n = "retry_at svc now u permanent j"
  from GetJob_Inr [OF g] obtain r0 where r0: "s = ?s" "r0 \<in> set ?s" "r_id r0 = jid" "j = scanJob r0" by blast
  from f r0(1) have "exec c2 (update_or ErrLeaseLost (holds_lease jid leaseToken) (fail_set (pgnow c2) errMsg ?n)) ?s = (Inr (), rows')"
    by (auto simp: FailClaimedJob_def split: if_splits)
  from exec_Inr [OF this] obtain r where r: "r \<in> set (rely c2 ?s)" "holds_lease jid leaseToken r"
    and rows': "rows' = snd (sql_update (holds_lease jid leaseToken) (fail_set (pgnow c2) errMsg ?n) (rely c2 ?s))"
    by (auto simp: update_or_Inr)
  from r(2) have t: "r_lease_token r = Some leaseToken" "r_id r = jid" by (simp_all add: holds_lease_def)
  from lease_held_before [OF assms(2) inv assms(3) r(1) t(1)] obtain y where
    y: "y \<in> set ?s" "same_job r y" "r_attempt y = r_attempt r" by auto
  have "y = r0" using store_invD(2) [OF inv y(1) r0(2)] t(2) y(2) r0(3) by (simp add: same_job_def)
  moreover have "1 \<le> r_task_max_retries y" using store_invD(5) [OF inv y(1)] by (simp add: row_inv_def)
  ultimately have n: "?n = (if \<not> permanent \<and> r_attempt r < r_task_max_retries r
      then Some (now + Delay (sv_retry svc) (r_attempt r) u) else None)"
    using y r0(4) by (simp add: retry_at_def shouldRetry_def scanJob_def same_job_def)
  let ?r' = "fail_set (pgnow c2) errMsg ?n r"
  have "?r' \<in> set rows'" unfolding rows' using r by (force simp: in_set_sql_update)
  moreover have "same_job ?r' r" by (rule upd_fail.keeps)
  moreover have "if \<not> permanent \<and> r_attempt r < r_task_max_retries r
     then r_state ?r' = JobStatePending \<and> r_scheduled_at ?r' = Some (pg_ts (now + Delay (sv_retry svc) (r_attempt r) u))
     else r_state ?r' = JobStateDead \<and> r_completed_at ?r' = Some (pg_ts (pgnow c2))"
    unfolding n by (simp add: fail_set_def)
  moreover have "r_last_error ?r' = errMsg" "r_lease_token ?r' = None" "r_attempt ?r' = r_attempt r"
    "j_state job = r_state ?r'"
    unfolding job by (simp_all add: fail_set_def failed_job_def Let_def)
  ultimately show ?thesis using r by blast
qed

theorem fail_outcome_witness:
  "\<exists>job rows'. Fail (NewJobService server_retry_config ''jobs'' 0) (quiet 5) (quiet 6) 5 0 ''a'' ''t'' ''boom'' True
     [leased_row] = (Inr job, rows') \<and> j_state job = JobStateDead"
proof -
  let ?svc = "NewJobService server_retry_config ''jobs'' 0"
  have h: "holds_lease ''a'' ''t'' leased_row" "r_id leased_row = ''a''"
    by (simp_all add: holds_lease_def claim_set_def)
  obtain job rows' where e: "Fail ?svc (quiet 5) (quiet 6) 5 0 ''a'' ''t'' ''boom'' True [leased_row] = (Inr job, rows')"
    using h by (simp add: Fail_def GetJob_def select_one_def of_tenant_def AnyTenant_def FailClaimedJob_def update_or_def
        sql_update_def Let_def)
  have r: "reachable (rely (quiet 5) [leased_row], {''t''})" using example_reachable(2) by simp
  have run: "store_run (rely (quiet 5) [leased_row], {''t''}) (rely (quiet 6) (rely (quiet 5) [leased_row]), {''t''})" by simp
  from fail_outcome [OF r run _ e] have "j_state job = JobStateDead" by auto
  with e show ?thesis by blast
qed

section \<open>Leases and ids\<close>

text \<open>
  No caller can hold a job longer than the server allows. The lease a claim or a heartbeat
  writes is positive and at most the configured maximum, for every requested duration, also
  a negative one or one that overflowed.
\<close>

lemma clamped_lease_bounds:
  "0 < clampLease (NewJobService r topic lease) requested \<and>
   clampLease (NewJobService r topic lease) requested \<le> (if lease \<le> 0 then 5 * minute else lease)"
  by (auto simp: clampLease_def NewJobService_def)

end
