(* ===== verification/Circuit_Breaker.thy ===== *)
theory Circuit_Breaker
  imports Conduit_Prelude
begin

text \<open>
  \<^verbatim>\<open>internal/circuitbreaker\<close>: the three-state breaker in front of every task execution. Each
  method of the source runs under the breaker's mutex, so it is one atomic function on the
  \<open>breaker\<close> record; the clock readings of \<^verbatim>\<open>time.Now\<close> and \<^verbatim>\<open>time.Since\<close> are arguments.

  Shown here: the invariant of every reachable breaker, that a closed breaker opens on exactly
  \<^verbatim>\<open>FailureThreshold\<close> consecutive failures, that an open one refuses until its timeout has passed,
  and when a half-open one can close again. A configuration with fewer probe requests than required
  successes can get stuck half-open; the one the server uses is such a configuration.
\<close>

section \<open>State and operations\<close>

datatype breaker_state = StateClosed | StateOpen | StateHalfOpen

record breaker_config =
  FailureThreshold :: int
  SuccessThreshold :: int
  OpenTimeout :: duration
  HalfOpenRequests :: int

record breaker =
  b_cfg :: breaker_config
  b_state :: breaker_state
  b_failures :: int
  b_successes :: int
  b_openedAt :: time

definition New_breaker :: "breaker_config \<Rightarrow> breaker" where
  "New_breaker cfg = \<lparr>b_cfg =
     \<lparr>FailureThreshold = (if FailureThreshold cfg \<le> 0 then 5 else FailureThreshold cfg),
      SuccessThreshold = (if SuccessThreshold cfg \<le> 0 then 2 else SuccessThreshold cfg),
      OpenTimeout = (if OpenTimeout cfg \<le> 0 then 60 * second else OpenTimeout cfg),
      HalfOpenRequests = (if HalfOpenRequests cfg \<le> 0 then 1 else HalfOpenRequests cfg)\<rparr>,
     b_state = StateClosed, b_failures = 0, b_successes = 0, b_openedAt = zero_time\<rparr>"

definition Allow :: "time \<Rightarrow> breaker \<Rightarrow> bool \<times> breaker" where
  "Allow now b = (case b_state b of
     StateClosed \<Rightarrow> (True, b)
   | StateOpen \<Rightarrow>
       if OpenTimeout (b_cfg b) \<le> time_sub now (b_openedAt b)
       then (True, b\<lparr>b_state := StateHalfOpen, b_failures := 0, b_successes := 0\<rparr>)
       else (False, b)
   | StateHalfOpen \<Rightarrow> (b_successes b < HalfOpenRequests (b_cfg b), b))"

definition RecordSuccess :: "breaker \<Rightarrow> breaker" where
  "RecordSuccess b = (case b_state b of
     StateHalfOpen \<Rightarrow>
       (let b1 = b\<lparr>b_successes := b_successes b + 1\<rparr> in
        if SuccessThreshold (b_cfg b1) \<le> b_successes b1
        then b1\<lparr>b_state := StateClosed, b_failures := 0, b_successes := 0\<rparr> else b1)
   | StateClosed \<Rightarrow> b\<lparr>b_failures := 0\<rparr>
   | StateOpen \<Rightarrow> b)"

definition RecordFailure :: "time \<Rightarrow> breaker \<Rightarrow> breaker" where
  "RecordFailure now b = (case b_state b of
     StateClosed \<Rightarrow>
       (let b1 = b\<lparr>b_failures := b_failures b + 1\<rparr> in
        if FailureThreshold (b_cfg b1) \<le> b_failures b1
        then b1\<lparr>b_state := StateOpen, b_openedAt := now\<rparr> else b1)
   | StateHalfOpen \<Rightarrow>
       b\<lparr>b_state := StateOpen, b_openedAt := now, b_failures := 0, b_successes := 0\<rparr>
   | StateOpen \<Rightarrow> b)"

definition State :: "breaker \<Rightarrow> breaker_state" where
  "State b = b_state b"

text \<open>The calls a breaker receives, and the state after a sequence of them.\<close>

datatype breaker_event = CallAllow time | CallSuccess | CallFailure time

fun breaker_step :: "breaker \<Rightarrow> breaker_event \<Rightarrow> breaker" where
  "breaker_step b (CallAllow t) = snd (Allow t b)"
| "breaker_step b CallSuccess = RecordSuccess b"
| "breaker_step b (CallFailure t) = RecordFailure t b"

definition breaker_run :: "breaker \<Rightarrow> breaker_event list \<Rightarrow> breaker" where
  "breaker_run = foldl breaker_step"

section \<open>The invariant\<close>

definition breaker_inv :: "breaker \<Rightarrow> bool" where
  "breaker_inv b \<longleftrightarrow>
     0 < FailureThreshold (b_cfg b) \<and> 0 < SuccessThreshold (b_cfg b) \<and>
     0 < OpenTimeout (b_cfg b) \<and> 0 < HalfOpenRequests (b_cfg b) \<and>
     (case b_state b of
        StateClosed \<Rightarrow> 0 \<le> b_failures b \<and> b_failures b < FailureThreshold (b_cfg b) \<and> b_successes b = 0
      | StateOpen \<Rightarrow> b_successes b = 0
      | StateHalfOpen \<Rightarrow> b_failures b = 0 \<and> 0 \<le> b_successes b \<and>
          b_successes b < SuccessThreshold (b_cfg b))"

lemmas breaker_defs = Allow_def RecordSuccess_def RecordFailure_def Let_def

lemma breaker_inv_New: "breaker_inv (New_breaker cfg)"
  by (simp add: breaker_inv_def New_breaker_def)

lemma breaker_inv_step: "breaker_inv b \<Longrightarrow> breaker_inv (breaker_step b e)"
  by (cases e) (auto simp: breaker_inv_def breaker_defs split: breaker_state.splits)

lemma breaker_step_cfg [simp]: "b_cfg (breaker_step b e) = b_cfg b"
  by (cases e) (auto simp: breaker_defs split: breaker_state.splits)

lemma breaker_run_simps [simp]:
  "breaker_run b [] = b" "breaker_run b (e # es) = breaker_run (breaker_step b e) es"
  "breaker_run b (es @ fs) = breaker_run (breaker_run b es) fs"
  by (simp_all add: breaker_run_def)

lemma breaker_inv_run: "breaker_inv b \<Longrightarrow> breaker_inv (breaker_run b es)"
  by (induction es arbitrary: b) (simp_all add: breaker_inv_step)

lemma breaker_run_cfg [simp]: "b_cfg (breaker_run b es) = b_cfg b"
  by (induction es arbitrary: b) simp_all

section \<open>Opening\<close>

text \<open>The failures at the end of a history, since the last success.\<close>

fun trailing_failures :: "int \<Rightarrow> breaker_event list \<Rightarrow> int" where
  "trailing_failures n [] = n"
| "trailing_failures n (CallSuccess # es) = trailing_failures 0 es"
| "trailing_failures n (CallFailure t # es) = trailing_failures (n + 1) es"
| "trailing_failures n (CallAllow t # es) = trailing_failures n es"

lemma all_le_Suc: "(\<forall>k\<le>Suc n. P k) \<longleftrightarrow> P 0 \<and> (\<forall>k\<le>n. P (Suc k))"
  by (metis Suc_le_mono le0 old.nat.exhaust)

lemma closed_prefixes:
  assumes "breaker_inv b" "b_state b = StateClosed"
  shows "(\<forall>k\<le>length es. b_state (breaker_run b (take k es)) = StateClosed) \<longleftrightarrow>
    (\<forall>k\<le>length es. trailing_failures (b_failures b) (take k es) < FailureThreshold (b_cfg b))"
  using assms
proof (induction es arbitrary: b)
  case Nil
  then show ?case by (simp add: breaker_inv_def)
next
  case (Cons e es)
  let ?b = "breaker_step b e" and ?T = "FailureThreshold (b_cfg b)"
  have lt: "b_failures b < ?T" using Cons.prems by (simp add: breaker_inv_def)
  have split: "(\<forall>k\<le>length (e # es). P (take k (e # es))) \<longleftrightarrow> P [] \<and> (\<forall>k\<le>length es. P (e # take k es))"
    for P by (simp add: all_le_Suc)
  note L = split [of "\<lambda>xs. b_state (breaker_run b xs) = StateClosed"]
    and R = split [of "\<lambda>xs. trailing_failures (b_failures b) xs < ?T"]
  show ?case
  proof (cases "b_state ?b = StateClosed")
    case True
    have "trailing_failures (b_failures b) (e # fs) = trailing_failures (b_failures ?b) fs" for fs
      using True Cons.prems(2) by (cases e) (auto simp: breaker_defs split: if_splits)
    with Cons.IH [OF breaker_inv_step [OF Cons.prems(1)] True] lt Cons.prems(2) show ?thesis
      unfolding L R by simp
  next
    case False
    with Cons.prems(2) have "?T \<le> trailing_failures (b_failures b) (e # take 0 es)"
      by (cases e) (auto simp: breaker_defs split: if_splits)
    then have "\<not> (\<forall>k\<le>length es. trailing_failures (b_failures b) (e # take k es) < ?T)"
      by (metis le0 not_less)
    moreover have "\<not> (\<forall>k\<le>length es. b_state (breaker_run b (e # take k es)) = StateClosed)"
      using False by (metis breaker_run_simps(1,2) le0 take0)
    ultimately show ?thesis unfolding L R by blast
  qed
qed


text \<open>
  Every state a breaker can reach from \<^verbatim>\<open>New\<close> satisfies the invariant: positive thresholds
  whatever the configuration said, fewer failures than the threshold while closed, and fewer
  successes than the threshold while half-open.
\<close>

lemma breaker_reachable_inv: "breaker_inv (breaker_run (New_breaker cfg) es)"
  by (rule breaker_inv_run [OF breaker_inv_New])

section \<open>Refusing and probing\<close>

lemma open_early:
  assumes "breaker_inv b" "b_state b = StateOpen" "t < b_openedAt b + OpenTimeout (b_cfg b)"
  shows "Allow t b = (False, b)"
  using assms by (auto simp: Allow_def time_sub_def breaker_inv_def min_int64_def)

lemma open_run:
  assumes "breaker_inv b" "b_state b = StateOpen"
    "\<forall>t. CallAllow t \<in> set es \<longrightarrow> t < b_openedAt b + OpenTimeout (b_cfg b)"
  shows "breaker_run b es = b"
  using assms(3)
proof (induction es)
  case (Cons e es)
  then have "breaker_step b e = b"
    using assms(1,2) open_early [OF assms(1,2)] by (cases e) (auto simp: breaker_defs)
  with Cons show ?case by simp
qed simp

text \<open>
  Once open, a breaker refuses every call until \<^verbatim>\<open>OpenTimeout\<close> has passed since it opened,
  whatever outcomes of earlier calls are reported meanwhile; the first call after that is admitted
  and makes it half-open.
\<close>

lemma breaker_open_refuses:
  assumes "breaker_inv b" "State b = StateOpen" "OpenTimeout (b_cfg b) \<le> max_int64"
    and "\<forall>t. CallAllow t \<in> set es \<longrightarrow> t < b_openedAt b + OpenTimeout (b_cfg b)"
  shows "breaker_run b es = b \<and>
    (\<forall>t < b_openedAt b + OpenTimeout (b_cfg b). \<not> fst (Allow t b)) \<and>
    (\<forall>t \<ge> b_openedAt b + OpenTimeout (b_cfg b).
       fst (Allow t b) \<and> State (snd (Allow t b)) = StateHalfOpen)"
proof (intro conjI allI impI)
  show "breaker_run b es = b" using assms open_run [of b es] by (simp add: State_def)
  show "\<not> fst (Allow t b)" if "t < b_openedAt b + OpenTimeout (b_cfg b)" for t
    using assms(1,2) that by (simp add: open_early State_def)
  show "fst (Allow t b)" "State (snd (Allow t b)) = StateHalfOpen"
    if "b_openedAt b + OpenTimeout (b_cfg b) \<le> t" for t
    using assms(2,3) that by (auto simp: Allow_def State_def time_sub_def)
qed

definition small_config :: breaker_config where
  "small_config = \<lparr>FailureThreshold = 1, SuccessThreshold = 2, OpenTimeout = 10, HalfOpenRequests = 2\<rparr>"


lemma breaker_open_refuses_witness:
  "let b = breaker_run (New_breaker small_config) [CallFailure 100] in
   State b = StateOpen \<and> breaker_run b [CallAllow 105, CallSuccess, CallFailure 107] = b \<and>
   \<not> fst (Allow 109 b) \<and> fst (Allow 110 b)"
proof -
  define b where "b = breaker_run (New_breaker small_config) [CallFailure 100]"
  have inv: "breaker_inv b" unfolding b_def by (rule breaker_inv_run [OF breaker_inv_New])
  have st: "State b = StateOpen" "OpenTimeout (b_cfg b) = 10" "b_openedAt b = 100"
    by (simp_all add: b_def small_config_def New_breaker_def State_def breaker_defs)
  have "breaker_run b [CallAllow 105, CallSuccess, CallFailure 107] = b \<and>
    (\<forall>t < 110. \<not> fst (Allow t b)) \<and> (\<forall>t \<ge> 110. fst (Allow t b) \<and> State (snd (Allow t b)) = StateHalfOpen)"
    using breaker_open_refuses [OF inv st(1), of "[CallAllow 105, CallSuccess, CallFailure 107]"]
    by (simp add: st max_int64_def)
  with st(1) show ?thesis unfolding Let_def b_def [symmetric] by simp
qed

section \<open>Closing again\<close>

text \<open>
  How \<^verbatim>\<open>jobWorker.Run\<close> uses a breaker, one execution at a time: ask, run the task only when
  admitted, and report its outcome.
\<close>

fun guarded_call :: "breaker \<Rightarrow> time \<times> bool \<times> time \<Rightarrow> breaker" where
  "guarded_call b (t, ok, t') =
     (case Allow t b of
        (False, b1) \<Rightarrow> b1
      | (True, b1) \<Rightarrow> if ok then RecordSuccess b1 else RecordFailure t' b1)"

lemma half_open_success:
  assumes "b_state b = StateHalfOpen" "b_successes b < HalfOpenRequests (b_cfg b)"
  shows "guarded_call b (t, True, t') = RecordSuccess b"
  using assms by (simp add: Allow_def)

text \<open>
  With at least as many probe requests as required successes, a half-open breaker closes: the
  missing number of successful calls, one after the other, are all admitted and leave it closed.
\<close>

lemma breaker_recovers:
  assumes "breaker_inv b" "State b = StateHalfOpen"
    and "SuccessThreshold (b_cfg b) \<le> HalfOpenRequests (b_cfg b)"
    and "int (length ts) = SuccessThreshold (b_cfg b) - b_successes b"
  shows "State (foldl guarded_call b (map (\<lambda>t. (t, True, t)) ts)) = StateClosed"
  using assms
proof (induction ts arbitrary: b)
  case Nil
  then show ?case by (simp add: breaker_inv_def State_def)
next
  case (Cons t ts)
  have lt: "b_successes b < SuccessThreshold (b_cfg b)" using Cons.prems by (simp add: breaker_inv_def State_def)
  have g: "guarded_call b (t, True, t) = RecordSuccess b"
    using Cons.prems lt by (intro half_open_success) (simp_all add: State_def)
  show ?case
  proof (cases "b_successes b + 1 = SuccessThreshold (b_cfg b)")
    case True
    with Cons.prems(4) have "int (length ts) = 0" unfolding list.size by linarith
    with True Cons.prems(2) show ?thesis
      unfolding list.map foldl_Cons g by (simp add: State_def RecordSuccess_def)
  next
    case False
    with lt Cons.prems(2) have r: "RecordSuccess b = b\<lparr>b_successes := b_successes b + 1\<rparr>"
      by (simp add: RecordSuccess_def State_def)
    have "breaker_inv (RecordSuccess b)" using breaker_inv_step [OF Cons.prems(1), of CallSuccess] by simp
    with Cons.prems r show ?thesis
      unfolding list.map foldl_Cons g by (intro Cons.IH) (simp_all add: State_def)
  qed
qed

lemma breaker_recovers_witness:
  "let b = breaker_run (New_breaker small_config) [CallFailure 100, CallAllow 110] in
   State b = StateHalfOpen \<and> State (foldl guarded_call b [(111, True, 111), (112, True, 112)]) = StateClosed"
proof -
  define b where "b = breaker_run (New_breaker small_config) [CallFailure 100, CallAllow 110]"
  have inv: "breaker_inv b" unfolding b_def by (rule breaker_inv_run [OF breaker_inv_New])
  have st: "State b = StateHalfOpen" "b_successes b = 0" "b_cfg b = small_config"
    by (simp_all add: b_def small_config_def New_breaker_def State_def breaker_defs time_sub_def
        min_int64_def max_int64_def)
  have "State (foldl guarded_call b (map (\<lambda>t. (t, True, t)) [111, 112])) = StateClosed"
    by (rule breaker_recovers [OF inv st(1)]) (simp_all add: st(2,3) small_config_def)
  with st(1) show ?thesis unfolding Let_def b_def [symmetric] by simp
qed

text \<open>The configuration \<^verbatim>\<open>cmd/server\<close> builds every breaker of the process with.\<close>

definition server_breaker_config :: breaker_config where
  "server_breaker_config = \<lparr>FailureThreshold = 5, SuccessThreshold = 2,
     OpenTimeout = 30 * second, HalfOpenRequests = 1\<rparr>"

lemma half_open_stuck:
  assumes "b_state b = StateHalfOpen" "HalfOpenRequests (b_cfg b) \<le> b_successes b"
  shows "foldl guarded_call b cs = b"
proof (induction cs)
  case (Cons c cs)
  have "guarded_call b c = b" using assms by (cases c) (simp add: Allow_def)
  with Cons show ?case by simp
qed simp

text \<open>
  C38. With the server's configuration (one probe, two required successes) a breaker whose first
  probe succeeds never admits another execution: after five failures, the open timeout and one
  successful call, every later call is refused, whatever its time, so no outcome can ever close or
  reopen it.
\<close>

theorem server_breaker_stuck_half_open:
  assumes "t0 + 30 * second \<le> t1"
  shows "let b = foldl guarded_call (breaker_run (New_breaker server_breaker_config)
              (replicate 5 (CallFailure t0))) ((t1, True, t1') # cs)
         in State b = StateHalfOpen \<and> (\<forall>t. \<not> fst (Allow t b))"
proof -
  let ?o = "breaker_run (New_breaker server_breaker_config) (replicate 5 (CallFailure t0))"
  have o: "b_state ?o = StateOpen" "b_openedAt ?o = t0" "b_cfg ?o = server_breaker_config"
    by (simp_all add: numeral_eq_Suc server_breaker_config_def New_breaker_def breaker_defs)
  let ?h = "guarded_call ?o (t1, True, t1')"
  have h: "b_state ?h = StateHalfOpen" "b_successes ?h = 1" "b_cfg ?h = server_breaker_config"
    using assms o by (auto simp: breaker_defs time_sub_def max_int64_def server_breaker_config_def)
  then have "foldl guarded_call ?o ((t1, True, t1') # cs) = ?h"
    using half_open_stuck [of ?h cs] by (simp add: server_breaker_config_def)
  with h show ?thesis by (simp add: Let_def State_def Allow_def server_breaker_config_def)
qed

theorem server_breaker_stuck_half_open_witness:
  "let b = foldl guarded_call (breaker_run (New_breaker server_breaker_config)
       (replicate 5 (CallFailure 0))) ((40 * second, True, 41 * second) # [(90 * second, True, 91 * second)])
   in State b = StateHalfOpen \<and> (\<forall>t. \<not> fst (Allow t b))"
  by (rule server_breaker_stuck_half_open [of 0]) simp

end
