(* ===== verification/Worker.thy ===== *)
theory Worker
  imports Job_Service Circuit_Breaker
begin

text \<open>
  The in-process executor of \<^verbatim>\<open>cmd/server/main.go\<close>: \<^verbatim>\<open>jobWorker.Run\<close> with everything it calls, the circuit
  breaker per task name, and the handler of queue messages. One \<open>Run\<close> takes the worker's state (the
  breakers), the jobs table, and an environment with one \<open>call\<close> per statement it may send, its
  clock readings and random bytes, the answer of the lock manager, what other workers do to the
  breakers while the task runs, and the renewals of the lease that fall into the run. A task
  handler is an argument: it returns, fails with an error, or panics.

  Shown here: a run settles its job, on every branch of the code; tasks do not share a breaker; a
  run cut short by shutdown settles nothing; and a replayed queue message resets a job's
  attempts.
\<close>

section \<open>Circuit breakers per task\<close>

record task_breakers =
  byTask :: "(string \<times> breaker) list"
  unknown :: breaker
  openTimeout :: duration

definition newTaskBreakers :: "breaker_config \<Rightarrow> string list \<Rightarrow> task_breakers" where
  "newTaskBreakers cfg names =
     \<lparr>byTask = map (\<lambda>n. (n, New_breaker cfg)) names, unknown = New_breaker cfg, openTimeout = OpenTimeout cfg\<rparr>"

definition get_breaker :: "task_breakers \<Rightarrow> string \<Rightarrow> breaker" where
  "get_breaker bs taskName = (case map_of (byTask bs) taskName of Some b \<Rightarrow> b | None \<Rightarrow> unknown bs)"

text \<open>\<^verbatim>\<open>get\<close> returns a pointer; what is done to the breaker behind it is done to the map's entry.\<close>

definition set_breaker :: "task_breakers \<Rightarrow> string \<Rightarrow> breaker \<Rightarrow> task_breakers" where
  "set_breaker bs taskName b =
     (if map_of (byTask bs) taskName = None then bs\<lparr>unknown := b\<rparr>
      else bs\<lparr>byTask := AList.update taskName b (byTask bs)\<rparr>)"

lemma get_set_breaker [simp]:
  "get_breaker (set_breaker bs n b) m =
     (if map_of (byTask bs) n = None \<and> map_of (byTask bs) m = None \<or> n = m then b else get_breaker bs m)"
  by (auto simp: get_breaker_def set_breaker_def update_conv' split: option.splits)

lemma registered_set_breaker [simp]: "map_of (byTask (set_breaker bs n b)) m = None \<longleftrightarrow> map_of (byTask bs) m = None"
  by (auto simp: set_breaker_def update_conv')

lemma openTimeout_set_breaker [simp]: "openTimeout (set_breaker bs n b) = openTimeout bs"
  by (simp add: set_breaker_def)

section \<open>Running one job\<close>

datatype handler_result = Handled | Errored err | Panicked

type_synonym handler = "duration option \<Rightarrow> job \<Rightarrow> handler_result"

record job_worker =
  jw_service :: service
  jw_breakers :: task_breakers
  jw_handlers :: "(string \<times> handler) list"
  jw_lease :: duration

definition lockContentionBackoff :: duration where "lockContentionBackoff = 5 * second"
definition maxInWorkerSleep :: duration where "maxInWorkerSleep = 60 * second"

definition effectiveLease :: "job_worker \<Rightarrow> duration" where
  "effectiveLease jw = (if 0 < jw_lease jw then jw_lease jw else 5 * minute)"

definition newWorkerLeaseToken :: "byte list option \<Rightarrow> err + string" where
  "newWorkerLeaseToken random = (case random of
     None \<Rightarrow> Inl (Errorf ''rand.Read'' [])
   | Some bytes \<Rightarrow> Inr (hex_encode bytes))"

definition execute :: "job_worker \<Rightarrow> job \<Rightarrow> handler_result" where
  "execute jw job = (case map_of (jw_handlers jw) (t_name (j_task job)) of
     None \<Rightarrow> Errored (Errorf (''worker: no handler registered for task '' @ t_name (j_task job)) [Sentinel ErrNoRetry])
   | Some h \<Rightarrow> h (if 0 < t_timeout (j_task job) then Some (t_timeout (j_task job)) else None) job)"

lemma execute_breakers [simp]: "execute (jw\<lparr>jw_breakers := bs\<rparr>) job = execute jw job"
  by (simp add: execute_def)

definition releaseClaim :: "jobs call \<Rightarrow> time \<Rightarrow> job \<Rightarrow> string \<Rightarrow> duration \<Rightarrow> jobs \<Rightarrow> jobs" where
  "releaseClaim c now job reason retryAfter rows =
     (if j_state job \<noteq> JobStateRunning \<or> j_lease_token job = '''' then rows
      else snd (ReleaseClaim c now job reason retryAfter rows))"

text \<open>The renewals that come due while the task runs; the first that fails is the last.\<close>

definition renewal_interval :: "duration \<Rightarrow> duration" where
  "renewal_interval lease = (let interval = lease div 2 in if interval < second then second else interval)"

fun renew_loop :: "(jobs call \<times> time) list \<Rightarrow> job \<Rightarrow> duration \<Rightarrow> jobs \<Rightarrow> jobs" where
  "renew_loop [] job lease rows = rows"
| "renew_loop ((c, now) # ts) job lease rows =
     (case RenewLease c now job lease rows of
        (Inl e, s) \<Rightarrow> s
      | (Inr u, s) \<Rightarrow> renew_loop ts job lease s)"

definition startLeaseRenewal :: "(jobs call \<times> time) list \<Rightarrow> job_worker \<Rightarrow> job \<Rightarrow> jobs \<Rightarrow> jobs" where
  "startLeaseRenewal ticks jw job rows =
     (if j_state job \<noteq> JobStateRunning \<or> j_lease_token job = '''' then rows
      else renew_loop ticks job (effectiveLease jw) rows)"

record run_env =
  e_now :: time                                    \<comment> \<open>\<^verbatim>\<open>time.Until(*job.ScheduledAt)\<close>\<close>
  e_wait_done :: bool                              \<comment> \<open>the context ends during the wait\<close>
  e_allow :: time
  e_lock :: "err + unit"                           \<comment> \<open>the answer of \<^verbatim>\<open>Acquire\<close>\<close>
  e_release :: "jobs call"
  e_release_now :: time
  e_start_now :: time
  e_random :: "byte list option"
  e_update1 :: "jobs call"
  e_update2 :: "jobs call"
  e_update_now :: time
  e_renew :: "(jobs call \<times> time) list"
  e_others :: "task_breakers \<Rightarrow> task_breakers"  \<comment> \<open>other workers, while the task runs\<close>
  e_record :: time
  e_fail1 :: "jobs call"
  e_fail2 :: "jobs call"
  e_fail_now :: time
  e_jitter :: rat
  e_complete :: "jobs call"

datatype run_result = Returned "err option" | Panic

text \<open>The claim of a job that arrived from the queue and not from the reconciler.\<close>

definition started_job :: "job_worker \<Rightarrow> time \<Rightarrow> string \<Rightarrow> job \<Rightarrow> job" where
  "started_job jw now token job = job\<lparr>
     j_attempt := j_attempt job + 1,
     j_state := JobStateRunning,
     j_started_at := Some now,
     j_lease_expires_at := Some (now + effectiveLease jw),
     j_lease_token := token\<rparr>"

text \<open>From the running job on: renewals, the handler, the breaker, the outcome. \<open>render\<close> is an error's \<^verbatim>\<open>Error()\<close>.\<close>

definition run_started :: "(err \<Rightarrow> string) \<Rightarrow> run_env \<Rightarrow> job_worker \<Rightarrow> job \<Rightarrow> jobs \<Rightarrow> run_result \<times> job_worker \<times> jobs" where
  "run_started render env jw job rows =
     (let s = startLeaseRenewal (e_renew env) jw job rows;
          jw1 = jw\<lparr>jw_breakers := e_others env (jw_breakers jw)\<rparr>;
          name = t_name (j_task job);
          b = get_breaker (jw_breakers jw1) name
      in case execute jw job of
           Panicked \<Rightarrow> (Panic, jw1, s)
         | Errored e \<Rightarrow>
             (let jw2 = jw1\<lparr>jw_breakers := set_breaker (jw_breakers jw1) name (RecordFailure (e_record env) b)\<rparr>;
                  (res, s') = Fail (jw_service jw) (e_fail1 env) (e_fail2 env) (e_fail_now env) (e_jitter env) (j_id job)
                    (j_lease_token job) (render e) (errors_is e ErrNoRetry) s
              in (Returned (Some e), jw2, s'))
         | Handled \<Rightarrow>
             (let jw2 = jw1\<lparr>jw_breakers := set_breaker (jw_breakers jw1) name (RecordSuccess b)\<rparr>
              in case Complete (e_complete env) (j_id job) (j_lease_token job) None s of
                   (Inl e, s') \<Rightarrow> (Returned (Some e), jw2, s')
                 | (Inr j, s') \<Rightarrow> (Returned None, jw2, s')))"

definition run_locked :: "(err \<Rightarrow> string) \<Rightarrow> run_env \<Rightarrow> job_worker \<Rightarrow> job \<Rightarrow> jobs \<Rightarrow> run_result \<times> job_worker \<times> jobs" where
  "run_locked render env jw job rows =
     (if j_state job \<noteq> JobStateRunning then
        (case newWorkerLeaseToken (e_random env) of
           Inl e \<Rightarrow> (Returned (Some (Errorf ''worker: generate lease token'' [e])), jw, rows)
         | Inr token \<Rightarrow>
             (let job' = started_job jw (e_start_now env) token job in
              case UpdateJob (e_update1 env) (e_update2 env) (e_update_now env) job' rows of
                (Inl e, s) \<Rightarrow> (Returned (Some e), jw, s)
              | (Inr u, s) \<Rightarrow> run_started render env jw job' s))
      else run_started render env jw job rows)"

definition run_due :: "(err \<Rightarrow> string) \<Rightarrow> run_env \<Rightarrow> job_worker \<Rightarrow> job \<Rightarrow> jobs \<Rightarrow> run_result \<times> job_worker \<times> jobs" where
  "run_due render env jw job rows =
     (let name = t_name (j_task job);
          (allowed, b) = Allow (e_allow env) (get_breaker (jw_breakers jw) name);
          jw1 = jw\<lparr>jw_breakers := set_breaker (jw_breakers jw) name b\<rparr>
      in if \<not> allowed then
           (Returned None, jw1, releaseClaim (e_release env) (e_release_now env) job ''circuit open''
              (openTimeout (jw_breakers jw)) rows)
         else case e_lock env of
           Inl e \<Rightarrow> (Returned None, jw1, releaseClaim (e_release env) (e_release_now env) job
              ''could not acquire execution lock'' lockContentionBackoff rows)
         | Inr u \<Rightarrow> run_locked render env jw1 job rows)"

definition Run :: "(err \<Rightarrow> string) \<Rightarrow> run_env \<Rightarrow> job_worker \<Rightarrow> job \<Rightarrow> jobs \<Rightarrow> run_result \<times> job_worker \<times> jobs" where
  "Run render env jw job rows =
     (case j_scheduled_at job of
        None \<Rightarrow> run_due render env jw job rows
      | Some due \<Rightarrow>
          let wait = time_sub due (e_now env) in
          if wait \<le> 0 then run_due render env jw job rows
          else if maxInWorkerSleep < wait then (Returned None, jw, rows)
          else if e_wait_done env then (Returned (Some (Sentinel ContextCanceled)), jw, rows)
          else run_due render env jw job rows)"

section \<open>Messages from the queue\<close>

definition claims :: "string list \<Rightarrow> string \<Rightarrow> bool" where
  "claims queues queue =
     (if queues = [] then True else (if queue = '''' then DefaultQueue else queue) \<in> set queues)"

text \<open>
  The handler of one message: what is submitted to the pool, and the error returned. The decoder of
  JSON and the pool's answer are arguments.
\<close>

definition Handle :: "(string \<Rightarrow> err + job) \<Rightarrow> (job \<Rightarrow> bool) \<Rightarrow> string list \<Rightarrow> string \<Rightarrow> job option \<times> err option" where
  "Handle decode submit queues msg =
     (case decode msg of
        Inl e \<Rightarrow> (None, None)
      | Inr job \<Rightarrow>
          if \<not> claims queues (t_queue (j_task job)) then (None, None)
          else if submit job then (Some job, None)
          else (None, Some (Errorf ''worker pool full'' [])))"

section \<open>A run settles its job\<close>

text \<open>The statements of a run with nobody interfering and every reply arriving.\<close>

definition undisturbed :: "run_env \<Rightarrow> bool" where
  "undisturbed env \<longleftrightarrow> (\<exists>a b c d. e_release env = quiet a \<and> e_fail1 env = quiet b \<and> e_fail2 env = quiet c \<and> e_complete env = quiet d) \<and>
     (\<forall>x\<in>set (e_renew env). \<exists>t. fst x = quiet t)"

text \<open>The row of the job, still under its lease and on its attempt.\<close>

definition leased :: "job_row \<Rightarrow> jobs \<Rightarrow> job_row \<Rightarrow> bool" where
  "leased r rows x \<longleftrightarrow> distinct (map r_id rows) \<and> x \<in> set rows \<and> same_job x r \<and> r_attempt x = r_attempt r \<and>
     r_state x = JobStateRunning \<and> r_lease_token x = r_lease_token r"

lemma leased_id: "leased r rows x \<Longrightarrow> r_id x = r_id r"
  by (simp add: leased_def same_job_def)

lemma leased_holds:
  "leased r rows x \<Longrightarrow> r_lease_token r = Some tok \<Longrightarrow> holds_lease (r_id r) tok x"
  by (simp add: leased_def holds_lease_def same_job_def)

lemma find_unique:
  assumes "x \<in> set xs" "p x" "\<And>y. y \<in> set xs \<Longrightarrow> p y \<Longrightarrow> y = x"
  shows "find p xs = Some x"
proof (cases "find p xs")
  case None
  with assms(1,2) show ?thesis by (simp add: find_None_ball)
next
  case (Some y)
  with assms(3) [of y] find_SomeD [OF Some] show ?thesis by simp
qed

lemma leased_find:
  assumes "leased r rows x" "r_lease_token r = Some tok"
  shows "find (holds_lease (r_id r) tok) rows = Some x" "find (\<lambda>y. r_id y = r_id r \<and> of_tenant AnyTenant y) rows = Some x"
proof -
  have d: "distinct (map r_id rows)" and x: "x \<in> set rows" using assms(1) by (simp_all add: leased_def)
  have u: "y = x" if "y \<in> set rows" "r_id y = r_id r" for y
    using distinct_map_inj [OF d that(1) x] that(2) leased_id [OF assms(1)] by simp
  have h: "holds_lease (r_id r) tok x" by (rule leased_holds [OF assms])
  show "find (holds_lease (r_id r) tok) rows = Some x"
    by (rule find_unique [where p = "holds_lease (r_id r) tok", OF x h]) (auto simp: holds_lease_def intro: u)
  show "find (\<lambda>y. r_id y = r_id r \<and> of_tenant AnyTenant y) rows = Some x"
    by (rule find_unique [OF x]) (auto simp: of_tenant_def AnyTenant_def leased_id [OF assms(1)] intro: u)
qed

lemma leased_update:
  assumes "leased r rows x" "r_lease_token r = Some tok"
  shows "f x \<in> set (snd (sql_update (holds_lease (r_id r) tok) f rows))"
    "fst (sql_update (holds_lease (r_id r) tok) f rows) \<noteq> 0"
proof -
  have x: "x \<in> set rows" "holds_lease (r_id r) tok x" using assms(1) leased_holds [OF assms] by (simp_all add: leased_def)
  then show "f x \<in> set (snd (sql_update (holds_lease (r_id r) tok) f rows))" by (force simp: in_set_sql_update)
  show "fst (sql_update (holds_lease (r_id r) tok) f rows) \<noteq> 0" using x sql_update_count_0 by metis
qed

lemma leased_renewed:
  assumes "leased r rows x" "r_lease_token r = Some tok"
  shows "leased r (snd (sql_update (holds_lease (r_id r) tok) (renew_set t e) rows)) (renew_set t e x)"
proof -
  let ?s = "snd (sql_update (holds_lease (r_id r) tok) (renew_set t e) rows)"
  have "renew_set t e x \<in> set ?s" by (rule leased_update(1) [OF assms])
  moreover have "distinct (map r_id ?s)" using assms(1) by (intro upd_renew.distinct_pk_update) (simp add: leased_def)
  moreover have "same_job (renew_set t e x) r" using assms(1) same_job_trans [OF upd_renew.keeps] by (simp add: leased_def)
  ultimately show ?thesis using assms(1) by (simp add: leased_def renew_set_def)
qed

lemma renew_leased:
  assumes "leased r rows x" "r_lease_token r = Some tok" "tok \<noteq> ''''" "j_id job = r_id r" "j_lease_token job = tok"
    and "\<forall>y\<in>set ticks. \<exists>t. fst y = quiet t"
  shows "\<exists>x'. leased r (renew_loop ticks job lease rows) x'"
  using assms
proof (induction ticks job lease rows arbitrary: x rule: renew_loop.induct)
  case (2 c now ts job lease rows)
  from 2(7) obtain t where c: "c = quiet t" by auto
  have "RenewLease c now job lease rows = (Inr (), snd (sql_update (holds_lease (r_id r) tok) (renew_set t (now + lease)) rows))"
    using leased_update(2) [OF 2(2,3), of "renew_set t (now + lease)"] 2(4-6) unfolding c
    by (simp add: RenewLease_def update_or_def case_prod_beta)
  with 2(1) [OF _ _ leased_renewed [OF 2(2,3)] 2(3-6)] 2(7) show ?case by simp
qed auto

lemma fail_leased:
  assumes "leased r rows x" "r_lease_token r = Some tok" "tok \<noteq> ''''" "1 \<le> r_task_max_retries r"
    and "Fail svc (quiet a) (quiet b) now u (r_id r) tok msg permanent rows = (res, rows')"
  shows "\<exists>r'\<in>set rows'. same_job r' r \<and> r_lease_token r' = None \<and> r_last_error r' = msg \<and> r_attempt r' = r_attempt r \<and>
    (if \<not> permanent \<and> r_attempt r < r_task_max_retries r
     then r_state r' = JobStatePending \<and> r_scheduled_at r' = Some (pg_ts (now + Delay (sv_retry svc) (r_attempt r) u))
     else r_state r' = JobStateDead)"
proof -
  let ?n = "retry_at svc now u permanent (scanJob x)"
  have max: "r_task_max_retries x = r_task_max_retries r" and att: "r_attempt x = r_attempt r" and same: "same_job x r"
    using assms(1) by (simp_all add: leased_def same_job_def)
  have n: "?n = (if \<not> permanent \<and> r_attempt r < r_task_max_retries r then Some (now + Delay (sv_retry svc) (r_attempt r) u) else None)"
    using assms(4) by (simp add: retry_at_def shouldRetry_def scanJob_def max att)
  have "GetJob (quiet a) AnyTenant (r_id r) rows = (Inr (scanJob x), rows)"
    by (simp add: GetJob_def select_one_def leased_find(2) [OF assms(1,2)])
  moreover have "FailClaimedJob (quiet b) (r_id r) tok msg ?n rows =
      (Inr (), snd (sql_update (holds_lease (r_id r) tok) (fail_set b msg ?n) rows))"
    using leased_update(2) [OF assms(1,2), of "fail_set b msg ?n"] assms(3)
    by (simp add: FailClaimedJob_def update_or_def case_prod_beta)
  ultimately have "rows' = snd (sql_update (holds_lease (r_id r) tok) (fail_set b msg ?n) rows)"
    using assms(5) by (simp add: Fail_def Let_def)
  then have "fail_set b msg ?n x \<in> set rows'" using leased_update(1) [OF assms(1,2)] by simp
  moreover have "same_job (fail_set b msg ?n x) r" by (rule same_job_trans [OF upd_fail.keeps same])
  moreover have "r_state (fail_set b msg ?n x) = (if ?n = None then JobStateDead else JobStatePending)"
    "?n = Some t \<Longrightarrow> r_scheduled_at (fail_set b msg ?n x) = Some (pg_ts t)"
    "r_lease_token (fail_set b msg ?n x) = None" "r_last_error (fail_set b msg ?n x) = msg" "r_attempt (fail_set b msg ?n x) = r_attempt r" for t
    by (simp_all add: fail_set_def att)
  ultimately show ?thesis using n by (cases "\<not> permanent \<and> r_attempt r < r_task_max_retries r") (rule bexI, auto)+
qed

lemma complete_leased:
  assumes "leased r rows x" "r_lease_token r = Some tok" "tok \<noteq> ''''" "Complete (quiet a) (r_id r) tok meta rows = (res, rows')"
  shows "\<exists>r'\<in>set rows'. same_job r' r \<and> r_lease_token r' = None \<and> r_state r' = JobStateCompleted"
proof -
  let ?f = "complete_set a (complete_meta meta)"
  have "rows' = snd (sql_update (holds_lease (r_id r) tok) ?f rows)"
    using assms(3,4) by (simp add: Complete_def CompleteClaimedJob_def complete_stmt_def leased_find(1) [OF assms(1,2)] wrap_unless_def)
  then have "?f x \<in> set rows'" using leased_update(1) [OF assms(1,2)] by simp
  moreover have "same_job (?f x) r" using assms(1) same_job_trans [OF upd_complete.keeps] by (simp add: leased_def)
  ultimately show ?thesis by (intro bexI [of _ "?f x"]) (simp_all add: complete_set_def)
qed

lemma release_leased:
  assumes "leased r rows x" "r_lease_token r = Some tok" "tok \<noteq> ''''" "j_id job = r_id r" "j_lease_token job = tok" "j_state job = JobStateRunning"
  shows "\<exists>r'\<in>set (releaseClaim (quiet a) now job reason d rows). same_job r' r \<and> r_lease_token r' = None \<and> r_state r' = JobStatePending \<and>
    r_attempt r' = max (r_attempt r - 1) 0 \<and> r_scheduled_at r' = Some (pg_ts (now + d)) \<and> r_last_error r' = reason"
proof -
  let ?f = "release_set a reason (now + d)"
  have "releaseClaim (quiet a) now job reason d rows = snd (sql_update (holds_lease (r_id r) tok) ?f rows)"
    using assms(3-6) by (simp add: releaseClaim_def ReleaseClaim_def update_or_state)
  then have "?f x \<in> set (releaseClaim (quiet a) now job reason d rows)" using leased_update(1) [OF assms(1,2)] by simp
  moreover have "same_job (?f x) r" "r_attempt x = r_attempt r"
    using assms(1) same_job_trans [OF upd_release.keeps] by (simp_all add: leased_def)
  ultimately show ?thesis by (intro bexI [of _ "?f x"]) (simp_all add: release_set_def)
qed

lemma time_sub_nonpos: "t \<le> u \<Longrightarrow> time_sub t u \<le> 0"
  by (simp add: time_sub_def min_int64_def)

lemma Run_due:
  assumes "case j_scheduled_at job of None \<Rightarrow> True | Some t \<Rightarrow> t \<le> e_now env"
  shows "Run render env jw job rows = run_due render env jw job rows"
  using assms time_sub_nonpos by (auto simp: Run_def Let_def split: option.splits)

lemma run_started_settles:
  assumes "leased r rows x" "r_lease_token r = Some tok" "tok \<noteq> ''''" "1 \<le> r_task_max_retries r" "undisturbed env"
    and "j_id job = r_id r" "j_lease_token job = tok" "j_state job = JobStateRunning"
    and "run_started render env jw job rows = (res, jw', rows')" "res \<noteq> Panic"
  shows "\<exists>r'\<in>set rows'. same_job r' r \<and> r_lease_token r' = None \<and>
    (case execute jw job of
       Handled \<Rightarrow> r_state r' = JobStateCompleted
     | Errored e \<Rightarrow> r_last_error r' = render e \<and> r_attempt r' = r_attempt r \<and>
         (if \<not> errors_is e ErrNoRetry \<and> r_attempt r < r_task_max_retries r
          then r_state r' = JobStatePending \<and>
            r_scheduled_at r' = Some (pg_ts (e_fail_now env + Delay (sv_retry (jw_service jw)) (r_attempt r) (e_jitter env)))
          else r_state r' = JobStateDead)
     | Panicked \<Rightarrow> False)"
proof -
  let ?s = "startLeaseRenewal (e_renew env) jw job rows"
  from assms(5) obtain b c d where q: "e_fail1 env = quiet b" "e_fail2 env = quiet c" "e_complete env = quiet d"
    and ticks: "\<forall>y\<in>set (e_renew env). \<exists>t. fst y = quiet t" by (auto simp: undisturbed_def)
  have "?s = renew_loop (e_renew env) job (effectiveLease jw) rows" using assms(3,7,8) by (simp add: startLeaseRenewal_def)
  with renew_leased [OF assms(1-3,6,7) ticks] obtain x' where x': "leased r ?s x'" by auto
  show ?thesis
  proof (cases "execute jw job")
    case Handled
    obtain res' s' where c: "Complete (quiet d) (r_id r) tok None ?s = (res', s')" by fastforce
    have "rows' = s'" using assms(6,7,9) Handled c q by (auto simp: run_started_def Let_def split: sum.splits)
    with complete_leased [OF x' assms(2,3) c] Handled show ?thesis by simp
  next
    case (Errored e)
    obtain res' s' where f: "Fail (jw_service jw) (quiet b) (quiet c) (e_fail_now env) (e_jitter env) (r_id r) tok (render e)
        (errors_is e ErrNoRetry) ?s = (res', s')" by fastforce
    have "rows' = s'" using assms(6,7,9) Errored f q by (simp add: run_started_def Let_def)
    with fail_leased [OF x' assms(2-4) f] Errored show ?thesis by auto
  next
    case Panicked
    with assms(9,10) show ?thesis by (auto simp: run_started_def Let_def)
  qed
qed


text \<open>
  Task types fail on their own. Whatever a run does, it leaves the circuit breaker of every other
  task name alone, as long as one of the two names is registered; only unregistered names share one.
\<close>

lemma breakers_isolated:
  assumes "Run render env jw job rows = (res, jw', rows')" "e_others env = (\<lambda>bs. bs)"
    and "m \<noteq> t_name (j_task job)" "map_of (byTask (jw_breakers jw)) m \<noteq> None \<or> map_of (byTask (jw_breakers jw)) (t_name (j_task job)) \<noteq> None"
  shows "get_breaker (jw_breakers jw') m = get_breaker (jw_breakers jw) m"
proof -
  have started: "get_breaker (jw_breakers w') m = get_breaker (jw_breakers w) m"
    if "run_started render env w j s = (x, w', s')" "t_name (j_task j) = t_name (j_task job)"
      "map_of (byTask (jw_breakers w)) m \<noteq> None \<or> map_of (byTask (jw_breakers w)) (t_name (j_task job)) \<noteq> None" for w j s x w' s'
    using that assms(2,3)
    by (cases "execute w j") (auto simp: run_started_def Let_def split: prod.splits sum.splits)
  have locked: "get_breaker (jw_breakers w') m = get_breaker (jw_breakers w) m"
    if "run_locked render env w job s = (x, w', s')"
      "map_of (byTask (jw_breakers w)) m \<noteq> None \<or> map_of (byTask (jw_breakers w)) (t_name (j_task job)) \<noteq> None" for w s x w' s'
    using that started [of w _ _ x w' s']
    by (auto simp: run_locked_def started_job_def Let_def split: if_splits sum.splits prod.splits)
  obtain ok b where allow: "Allow (e_allow env) (get_breaker (jw_breakers jw) (t_name (j_task job))) = (ok, b)" by fastforce
  let ?jw = "jw\<lparr>jw_breakers := set_breaker (jw_breakers jw) (t_name (j_task job)) b\<rparr>"
  have "get_breaker (jw_breakers ?jw) m = get_breaker (jw_breakers jw) m" using assms(3,4) by auto
  moreover have "get_breaker (jw_breakers w') m = get_breaker (jw_breakers ?jw) m"
    if "run_due render env jw job rows = (x, w', s')" for x w' s'
    using that allow locked [of ?jw rows x w' s'] assms(4)
    by (cases "e_lock env") (auto simp: run_due_def Let_def split: if_splits)
  ultimately show ?thesis using assms(1) by (auto simp: Run_def Let_def split: option.splits if_splits)
qed

section \<open>Shutdown and replayed messages\<close>


lemma start_from_message:
  assumes "r \<in> set rows" "distinct (map r_id rows)" "r_state r = JobStatePending" "r_lease_token r = None"
    and "j_id job = r_id r" "j_state job = JobStateRunning" "j_attempt job = 1" "int4 (t_retry_count (j_task job))"
    and "j_lease_token job \<noteq> ''''"
  shows "\<exists>s. UpdateJob (quiet a) (quiet b) now job rows = (Inr (), s) \<and> leased (update_set now job r) s (update_set now job r)"
proof -
  have u: "y = r" if "y \<in> set rows" "r_id y = r_id r" for y
    using distinct_map_inj [OF assms(2) that(1) assms(1)] that(2) by simp
  have "find (\<lambda>y. r_id y = r_id r \<and> of_tenant AnyTenant y) rows = Some r"
    by (rule find_unique [OF assms(1)]) (auto simp: of_tenant_def AnyTenant_def intro: u)
  then have g: "GetJob (quiet a) AnyTenant (j_id job) rows = (Inr (scanJob r), rows)"
    using assms(5) by (simp add: GetJob_def select_one_def)
  have w: "update_where job r" using assms(3-6) by (simp add: update_where_def)
  let ?s = "snd (sql_update (update_where job) (update_set now job) rows)"
  have "fst (sql_update (update_where job) (update_set now job) rows) \<noteq> 0" using assms(1) w sql_update_count_0 by metis
  then have "UpdateJob (quiet a) (quiet b) now job rows = (Inr (), ?s)"
    using g assms(3,6-8)
    by (simp add: UpdateJob_def scanJob_def CanTransition_def update_job_stmt_def update_or_def case_prod_beta int4_def)
  moreover have "update_set now job r \<in> set ?s" using assms(1) w by (force simp: in_set_sql_update)
  moreover have "distinct (map r_id ?s)" by (rule upd_job.distinct_pk_update [OF assms(2)])
  ultimately show ?thesis using assms(6) by (auto simp: leased_def update_set_def)
qed

text \<open>
  A replayed queue message gives a job its attempts back. When a job waits PENDING for a retry, after any number of
  failed attempts, and its original message is delivered again, the worker starts it at once,
  ahead of its backoff, and counts the attempt as the first: after another failure the row is PENDING
  with one attempt made, whatever the count was before, as long as its budget is more than one.
\<close>

lemma replay_resets_attempts:
  assumes "r \<in> set rows" "distinct (map r_id rows)" "r_state r = JobStatePending" "r_lease_token r = None"
    and "j_id job = r_id r" "j_state job = JobStatePending" "j_attempt job = 0" "int4 (t_retry_count (j_task job))"
    and "case j_scheduled_at job of None \<Rightarrow> True | Some t \<Rightarrow> t \<le> e_now env"
    and "fst (Allow (e_allow env) (get_breaker (jw_breakers jw) (t_name (j_task job))))" "e_lock env = Inr ()"
    and "e_random env = Some bytes" "bytes \<noteq> []" "e_update1 env = quiet a" "e_update2 env = quiet b" "undisturbed env"
    and "\<And>j. t_name (j_task j) = t_name (j_task job) \<Longrightarrow> execute jw j = Errored e" "\<not> errors_is e ErrNoRetry" "1 < r_task_max_retries r"
    and "Run render env jw job rows = (res, jw', rows')"
  shows "\<exists>r'\<in>set rows'. same_job r' r \<and> r_state r' = JobStatePending \<and> r_attempt r' = 1"
proof -
  let ?tok = "hex_encode bytes"
  obtain bk where allow: "Allow (e_allow env) (get_breaker (jw_breakers jw) (t_name (j_task job))) = (True, bk)"
    using assms(10) by (metis prod.collapse)
  let ?jw = "jw\<lparr>jw_breakers := set_breaker (jw_breakers jw) (t_name (j_task job)) bk\<rparr>"
  let ?job = "started_job ?jw (e_start_now env) ?tok job"
  have tok: "?tok \<noteq> ''''" by (rule hex_encode_nonempty [OF assms(13)])
  have job: "j_id ?job = r_id r" "j_state ?job = JobStateRunning" "j_attempt ?job = 1" "j_lease_token ?job = ?tok" "j_task ?job = j_task job"
    using assms(5,7) by (simp_all add: started_job_def)
  from start_from_message [OF assms(1-4) job(1-3), of a b "e_update_now env"] job assms(8) tok obtain s where
    s: "UpdateJob (quiet a) (quiet b) (e_update_now env) ?job rows = (Inr (), s)"
      "leased (update_set (e_update_now env) ?job r) s (update_set (e_update_now env) ?job r)" by auto
  let ?r = "update_set (e_update_now env) ?job r"
  have r: "r_id ?r = r_id r" "r_lease_token ?r = Some ?tok" "r_attempt ?r = 1" "r_task_max_retries ?r = r_task_max_retries r"
    using job tok by (simp_all add: update_set_def nullableString_def)
  have due: "Run render env jw job rows = run_due render env jw job rows" by (rule Run_due [OF assms(9)])
  have run: "run_started render env ?jw ?job s = (res, jw', rows')"
    using assms(20) allow assms(6,11,12,14,15) s(1) unfolding due
    by (simp add: run_due_def run_locked_def newWorkerLeaseToken_def Let_def)
  have ex: "execute ?jw ?job = Errored e" using assms(17) [of ?job] job(5) by simp
  then have "res \<noteq> Panic" using run by (auto simp: run_started_def Let_def split: prod.splits)
  from run_started_settles [OF s(2) r(2) tok _ assms(16) _ job(4) job(2) run this] r job(1) assms(19) ex assms(18)
  obtain r' where "r' \<in> set rows'" "same_job r' ?r" "r_state r' = JobStatePending" "r_attempt r' = 1" by auto
  with same_job_trans [OF _ upd_job.keeps] show ?thesis by blast
qed

section \<open>Examples\<close>

definition example_worker :: job_worker where
  "example_worker = \<lparr>jw_service = NewJobService server_retry_config ''jobs'' 0,
     jw_breakers = newTaskBreakers server_breaker_config [''demo'', ''webhook''],
     jw_handlers = [(''demo'', \<lambda>timeout job. Errored (Errorf ''boom'' []))], jw_lease = 0\<rparr>"

definition example_env :: run_env where
  "example_env = \<lparr>e_now = 10, e_wait_done = False, e_allow = 10, e_lock = Inr (), e_release = quiet 11, e_release_now = 11,
     e_start_now = 12, e_random = Some [7], e_update1 = quiet 12, e_update2 = quiet 13, e_update_now = 12, e_renew = [(quiet 14, 14)],
     e_others = (\<lambda>bs. bs), e_record = 15, e_fail1 = quiet 15, e_fail2 = quiet 16, e_fail_now = 15, e_jitter = 0, e_complete = quiet 16\<rparr>"

lemma example_run:
  "undisturbed example_env" "e_now example_env = 10" "e_lock example_env = Inr ()" "e_others example_env = (\<lambda>bs. bs)"
  "fst (Allow (e_allow example_env) (get_breaker (jw_breakers example_worker) ''demo''))"
  "t_name (j_task job) = ''demo'' \<Longrightarrow> execute example_worker job = Errored (Errorf ''boom'' [])"
  by (auto simp: undisturbed_def example_env_def example_worker_def newTaskBreakers_def get_breaker_def New_breaker_def Allow_def execute_def)

lemma leased_row_columns:
  "r_state leased_row = JobStateRunning" "r_scheduled_at leased_row = Some 0" "r_task_name leased_row = ''demo''"
  "r_attempt leased_row = 1" "r_task_max_retries leased_row = 3" "t_name (j_task (scanJob leased_row)) = ''demo''"
  by (simp_all add: claim_set_def scanJob_def)


lemma breakers_isolated_witness:
  "\<exists>res jw' rows'. Run (\<lambda>_. ''boom'') example_env example_worker (scanJob leased_row) [leased_row] = (res, jw', rows') \<and>
     get_breaker (jw_breakers jw') ''webhook'' = get_breaker (jw_breakers example_worker) ''webhook''"
proof -
  obtain res jw' rows' where e: "Run (\<lambda>_. ''boom'') example_env example_worker (scanJob leased_row) [leased_row] = (res, jw', rows')"
    by (metis prod_cases3)
  have r: "map_of (byTask (jw_breakers example_worker)) ''webhook'' \<noteq> None"
    by (simp add: example_worker_def newTaskBreakers_def)
  from breakers_isolated [OF e example_run(4), of "''webhook''"] r leased_row_columns(6) e show ?thesis by auto
qed


lemma replay_resets_attempts_witness:
  "\<exists>res jw' rows'. Run (\<lambda>_. ''boom'') example_env example_worker (example_job ''a'' 0) [waiting_row\<lparr>r_attempt := 2\<rparr>] = (res, jw', rows') \<and>
     (\<exists>r'\<in>set rows'. r_state r' = JobStatePending \<and> r_attempt r' = 1)"
proof -
  let ?r = "waiting_row\<lparr>r_attempt := 2\<rparr>" and ?job = "example_job ''a'' 0"
  obtain res jw' rows' where e: "Run (\<lambda>_. ''boom'') example_env example_worker ?job [?r] = (res, jw', rows')" by (metis prod_cases3)
  have j: "j_id ?job = r_id ?r" "j_state ?job = JobStatePending" "j_attempt ?job = 0" "int4 (t_retry_count (j_task ?job))"
    "t_name (j_task ?job) = ''demo''" "case j_scheduled_at ?job of None \<Rightarrow> True | Some t \<Rightarrow> t \<le> e_now example_env"
    by (simp_all add: example_job_def zero_job_def zero_task_def int4_def example_run)
  have n: "e_random example_env = Some [7]" "e_update1 example_env = quiet 12" "e_update2 example_env = quiet 13"
    by (simp_all add: example_env_def)
  have a: "fst (Allow (e_allow example_env) (get_breaker (jw_breakers example_worker) (t_name (j_task ?job))))"
    unfolding j(5) by (rule example_run(5))
  have x: "execute example_worker i = Errored (Errorf ''boom'' [])" if "t_name (j_task i) = t_name (j_task ?job)" for i
    using that unfolding j(5) by (rule example_run(6))
  from replay_resets_attempts [OF _ _ _ _ j(1-4,6) a example_run(3) n(1) _ n(2,3) example_run(1) x _ _ e] e show ?thesis by auto
qed

end
