(* ===== verification/Pool.thy ===== *)
theory Pool
  imports Models "HOL-Library.Multiset"
begin

text \<open>
  \<^verbatim>\<open>internal/worker/pool.go\<close>: the bounded worker pool. Its state is the buffered channel of jobs, the job
  the dispatcher goroutine has taken off it and holds while it waits for the semaphore, the jobs that are
  running (one semaphore slot and one goroutine each), and the flags for a closed channel and a
  cancelled context. \<open>pool_step\<close> is one atomic step of any of the goroutines involved: callers of
  \<^verbatim>\<open>Submit\<close> and \<^verbatim>\<open>SubmitBlocking\<close>, the dispatcher, the workers, \<^verbatim>\<open>Stop\<close>. The jobs accepted and the jobs
  finished are kept as history.

  Shown here: concurrency and queue stay within their bounds in every interleaving, no accepted job is
  lost or run twice, and once \<^verbatim>\<open>Stop\<close> has returned without a cancelled context all of them have run.
\<close>

record pool_config =
  Concurrency :: nat
  QueueSize :: nat

record pool =
  p_cfg :: pool_config
  p_queue :: "job list"
  p_held :: "job option"
  p_running :: "job list"
  p_loop :: bool            \<comment> \<open>the dispatcher goroutine is alive\<close>
  p_closed :: bool          \<comment> \<open>\<^verbatim>\<open>close(p.jobs)\<close> has happened\<close>
  p_cancelled :: bool       \<comment> \<open>the context is done\<close>
  p_crashed :: bool         \<comment> \<open>a send on the closed channel has brought the process down\<close>
  p_accepted :: "job list"
  p_finished :: "job list"

definition NewPool :: "pool_config \<Rightarrow> pool" where
  "NewPool cfg = \<lparr>p_cfg = cfg, p_queue = [], p_held = None, p_running = [], p_loop = False, p_closed = False,
     p_cancelled = False, p_crashed = False, p_accepted = [], p_finished = []\<rparr>"

definition Start_pool :: "pool \<Rightarrow> pool" where
  "Start_pool p = p\<lparr>p_loop := True\<rparr>"

text \<open>The send on the channel: into the buffer, or straight to the dispatcher when there is no buffer.\<close>

definition idle :: "pool \<Rightarrow> bool" where
  "idle p \<longleftrightarrow> p_loop p \<and> p_held p = None \<and> \<not> p_cancelled p"

definition room :: "pool \<Rightarrow> bool" where
  "room p \<longleftrightarrow> length (p_queue p) < QueueSize (p_cfg p) \<or> QueueSize (p_cfg p) = 0 \<and> idle p"

definition send :: "job \<Rightarrow> pool \<Rightarrow> pool" where
  "send job p = (if length (p_queue p) < QueueSize (p_cfg p) then p\<lparr>p_queue := p_queue p @ [job], p_accepted := p_accepted p @ [job]\<rparr>
     else p\<lparr>p_held := Some job, p_accepted := p_accepted p @ [job]\<rparr>)"

datatype submit_result = Accepted | Refused | Crashed

definition Submit :: "job \<Rightarrow> pool \<Rightarrow> submit_result \<times> pool" where
  "Submit job p =
     (if p_cancelled p then (Refused, p)
      else if p_closed p then (Crashed, p\<lparr>p_crashed := True\<rparr>)
      else if room p then (Accepted, send job p)
      else (Refused, p))"

text \<open>\<^verbatim>\<open>SubmitBlocking\<close>, when it returns; \<open>None\<close> while it waits.\<close>

definition SubmitBlocking :: "job \<Rightarrow> pool \<Rightarrow> (submit_result \<times> pool) option" where
  "SubmitBlocking job p =
     (if p_cancelled p then Some (Refused, p)
      else if p_closed p then Some (Crashed, p\<lparr>p_crashed := True\<rparr>)
      else if room p then Some (Accepted, send job p)
      else None)"

inductive pool_step :: "pool \<Rightarrow> pool \<Rightarrow> bool" where
  submit: "Submit job p = (res, p') \<Longrightarrow> pool_step p p'"
| submit_blocking: "SubmitBlocking job p = Some (res, p') \<Longrightarrow> pool_step p p'"
| receive: "p_loop p \<Longrightarrow> p_held p = None \<Longrightarrow> p_queue p = job # rest \<Longrightarrow> pool_step p (p\<lparr>p_queue := rest, p_held := Some job\<rparr>)"
| acquire: "p_held p = Some job \<Longrightarrow> length (p_running p) < Concurrency (p_cfg p) \<Longrightarrow>
    pool_step p (p\<lparr>p_held := None, p_running := p_running p @ [job]\<rparr>)"
| finish: "p_running p = xs @ job # ys \<Longrightarrow> pool_step p (p\<lparr>p_running := xs @ ys, p_finished := p_finished p @ [job]\<rparr>)"
| cancel: "pool_step p (p\<lparr>p_cancelled := True\<rparr>)"
| leave: "p_loop p \<Longrightarrow> p_held p = None \<Longrightarrow> p_cancelled p \<Longrightarrow> pool_step p (p\<lparr>p_loop := False\<rparr>)"
| close: "\<not> p_closed p \<Longrightarrow> pool_step p (p\<lparr>p_closed := True\<rparr>)"
| drained: "p_loop p \<Longrightarrow> p_held p = None \<Longrightarrow> p_closed p \<Longrightarrow> p_queue p = [] \<Longrightarrow> pool_step p (p\<lparr>p_loop := False\<rparr>)"

text \<open>\<^verbatim>\<open>Stop\<close> returns nil when the wait group is down to zero: no dispatcher, no worker.\<close>

definition stopped :: "pool \<Rightarrow> bool" where
  "stopped p \<longleftrightarrow> p_closed p \<and> \<not> p_loop p \<and> p_held p = None \<and> p_running p = []"

inductive pool_reachable :: "pool_config \<Rightarrow> pool \<Rightarrow> bool" for cfg where
  init: "pool_reachable cfg (Start_pool (NewPool cfg))"
| step: "pool_reachable cfg p \<Longrightarrow> pool_step p p' \<Longrightarrow> pool_reachable cfg p'"

definition in_pool :: "pool \<Rightarrow> job multiset" where
  "in_pool p = mset (p_queue p) + mset (case p_held p of None \<Rightarrow> [] | Some j \<Rightarrow> [j]) + mset (p_running p)"

definition pool_inv :: "pool \<Rightarrow> bool" where
  "pool_inv p \<longleftrightarrow> length (p_running p) \<le> Concurrency (p_cfg p) \<and> length (p_queue p) \<le> QueueSize (p_cfg p) \<and>
     mset (p_accepted p) = in_pool p + mset (p_finished p) \<and>
     (\<not> p_loop p \<longrightarrow> p_held p = None \<and> (p_cancelled p \<or> p_closed p \<and> p_queue p = []))"

lemma send_inv: "pool_inv p \<Longrightarrow> room p \<Longrightarrow> \<not> p_closed p \<Longrightarrow> \<not> p_cancelled p \<Longrightarrow> pool_inv (send job p)"
  by (auto simp: pool_inv_def send_def room_def idle_def in_pool_def split: option.splits)

lemma pool_step_inv: "pool_step p p' \<Longrightarrow> pool_inv p \<Longrightarrow> pool_inv p' \<and> p_cfg p' = p_cfg p"
proof (induction rule: pool_step.induct)
  case (submit job p res p')
  then show ?case using send_inv [of p job]
    by (auto simp: Submit_def pool_inv_def in_pool_def send_def split: if_splits)
next
  case (submit_blocking job p res p')
  then show ?case using send_inv [of p job]
    by (auto simp: SubmitBlocking_def pool_inv_def in_pool_def send_def split: if_splits)
qed (auto simp: pool_inv_def in_pool_def)

lemma pool_reachable_inv: "pool_reachable cfg p \<Longrightarrow> pool_inv p \<and> p_cfg p = cfg"
proof (induction rule: pool_reachable.induct)
  case init
  show ?case by (simp add: pool_inv_def in_pool_def Start_pool_def NewPool_def)
next
  case (step p p')
  with pool_step_inv show ?case by metis
qed

text \<open>
  C31. The pool is bounded and loses nothing. In every interleaving of submitters, dispatcher, workers and
  shutdown, at most \<^verbatim>\<open>Concurrency\<close> jobs run and at most \<^verbatim>\<open>QueueSize\<close> wait; every accepted job is exactly
  once either waiting, held by the dispatcher, running or finished; and when \<^verbatim>\<open>Stop\<close> has waited for the
  pool and the context was not cancelled, every accepted job has finished.
\<close>

lemma pool_bounded_and_lossless:
  assumes "pool_reachable cfg p"
  shows "length (p_running p) \<le> Concurrency cfg \<and> length (p_queue p) \<le> QueueSize cfg \<and>
    mset (p_accepted p) = in_pool p + mset (p_finished p) \<and>
    (stopped p \<and> \<not> p_cancelled p \<longrightarrow> mset (p_finished p) = mset (p_accepted p))"
  using pool_reachable_inv [OF assms] by (auto simp: pool_inv_def stopped_def in_pool_def)

text \<open>
  With a cancelled context the dispatcher leaves jobs in the queue behind: they are RUNNING in the
  database and nobody will run them. And a submitter that comes after \<^verbatim>\<open>Stop\<close> with a live context, as
  the queue consumer does when the HTTP server fails, brings the process down.
\<close>

lemma cancelled_pool_abandons:
  "\<exists>p. pool_reachable \<lparr>Concurrency = 1, QueueSize = 1\<rparr> p \<and> stopped p \<and> p_accepted p = [zero_job] \<and> p_finished p = []"
proof -
  let ?p0 = "Start_pool (NewPool \<lparr>Concurrency = 1, QueueSize = 1\<rparr>)"
  let ?p1 = "send zero_job ?p0" let ?p2 = "?p1\<lparr>p_cancelled := True\<rparr>" let ?p3 = "?p2\<lparr>p_loop := False\<rparr>" let ?p4 = "?p3\<lparr>p_closed := True\<rparr>"
  note defs = Start_pool_def NewPool_def send_def
  have "pool_reachable \<lparr>Concurrency = 1, QueueSize = 1\<rparr> ?p1"
    by (rule pool_reachable.step [OF pool_reachable.init], rule pool_step.submit [of zero_job _ Accepted])
      (simp add: Submit_def room_def defs)
  from pool_reachable.step [OF this pool_step.cancel] have "pool_reachable \<lparr>Concurrency = 1, QueueSize = 1\<rparr> ?p2" .
  from pool_reachable.step [OF this pool_step.leave] have "pool_reachable \<lparr>Concurrency = 1, QueueSize = 1\<rparr> ?p3"
    by (simp add: defs)
  from pool_reachable.step [OF this pool_step.close] have "pool_reachable \<lparr>Concurrency = 1, QueueSize = 1\<rparr> ?p4"
    by (simp add: defs)
  then show ?thesis by (intro exI [of _ ?p4]) (simp add: stopped_def defs)
qed

lemma submit_after_stop_crashes: "p_closed p \<Longrightarrow> \<not> p_cancelled p \<Longrightarrow> fst (Submit job p) = Crashed"
  by (simp add: Submit_def)

lemma pool_bounded_and_lossless_witness:
  "\<exists>p. pool_reachable \<lparr>Concurrency = 1, QueueSize = 1\<rparr> p \<and> stopped p \<and> mset (p_accepted p) = {#zero_job#} \<and>
     in_pool p + mset (p_finished p) = {#zero_job#}"
proof -
  obtain p where p: "pool_reachable \<lparr>Concurrency = 1, QueueSize = 1\<rparr> p" "stopped p" "p_accepted p = [zero_job]"
    using cancelled_pool_abandons by blast
  from pool_bounded_and_lossless [OF p(1)] p show ?thesis by auto
qed

end
