(* ===== verification/Go_Duration.thy ===== *)
theory Go_Duration
  imports Go_Strings Retry
begin

text \<open>
  Durations as text: \<^verbatim>\<open>time.ParseDuration\<close> and \<^verbatim>\<open>Duration.String\<close> of Go's standard library, which the wire format of a
  task's timeout and the configuration go through. The unsigned arithmetic wraps at 64 bits, and a
  fraction is scaled in \<^verbatim>\<open>float64\<close>.

  Shown here: what \<^verbatim>\<open>ParseDuration\<close> returns fits 64 bits, and it reads back what \<^verbatim>\<open>String\<close> writes, for every duration.
\<close>

section \<open>Parsing\<close>

fun leadingInt :: "nat \<Rightarrow> string \<Rightarrow> (nat \<times> string) option" where
  "leadingInt x [] = Some (x, [])"
| "leadingInt x (c # s) =
     (if \<not> is_digit c then Some (x, c # s)
      else if 2 ^ 63 div 10 < x then None
      else if 2 ^ 63 < 10 * x + digit_val c then None
      else leadingInt (10 * x + digit_val c) s)"

text \<open>Digits that no longer fit are skipped.\<close>

fun leadingFraction :: "bool \<Rightarrow> nat \<Rightarrow> rat \<Rightarrow> string \<Rightarrow> nat \<times> rat \<times> string" where
  "leadingFraction overflow x scale [] = (x, scale, [])"
| "leadingFraction overflow x scale (c # s) =
     (if \<not> is_digit c then (x, scale, c # s)
      else if overflow \<or> (2 ^ 63 - 1) div 10 < x \<or> 2 ^ 63 < 10 * x + digit_val c then leadingFraction True x scale s
      else leadingFraction False (10 * x + digit_val c) (fl64 (scale * 10)) s)"

definition unitMap :: "string \<Rightarrow> nat option" where
  "unitMap u = map_of [(''ns'', 1), (''us'', 1000), (chars [0xC2, 0xB5] @ ''s'', 1000), (chars [0xCE, 0xBC] @ ''s'', 1000),
     (''ms'', 1000000), (''s'', 1000000000), (''m'', 60000000000), (''h'', 3600000000000)] u"

definition in_unit :: "char \<Rightarrow> bool" where
  "in_unit c \<longleftrightarrow> \<not> (c = CHR ''.'' \<or> is_digit c)"

text \<open>One number with its unit: its value and the text behind it.\<close>

definition duration_term :: "string \<Rightarrow> (nat \<times> string) option" where
  "duration_term s =
     (if in_unit (hd s) then None
      else case leadingInt 0 s of None \<Rightarrow> None
      | Some (v, s1) \<Rightarrow>
          (let pre = (length s1 \<noteq> length s);
               (f, scale, s2, post) =
                 (if s1 \<noteq> [] \<and> hd s1 = CHR ''.''
                  then (case leadingFraction False 0 1 (tl s1) of (f, scale, s2) \<Rightarrow> (f, scale, s2, length s2 \<noteq> length (tl s1)))
                  else (0, 1, s1, False));
               u = takeWhile in_unit s2; s3 = dropWhile in_unit s2 in
           if \<not> pre \<and> \<not> post \<or> u = [] then None
           else case unitMap u of None \<Rightarrow> None
           | Some unit \<Rightarrow>
               if 2 ^ 63 div unit < v then None
               else let w = v * unit + (if 0 < f then nat \<lfloor>fl64 (fl64 (of_nat f) * fl64 (of_nat unit / scale))\<rfloor> else 0) in
                 if 0 < f \<and> 2 ^ 63 < w then None else Some (w, s3)))"

lemma leadingInt_length: "leadingInt x s = Some (v, r) \<Longrightarrow> length r \<le> length s"
  by (induction x s rule: leadingInt.induct) (auto split: if_splits)

lemma leadingFraction_length: "leadingFraction o' x sc s = (f, scale, r) \<Longrightarrow> length r \<le> length s"
  by (induction o' x sc s rule: leadingFraction.induct) (auto split: if_splits)

lemma duration_term_length: "duration_term s = Some (w, r) \<Longrightarrow> length r < length s"
proof -
  assume t: "duration_term s = Some (w, r)"
  then obtain v s1 where i: "leadingInt 0 s = Some (v, s1)" by (auto simp: duration_term_def split: if_splits option.splits)
  have drop: "length (dropWhile in_unit x) < length x" if "takeWhile in_unit x \<noteq> []" for x
  proof -
    have "length x = length (takeWhile in_unit x) + length (dropWhile in_unit x)" by (metis length_append takeWhile_dropWhile_id)
    with that show ?thesis by simp
  qed
  show ?thesis
  proof (cases "s1 \<noteq> [] \<and> hd s1 = CHR ''.''")
    case True
    obtain f sc s2 where fr: "leadingFraction False 0 1 (tl s1) = (f, sc, s2)" by (metis prod_cases3)
    from t i True fr have "r = dropWhile in_unit s2" "takeWhile in_unit s2 \<noteq> []"
      by (auto simp: duration_term_def Let_def split: if_splits option.splits)
    moreover have "length s2 \<le> length (tl s1)" using leadingFraction_length [OF fr] .
    moreover have "length (tl s1) \<le> length s1" by simp
    ultimately show ?thesis using drop [of s2] leadingInt_length [OF i] by fastforce
  next
    case False
    with t i have "r = dropWhile in_unit s1" "takeWhile in_unit s1 \<noteq> []"
      by (auto simp: duration_term_def Let_def split: if_splits option.splits)
    then show ?thesis using drop [of s1] leadingInt_length [OF i] by fastforce
  qed
qed

function duration_terms :: "nat \<Rightarrow> string \<Rightarrow> nat option" where
  "duration_terms d s =
     (if s = [] then Some d
      else case duration_term s of None \<Rightarrow> None
      | Some (w, rest) \<Rightarrow>
          (let d' = (d + w) mod 2 ^ 64 in if 2 ^ 63 < d' then None else duration_terms d' rest))"
  by pat_completeness auto
termination
  by (relation "measure (\<lambda>(d, s). length s)") (auto dest: duration_term_length)

declare duration_terms.simps [simp del]

definition ParseDuration :: "string \<Rightarrow> duration option" where
  "ParseDuration s =
     (let neg = (s \<noteq> [] \<and> hd s = CHR ''-'');
          body = (if s \<noteq> [] \<and> (hd s = CHR ''-'' \<or> hd s = CHR ''+'') then tl s else s) in
      if body = ''0'' then Some 0
      else if body = [] then None
      else case duration_terms 0 body of None \<Rightarrow> None
      | Some d \<Rightarrow> if neg then Some (- int d) else if 2 ^ 63 - 1 < d then None else Some (int d))"

section \<open>Printing\<close>

text \<open>The digits of a fraction, without trailing zeros.\<close>

fun frac_digits :: "nat \<Rightarrow> nat \<Rightarrow> string \<Rightarrow> string" where
  "frac_digits 0 v acc = acc"
| "frac_digits (Suc prec) v acc =
     frac_digits prec (v div 10) (if acc = [] \<and> v mod 10 = 0 then [] else digit_char (v mod 10) # acc)"

definition fmtFrac :: "nat \<Rightarrow> nat \<Rightarrow> string" where
  "fmtFrac v prec = (let ds = frac_digits prec v [] in if ds = [] then '''' else CHR ''.'' # ds)"

definition duration_text :: "nat \<Rightarrow> string" where
  "duration_text u =
     (if u = 0 then ''0s''
      else if u < 1000 then nat_digits u @ ''ns''
      else if u < 1000000 then nat_digits (u div 1000) @ fmtFrac u 3 @ chars [0xC2, 0xB5] @ ''s''
      else if u < 1000000000 then nat_digits (u div 1000000) @ fmtFrac u 6 @ ''ms''
      else let secs = u div 1000000000; mins = secs div 60; hours = mins div 60 in
        (if 0 < hours then nat_digits hours @ ''h'' else '''') @
        (if 0 < mins then nat_digits (mins mod 60) @ ''m'' else '''') @
        nat_digits (secs mod 60) @ fmtFrac u 9 @ ''s'')"

definition Duration_String :: "duration \<Rightarrow> string" where
  "Duration_String d = (if d < 0 then CHR ''-'' # duration_text (nat (- d)) else duration_text (nat d))"

section \<open>Reading back what was printed\<close>

lemma digits_value_shift: "digits_value 0 ds = Some w \<Longrightarrow> digits_value x ds = Some (x * 10 ^ length ds + w)"
proof -
  have "digits_value (x * 10 ^ 0 + y) ds = map_option (\<lambda>w. x * 10 ^ length ds + w) (digits_value y ds)" for y
  proof (induction ds arbitrary: x y)
    case (Cons c ds)
    have "10 * (x + y) + digit_val c = 10 * x + (10 * y + digit_val c)" by simp
    with Cons [of "10 * x" "10 * y + digit_val c"] show ?case by (simp add: mult.assoc mult.left_commute add.assoc)
  qed simp
  from this [of 0] show "digits_value 0 ds = Some w \<Longrightarrow> ?thesis" by simp
qed

lemma digits_value_le: "digits_value x ds = Some v \<Longrightarrow> x \<le> v"
  by (induction ds arbitrary: x) (fastforce split: if_splits)+

lemma leadingInt_digits:
  "digits_value x ds = Some v \<Longrightarrow> v \<le> 2 ^ 63 \<Longrightarrow> rest = [] \<or> \<not> is_digit (hd rest) \<Longrightarrow> leadingInt x (ds @ rest) = Some (v, rest)"
proof (induction ds arbitrary: x)
  case Nil
  then show ?case by (cases rest) simp_all
next
  case (Cons c ds)
  then have c: "is_digit c" and v: "digits_value (10 * x + digit_val c) ds = Some v" by (simp_all split: if_splits)
  from digits_value_le [OF v] Cons.prems have le: "10 * x + digit_val c \<le> 2 ^ 63" by simp
  then have "x \<le> 2 ^ 63 div 10" by simp
  with le c Cons.IH [OF v Cons.prems (2, 3)] show ?case by simp
qed

lemma fl64_nat: "n \<le> 2 ^ 53 \<Longrightarrow> fl64 (of_nat n) = of_nat n"
  using fl64_of_int [of "int n"] by simp

lemma leadingFraction_digits:
  "digits_value x ds = Some v \<Longrightarrow> j + length ds \<le> 9 \<Longrightarrow> v \<le> 10 ^ 9 \<Longrightarrow> rest = [] \<or> \<not> is_digit (hd rest) \<Longrightarrow>
    leadingFraction False x (of_nat (10 ^ j)) (ds @ rest) = (v, of_nat (10 ^ (j + length ds)), rest)"
proof (induction ds arbitrary: x j)
  case Nil
  then show ?case by (cases rest) simp_all
next
  case (Cons c ds)
  then have c: "is_digit c" and v: "digits_value (10 * x + digit_val c) ds = Some v" by (simp_all split: if_splits)
  from digits_value_le [OF v] Cons.prems have le: "10 * x + digit_val c \<le> 10 ^ 9" by simp
  have "(10 :: nat) ^ Suc j \<le> 10 ^ 9" using Cons.prems by (intro power_increasing) simp_all
  then have "fl64 (of_nat (10 ^ Suc j)) = of_nat (10 ^ Suc j)" by (intro fl64_nat) simp
  then have "fl64 (of_nat (10 ^ j) * 10) = of_nat (10 ^ Suc j)" by (simp add: mult.commute)
  with le c Cons.IH [OF v, of "Suc j"] Cons.prems show ?case by simp
qed

lemma frac_digits_value:
  assumes "digits_value 0 acc = Some w"
  shows "\<exists>f. digits_value 0 (frac_digits prec v acc) = Some f \<and> length (frac_digits prec v acc) \<le> prec + length acc \<and>
    f * 10 ^ (prec + length acc - length (frac_digits prec v acc)) = (v mod 10 ^ prec) * 10 ^ length acc + w"
  using assms
proof (induction prec arbitrary: v acc w)
  case (Suc prec)
  have m: "v mod 10 ^ Suc prec = 10 * ((v div 10) mod 10 ^ prec) + v mod 10" by (simp add: mod_mult2_eq)
  show ?case
  proof (cases "acc = [] \<and> v mod 10 = 0")
    case True
    with Suc.prems have w: "w = 0" by simp
    from Suc.IH [of "[]" 0 "v div 10"] obtain f where f: "digits_value 0 (frac_digits prec (v div 10) []) = Some f"
      "length (frac_digits prec (v div 10) []) \<le> prec"
      "f * 10 ^ (prec - length (frac_digits prec (v div 10) [])) = (v div 10) mod 10 ^ prec" by auto
    from f (2) have "Suc prec - length (frac_digits prec (v div 10) []) = Suc (prec - length (frac_digits prec (v div 10) []))" by simp
    with f True m w show ?thesis by simp
  next
    case False
    have "digits_value 0 (digit_char (v mod 10) # acc) = Some (v mod 10 * 10 ^ length acc + w)"
      using digits_value_shift [OF Suc.prems, of "v mod 10"] by simp
    from Suc.IH [OF this, of "v div 10"] False m show ?thesis by (auto simp: algebra_simps)
  qed
qed simp

lemma in_unit_digit: "is_digit c \<Longrightarrow> \<not> in_unit c"
  by (simp add: in_unit_def)

lemma takeWhile_unit:
  assumes "list_all in_unit u" "rest = [] \<or> is_digit (hd rest)"
  shows "takeWhile in_unit (u @ rest) = u" "dropWhile in_unit (u @ rest) = rest"
proof -
  have "takeWhile in_unit rest = []" "dropWhile in_unit rest = rest"
    using assms (2) in_unit_digit by (cases rest; auto)+
  with assms (1) show "takeWhile in_unit (u @ rest) = u" "dropWhile in_unit (u @ rest) = rest"
    by (simp_all add: list_all_iff takeWhile_append2 dropWhile_append2)
qed

lemma hd_unit:
  assumes "list_all in_unit u" "u \<noteq> []"
  shows "\<not> is_digit (hd (u @ rest))" "hd (u @ rest) \<noteq> CHR ''.''"
  using assms by (cases u; simp add: in_unit_def)+

lemma term_whole:
  assumes "list_all in_unit u" "u \<noteq> []" "unitMap u = Some unit" "0 < unit" "v * unit \<le> 2 ^ 63" "rest = [] \<or> is_digit (hd rest)"
  shows "duration_term (nat_digits v @ u @ rest) = Some (v * unit, rest)"
proof -
  have v: "v \<le> 2 ^ 63 div unit" using assms (4, 5) by (simp add: less_eq_div_iff_mult_less_eq)
  then have "v \<le> 2 ^ 63" using div_le_dividend order_trans by blast
  with hd_unit [OF assms (1, 2)] have i: "leadingInt 0 (nat_digits v @ u @ rest) = Some (v, u @ rest)"
    by (intro leadingInt_digits) simp_all
  have h: "\<not> in_unit (hd (nat_digits v @ u @ rest))" using hd_nat_digits [of v] by (simp add: in_unit_digit)
  show ?thesis
    using h i v assms (2, 3) takeWhile_unit [OF assms (1, 6)] hd_unit [OF assms (1, 2), of rest] by (simp add: duration_term_def Let_def)
qed

lemma term_fraction:
  assumes "list_all in_unit u" "u \<noteq> []" "unitMap u = Some (10 ^ prec)" "prec \<le> 9" "v * 10 ^ prec + x mod 10 ^ prec \<le> 2 ^ 63"
    "rest = [] \<or> is_digit (hd rest)"
  shows "duration_term (nat_digits v @ fmtFrac x prec @ u @ rest) = Some (v * 10 ^ prec + x mod 10 ^ prec, rest)"
proof -
  let ?ds = "frac_digits prec x []" and ?unit = "10 ^ prec :: nat"
  from frac_digits_value [of "[]" 0 prec x] obtain f where f: "digits_value 0 ?ds = Some f" "length ?ds \<le> prec"
    "f * 10 ^ (prec - length ?ds) = x mod 10 ^ prec" by auto
  show ?thesis
  proof (cases "?ds = []")
    case True
    with f have "x mod 10 ^ prec = 0" by simp
    moreover have "fmtFrac x prec = ''''" using True by (simp add: fmtFrac_def)
    ultimately show ?thesis using term_whole [OF assms (1-3) _ _ assms (6), of v] assms (5) by simp
  next
    case False
    let ?s1 = "CHR ''.'' # ?ds @ u @ rest" and ?scale = "of_nat (10 ^ length ?ds) :: rat"
    have v: "v \<le> 2 ^ 63 div ?unit" using assms (5) by (simp add: less_eq_div_iff_mult_less_eq)
    then have "v \<le> 2 ^ 63" using div_le_dividend order_trans by blast
    then have i: "leadingInt 0 (nat_digits v @ ?s1) = Some (v, ?s1)" by (intro leadingInt_digits) (simp_all add: is_digit_def)
    have u9: "?unit \<le> 10 ^ 9" using assms (4) by (intro power_increasing) simp_all
    have "x mod ?unit < ?unit" by simp
    with f (3) have fx: "f * 10 ^ (prec - length ?ds) < ?unit" by simp
    moreover have "f * 1 \<le> f * 10 ^ (prec - length ?ds)" by (rule mult_le_mono2) simp
    ultimately have f9: "f \<le> 10 ^ 9" using u9 by linarith
    have fr: "leadingFraction False 0 1 (?ds @ u @ rest) = (f, ?scale, u @ rest)"
      using leadingFraction_digits [OF f (1), of 0 "u @ rest"] f (2) f9 assms (4) hd_unit [OF assms (1, 2)] by simp
    have "?unit = 10 ^ (prec - length ?ds) * 10 ^ length ?ds" using f (2) by (simp add: power_add [symmetric])
    then have "(of_nat ?unit :: rat) = of_nat (10 ^ (prec - length ?ds)) * ?scale" by (metis of_nat_mult)
    then have q: "of_nat ?unit / ?scale = of_nat (10 ^ (prec - length ?ds))" by simp
    have "(10 :: nat) ^ (prec - length ?ds) \<le> 10 ^ 9" using assms (4) by (intro power_increasing) simp_all
    then have "fl64 (of_nat ?unit / ?scale) = of_nat (10 ^ (prec - length ?ds))" unfolding q by (intro fl64_nat) simp
    moreover have "fl64 (of_nat f) = of_nat f" using f9 by (intro fl64_nat) simp
    ultimately have "fl64 (of_nat f) * fl64 (of_nat ?unit / ?scale) = of_nat (x mod ?unit)"
      using f (3) by (metis of_nat_mult)
    moreover have "x mod ?unit \<le> 10 ^ 9" using \<open>x mod ?unit < ?unit\<close> u9 by linarith
    then have "fl64 (of_nat (x mod ?unit)) = of_nat (x mod ?unit)" by (intro fl64_nat) simp
    ultimately have w: "nat \<lfloor>fl64 (fl64 (of_nat f) * fl64 (of_nat ?unit / ?scale))\<rfloor> = x mod ?unit" by simp
    have "0 < f \<or> x mod ?unit = 0" using f (3) by (cases f) simp_all
    moreover have h: "\<not> in_unit (hd (nat_digits v @ ?s1))" using hd_nat_digits [of v] by (simp add: in_unit_digit)
    moreover have "fmtFrac x prec = CHR ''.'' # ?ds" using False by (simp add: fmtFrac_def)
    ultimately show ?thesis
      using i fr v w assms (2, 3, 5) takeWhile_unit [OF assms (1, 6)] False by (auto simp: duration_term_def Let_def)
  qed
qed

lemma duration_terms_Nil [simp]: "duration_terms d [] = Some d"
  by (simp add: duration_terms.simps)

lemma duration_terms_step:
  "duration_term s = Some (w, rest) \<Longrightarrow> s \<noteq> [] \<Longrightarrow> d + w \<le> 2 ^ 63 \<Longrightarrow> duration_terms d s = duration_terms (d + w) rest"
  by (subst duration_terms.simps) simp

lemma unit_chars: "list_all in_unit ''ns''" "list_all in_unit (chars [0xC2, 0xB5] @ ''s'')" "list_all in_unit ''ms''" "list_all in_unit ''s''"
  "list_all in_unit ''m''" "list_all in_unit ''h''"
  by (simp_all add: in_unit_def is_digit_def chars_def char_of_def bit_simps)

lemma unitMap_simps: "unitMap ''ns'' = Some 1" "unitMap (chars [0xC2, 0xB5] @ ''s'') = Some (10 ^ 3)" "unitMap ''ms'' = Some (10 ^ 6)"
  "unitMap ''s'' = Some (10 ^ 9)" "unitMap ''m'' = Some 60000000000" "unitMap ''h'' = Some 3600000000000"
  by (simp_all add: unitMap_def chars_def char_of_def bit_simps)

lemma term_seconds:
  assumes "d + (v * 10 ^ 9 + x mod 10 ^ 9) \<le> 2 ^ 63"
  shows "duration_terms d (nat_digits v @ fmtFrac x 9 @ ''s'') = Some (d + (v * 10 ^ 9 + x mod 10 ^ 9))"
proof -
  have "duration_term (nat_digits v @ fmtFrac x 9 @ ''s'' @ []) = Some (v * 10 ^ 9 + x mod 10 ^ 9, [])"
    by (rule term_fraction) (use assms unit_chars unitMap_simps in simp_all)
  then show ?thesis using duration_terms_step [OF _ _ assms] by simp
qed

lemma term_minutes:
  assumes "d + v * 60000000000 \<le> 2 ^ 63" "is_digit (hd rest)"
  shows "duration_terms d (nat_digits v @ ''m'' @ rest) = duration_terms (d + v * 60000000000) rest"
proof -
  have "duration_term (nat_digits v @ ''m'' @ rest) = Some (v * 60000000000, rest)"
    by (rule term_whole) (use assms unit_chars unitMap_simps in simp_all)
  then show ?thesis using duration_terms_step [OF _ _ assms (1)] by simp
qed

lemma term_hours:
  assumes "d + v * 3600000000000 \<le> 2 ^ 63" "is_digit (hd rest)"
  shows "duration_terms d (nat_digits v @ ''h'' @ rest) = duration_terms (d + v * 3600000000000) rest"
proof -
  have "duration_term (nat_digits v @ ''h'' @ rest) = Some (v * 3600000000000, rest)"
    by (rule term_whole) (use assms unit_chars unitMap_simps in simp_all)
  then show ?thesis using duration_terms_step [OF _ _ assms (1)] by simp
qed

declare hd_nat_digits [simp]

lemma frac_digits_zero: "frac_digits prec 0 [] = []"
  by (induction prec) simp_all

lemma duration_terms_text:
  assumes "u \<le> 2 ^ 63"
  shows "duration_terms 0 (duration_text u) = Some u"
proof -
  consider "u = 0" | "0 < u" "u < 1000" | "1000 \<le> u" "u < 1000000" | "1000000 \<le> u" "u < 1000000000" | "1000000000 \<le> u" by linarith
  then show ?thesis
  proof cases
    case 1
    have "nat_digits 0 = ''0''" "fmtFrac 0 9 = ''''" by (simp_all add: nat_digits.simps fmtFrac_def frac_digits_zero digit_char_def char_of_def bit_simps)
    with 1 term_seconds [of 0 0 0] show ?thesis by (simp add: duration_text_def)
  next
    case 2
    then have "duration_term (nat_digits u @ ''ns'' @ []) = Some (u * 1, [])"
      by (intro term_whole) (use unit_chars unitMap_simps in simp_all)
    with 2 duration_terms_step [of "nat_digits u @ ''ns''" u "[]" 0] show ?thesis by (simp add: duration_text_def)
  next
    case 3
    let ?u = "chars [0xC2, 0xB5] @ ''s''"
    from 3 have "duration_term (nat_digits (u div 1000) @ fmtFrac u 3 @ ?u @ []) = Some (u div 1000 * 10 ^ 3 + u mod 10 ^ 3, [])"
      by (intro term_fraction) (use unit_chars unitMap_simps in simp_all)
    with 3 duration_terms_step [of "nat_digits (u div 1000) @ fmtFrac u 3 @ ?u" u "[]" 0] show ?thesis by (simp add: duration_text_def)
  next
    case 4
    then have "duration_term (nat_digits (u div 1000000) @ fmtFrac u 6 @ ''ms'' @ []) = Some (u div 1000000 * 10 ^ 6 + u mod 10 ^ 6, [])"
      by (intro term_fraction) (use unit_chars unitMap_simps in simp_all)
    with 4 duration_terms_step [of "nat_digits (u div 1000000) @ fmtFrac u 6 @ ''ms''" u "[]" 0] show ?thesis by (simp add: duration_text_def)
  next
    case 5
    define secs mins hours where "secs = u div 1000000000" and "mins = secs div 60" and "hours = mins div 60"
    have u: "u = secs * 10 ^ 9 + u mod 10 ^ 9" "secs = mins * 60 + secs mod 60" "mins = hours * 60 + mins mod 60"
      by (simp_all add: secs_def mins_def hours_def)
    let ?s = "nat_digits (secs mod 60) @ fmtFrac u 9 @ ''s''"
    have total: "hours * 3600000000000 + mins mod 60 * 60000000000 + (secs mod 60 * 10 ^ 9 + u mod 10 ^ 9) = u" using u by simp
    have shown: "duration_text u = (if 0 < hours then nat_digits hours @ ''h'' else '''') @ (if 0 < mins then nat_digits (mins mod 60) @ ''m'' else '''') @ ?s"
      using 5 by (simp add: duration_text_def Let_def secs_def mins_def hours_def)
    have s: "duration_terms d ?s = Some u" if "d + (secs mod 60 * 10 ^ 9 + u mod 10 ^ 9) = u" for d
      using term_seconds [of d "secs mod 60" u] that assms by simp
    have m: "duration_terms d (nat_digits (mins mod 60) @ ''m'' @ ?s) = Some u" if "d = hours * 3600000000000" for d
      using term_minutes [of d "mins mod 60" ?s] s [of "d + mins mod 60 * 60000000000"] that total assms by simp
    show ?thesis
    proof (cases "0 < hours")
      case True
      then have "0 < mins" by (simp add: hours_def)
      with True shown term_hours [of 0 hours "nat_digits (mins mod 60) @ ''m'' @ ?s"] m total assms show ?thesis by simp
    next
      case False
      with shown m [of 0] s [of 0] total u show ?thesis by (cases "0 < mins") simp_all
    qed
  qed
qed

lemma duration_text_shape: "duration_text u \<noteq> [] \<and> is_digit (hd (duration_text u)) \<and> duration_text u \<noteq> ''0''"
proof -
  have "duration_text u = ''0s'' \<or> (\<exists>v s c. duration_text u = nat_digits v @ s @ [c] \<and> \<not> is_digit c)"
    by (auto simp: duration_text_def Let_def is_digit_def)
  then show ?thesis
  proof
    assume "\<exists>v s c. duration_text u = nat_digits v @ s @ [c] \<and> \<not> is_digit c"
    then obtain v s c where t: "duration_text u = nat_digits v @ s @ [c]" "\<not> is_digit c" by blast
    then have "last (duration_text u) = c" by simp
    moreover have "is_digit (CHR ''0'')" by (simp add: is_digit_def)
    ultimately have "duration_text u \<noteq> ''0''" using t (2) by auto
    then show ?thesis unfolding t (1) by simp
  qed (simp add: is_digit_def)
qed

lemma ParseDuration_String: "min_int64 \<le> d \<Longrightarrow> d \<le> max_int64 \<Longrightarrow> ParseDuration (Duration_String d) = Some d"
proof -
  assume d: "min_int64 \<le> d" "d \<le> max_int64"
  show ?thesis
  proof (cases "d < 0")
    case True
    with d duration_terms_text [of "nat (- d)"] duration_text_shape [of "nat (- d)"] show ?thesis
      by (simp add: ParseDuration_def Duration_String_def min_int64_def)
  next
    case False
    have "hd (duration_text (nat d)) \<noteq> CHR ''-''" "hd (duration_text (nat d)) \<noteq> CHR ''+''"
      using duration_text_shape [of "nat d"] by auto
    with False d duration_terms_text [of "nat d"] duration_text_shape [of "nat d"] show ?thesis
      by (simp add: ParseDuration_def Duration_String_def max_int64_def Let_def)
  qed
qed

lemma ParseDuration_range:
  assumes "ParseDuration s = Some d"
  shows "min_int64 \<le> d \<and> d \<le> max_int64"
proof -
  have "duration_terms d s = Some v \<Longrightarrow> d \<le> 2 ^ 63 \<Longrightarrow> v \<le> 2 ^ 63" for d s v
  proof (induction d s rule: duration_terms.induct)
    case (1 d s)
    then show ?case by (subst (asm) duration_terms.simps) (auto simp: Let_def split: if_splits option.splits)
  qed
  from this [of 0] assms show ?thesis
    by (auto simp: ParseDuration_def Let_def min_int64_def max_int64_def split: if_splits option.splits)
qed

end
