(* ===== verification/Queue.thy ===== *)
theory Queue
  imports Worker Pool Configuration "HOL-Library.Sublist"
begin

text \<open>
  \<^verbatim>\<open>internal/queue\<close>: the wake-up of waiting claims (\<^verbatim>\<open>waker.go\<close>), LISTEN/NOTIFY (\<^verbatim>\<open>postgres.go\<close>) and Kafka (\<^verbatim>\<open>kafka.go\<close>).
  Channels have numbers and are open until closed. A connection of the listener is the list of what its waits
  return, a session of the consumer group the list of what its channel delivers; both may also
  end without a last word, when the process does. PostgreSQL, sarama and the JSON encoder are arguments.

  Shown here: a waiter that took its channel before looking for work is woken by any later wake-up, and
  no channel is closed twice; the listener wakes once per notification and gives up only with its
  context; the consumer submits the jobs of its queues in order and marks exactly the messages it is done
  with.
\<close>

section \<open>Waking waiters\<close>

record waker =
  wk_ch :: nat
  wk_closed :: "nat list"

definition NewWaker :: waker where
  "NewWaker = \<lparr>wk_ch = 0, wk_closed = []\<rparr>"

definition C_waker :: "waker \<Rightarrow> nat" where
  "C_waker w = wk_ch w"

text \<open>\<open>None\<close>: the panic of closing a closed channel. \<^verbatim>\<open>make\<close> returns a channel not used before.\<close>

definition Wake_waker :: "waker \<Rightarrow> waker option" where
  "Wake_waker w = (if wk_ch w \<in> set (wk_closed w) then None else Some \<lparr>wk_ch = wk_ch w + 1, wk_closed = wk_ch w # wk_closed w\<rparr>)"

fun wakes :: "nat \<Rightarrow> waker \<Rightarrow> waker option" where
  "wakes 0 w = Some w"
| "wakes (Suc n) w = (case Wake_waker w of None \<Rightarrow> None | Some w' \<Rightarrow> wakes n w')"

lemma wakes_state:
  assumes "set (wk_closed w) = {..<wk_ch w}"
  shows "\<exists>w'. wakes n w = Some w' \<and> wk_ch w' = wk_ch w + n \<and> set (wk_closed w') = {..<wk_ch w'}"
  using assms
proof (induction n arbitrary: w)
  case (Suc n)
  let ?w = "\<lparr>wk_ch = wk_ch w + 1, wk_closed = wk_ch w # wk_closed w\<rparr>"
  have "Wake_waker w = Some ?w" using Suc.prems by (simp add: Wake_waker_def)
  moreover have "set (wk_closed ?w) = {..<wk_ch ?w}" using Suc.prems by (auto simp: lessThan_Suc)
  ultimately show ?case using Suc.IH [of ?w] by auto
qed simp

text \<open>
  The channel a waiter takes after \<open>n\<close> wake-ups is closed \<open>m\<close> wake-ups later exactly if there were any, and none
  of them panics.
\<close>

lemma waker_misses_nothing:
  "\<exists>w w'. wakes n NewWaker = Some w \<and> wakes m w = Some w' \<and> (C_waker w \<in> set (wk_closed w') \<longleftrightarrow> 0 < m)"
proof -
  have "set (wk_closed NewWaker) = {..<wk_ch NewWaker}" by (simp add: NewWaker_def)
  from wakes_state [OF this, of n] obtain w where w: "wakes n NewWaker = Some w" "set (wk_closed w) = {..<wk_ch w}" by blast
  from wakes_state [OF w (2), of m] w (1) show ?thesis by (auto simp: C_waker_def)
qed

section \<open>LISTEN and NOTIFY\<close>

definition NotifyChannel :: string where "NotifyChannel = ''conduit_jobs''"

definition Publish_notify :: "(string \<Rightarrow> string \<Rightarrow> err option) \<Rightarrow> string \<Rightarrow> job \<Rightarrow> err option" where
  "Publish_notify pg_notify channel job =
     (case pg_notify channel (j_id job) of Some e \<Rightarrow> Some (Errorf (''queue: notify '' @ channel) [e]) | None \<Rightarrow> None)"

text \<open>What a wait returns: a notification, or an error, with whether the context is done by then.\<close>

datatype notice = Notified | Broken err bool

record listening =
  ls_channel :: string
  ls_connect :: "err option"
  ls_listen :: "err option"
  ls_waits :: "notice list"

datatype listen_result = Blocked | Listened "err option"

fun wait_loop :: "notice list \<Rightarrow> nat \<times> listen_result" where
  "wait_loop [] = (0, Blocked)"
| "wait_loop (Notified # ns) = (case wait_loop ns of (n, res) \<Rightarrow> (n + 1, res))"
| "wait_loop (Broken e ctx_done # ns) =
     (0, Listened (if ctx_done \<or> errors_is e ContextCanceled then None else Some (Errorf ''queue: wait for notification'' [e])))"

definition listen :: "listening \<Rightarrow> nat \<times> listen_result" where
  "listen l =
     (case ls_connect l of Some e \<Rightarrow> (0, Listened (Some (Errorf ''queue: connect listener'' [e])))
      | None \<Rightarrow> (case ls_listen l of Some e \<Rightarrow> (0, Listened (Some (Errorf (''queue: listen on '' @ ls_channel l) [e])))
        | None \<Rightarrow> wait_loop (ls_waits l)))"

text \<open>
  The outer loop: for each connection whether the context is done after it, and whether it ends during the delay. The result
  is the number of wake-ups and whether the loop returned.
\<close>

fun Run_listener :: "(listening \<times> bool \<times> bool) list \<Rightarrow> nat \<times> bool" where
  "Run_listener [] = (0, False)"
| "Run_listener ((l, ctx_done, delay_done) # ls) =
     (case listen l of
        (n, Blocked) \<Rightarrow> (n, False)
      | (n, Listened e) \<Rightarrow>
          if ctx_done \<or> delay_done then (n, True)
          else (case Run_listener ls of (n', returned) \<Rightarrow> (n + n', returned)))"

definition notified :: "listening \<Rightarrow> nat" where
  "notified l = (if ls_connect l = None \<and> ls_listen l = None then length (takeWhile (\<lambda>n. n = Notified) (ls_waits l)) else 0)"

lemma listen_wakes: "fst (listen l) = notified l"
proof -
  have "fst (wait_loop ns) = length (takeWhile (\<lambda>n. n = Notified) ns)" for ns
    by (induction ns rule: wait_loop.induct) (auto split: prod.splits)
  then show ?thesis by (simp add: listen_def notified_def split: option.splits)
qed

lemma listener_wakes_per_notification:
  assumes "Run_listener ls = (n, returned)"
  shows "(\<exists>k\<le>length ls. n = sum_list (map (\<lambda>(l, _). notified l) (take k ls))) \<and> (returned \<longrightarrow> (\<exists>(l, ctx_done, delay_done)\<in>set ls. ctx_done \<or> delay_done))"
  using assms
proof (induction ls arbitrary: n)
  case (Cons x ls)
  obtain l ctx_done delay_done where x: "x = (l, ctx_done, delay_done)" by (cases x)
  obtain m res where m: "listen l = (m, res)" by fastforce
  then have mn: "m = notified l" using listen_wakes [of l] by simp
  show ?case
  proof (cases "res = Blocked \<or> ctx_done \<or> delay_done")
    case True
    with Cons.prems m x have "n = m \<and> (returned \<longrightarrow> ctx_done \<or> delay_done)" by (auto split: listen_result.splits)
    with x mn show ?thesis by (auto intro!: exI [of _ 1])
  next
    case False
    obtain n' where rest: "Run_listener ls = (n', returned)" "n = m + n'"
      using Cons.prems m x False by (auto split: listen_result.splits prod.splits)
    from Cons.IH [OF rest (1)] obtain k where "k \<le> length ls" "n' = sum_list (map (\<lambda>(l, _). notified l) (take k ls))" by blast
    moreover from Cons.IH [OF rest (1)] have "returned \<longrightarrow> (\<exists>(l, ctx_done, delay_done)\<in>set ls. ctx_done \<or> delay_done)" by blast
    ultimately show ?thesis using rest (2) mn x by (intro conjI exI [of _ "Suc k"]) auto
  qed
qed simp

section \<open>Kafka\<close>

text \<open>What the client library is told, of its \<^verbatim>\<open>Config\<close>.\<close>

record sarama_config =
  sc_ClientID :: string
  sc_ChannelBufferSize :: int
  sc_RequiredAcks :: int
  sc_Compression :: int
  sc_FlushFrequency :: duration
  sc_FlushBytes :: int
  sc_ReturnSuccesses :: bool
  sc_ReturnErrors :: bool
  sc_OffsetOldest :: bool

record kafka_client =
  kc_config :: sarama_config
  kc_Topic :: string
  kc_ConsumerGroupID :: string

definition sarama_settings :: "KafkaConfig \<Rightarrow> sarama_config" where
  "sarama_settings cfg =
     \<lparr>sc_ClientID = kafka_ClientID cfg, sc_ChannelBufferSize = kafka_ChannelBufferSize cfg, sc_RequiredAcks = kafka_RequiredAcks cfg,
      sc_Compression = ((kafka_CompressionCodec cfg + 128) mod 256) - 128,
      sc_FlushFrequency = wrap64 (kafka_FlushFrequencyMs cfg * millisecond), sc_FlushBytes = kafka_FlushBytes cfg,
      sc_ReturnSuccesses = True, sc_ReturnErrors = True, sc_OffsetOldest = True\<rparr>"

text \<open>The two constructors of the library are arguments; the flag says whether the producer was closed again.\<close>

definition NewKafkaClient :: "(string list \<Rightarrow> sarama_config \<Rightarrow> err option) \<Rightarrow> (string list \<Rightarrow> string \<Rightarrow> sarama_config \<Rightarrow> err option) \<Rightarrow>
    KafkaConfig \<Rightarrow> (err + kafka_client) \<times> bool" where
  "NewKafkaClient new_producer new_group cfg =
     (let sc = sarama_settings cfg in
      case new_producer (kafka_Brokers cfg) sc of
        Some e \<Rightarrow> (Inl (Errorf ''queue: create producer'' [e]), False)
      | None \<Rightarrow> (case new_group (kafka_Brokers cfg) (kafka_ConsumerGroup cfg) sc of
          Some e \<Rightarrow> (Inl (Errorf ''queue: create consumer group'' [e]), True)
        | None \<Rightarrow> (Inr \<lparr>kc_config = sc, kc_Topic = kafka_Topic cfg, kc_ConsumerGroupID = kafka_ConsumerGroup cfg\<rparr>, False)))"

record producer_message =
  pm_topic :: string
  pm_key :: string
  pm_value :: string
  pm_headers :: "(string \<times> string) list"

definition Publish_kafka :: "(job \<Rightarrow> err + string) \<Rightarrow> (producer_message \<Rightarrow> err option) \<Rightarrow> string \<Rightarrow> job \<Rightarrow> err option" where
  "Publish_kafka marshal send_message topic job =
     (case marshal job of
        Inl e \<Rightarrow> Some (Errorf ''queue: marshal job'' [e])
      | Inr payload \<Rightarrow> send_message \<lparr>pm_topic = topic, pm_key = j_id job, pm_value = payload,
          pm_headers = [(''job_id'', j_id job), (''job_name'', t_name (j_task job))]\<rparr>)"

text \<open>
  What a claim of a partition yields: a message with its offset, whether the session is done when it is handled, and what others did
  to the pool since the last one; or the end. The result is the offsets marked, in order, and the pool.
\<close>

datatype claim_event = Message nat string bool "pool \<Rightarrow> pool" | Ended

text \<open>The pool's answer under the session's context, done or not.\<close>

definition session_submit :: "bool \<Rightarrow> pool \<Rightarrow> job \<Rightarrow> submit_result \<times> pool" where
  "session_submit session_done p job = (if session_done then (Refused, p) else Submit job p)"

definition handle_message :: "(string \<Rightarrow> err + job) \<Rightarrow> string list \<Rightarrow> bool \<Rightarrow> string \<Rightarrow> pool \<Rightarrow> err option \<times> pool" where
  "handle_message decode queues session_done val p =
     (case decode val of
        Inl e \<Rightarrow> (snd (Handle decode (\<lambda>_. False) queues val), p)
      | Inr job \<Rightarrow> (case session_submit session_done p job of (answer, p') \<Rightarrow>
          (snd (Handle decode (\<lambda>_. answer = Accepted) queues val), if claims queues (t_queue (j_task job)) then p' else p)))"

fun ConsumeClaim :: "(string \<Rightarrow> err + job) \<Rightarrow> string list \<Rightarrow> claim_event list \<Rightarrow> pool \<Rightarrow> nat list \<times> pool" where
  "ConsumeClaim decode queues [] p = ([], p)"
| "ConsumeClaim decode queues (Ended # es) p = ([], p)"
| "ConsumeClaim decode queues (Message off val session_done others # es) p =
     (case handle_message decode queues session_done val (others p) of (err, p') \<Rightarrow>
        if p_crashed p' then ([], p')
        else (case ConsumeClaim decode queues es p' of (marked, p'') \<Rightarrow> (if err = None then off # marked else marked, p'')))"

text \<open>The others that use the pool take steps of it.\<close>

definition others_step :: "claim_event \<Rightarrow> bool" where
  "others_step e \<longleftrightarrow> (case e of Message off val session_done others \<Rightarrow> \<forall>p. pool_step\<^sup>*\<^sup>* p (others p) | Ended \<Rightarrow> True)"

text \<open>The offsets of the messages of a claim.\<close>

definition offsets :: "claim_event list \<Rightarrow> nat list" where
  "offsets es = concat (map (\<lambda>e. case e of Message off val session_done others \<Rightarrow> [off] | Ended \<Rightarrow> []) es)"

text \<open>A message that is settled: not a job, not for this instance, or in the hands of the pool.\<close>

definition settled_by :: "(string \<Rightarrow> err + job) \<Rightarrow> string list \<Rightarrow> pool \<Rightarrow> string \<Rightarrow> bool" where
  "settled_by decode queues p val \<longleftrightarrow>
     (case decode val of Inl e \<Rightarrow> True | Inr job \<Rightarrow> claims queues (t_queue (j_task job)) \<longrightarrow> job \<in> set (p_accepted p))"

lemma pool_step_accepted: "pool_step p p' \<Longrightarrow> set (p_accepted p) \<subseteq> set (p_accepted p')"
  by (induction rule: pool_step.induct) (auto simp: Submit_def SubmitBlocking_def send_def split: if_splits)

lemma pool_steps_accepted: "pool_step\<^sup>*\<^sup>* p p' \<Longrightarrow> set (p_accepted p) \<subseteq> set (p_accepted p')"
  by (induction rule: rtranclp_induct) (use pool_step_accepted in blast)+

lemma pool_steps_reachable: "pool_step\<^sup>*\<^sup>* p p' \<Longrightarrow> pool_reachable cfg p \<Longrightarrow> pool_reachable cfg p'"
  by (induction rule: rtranclp_induct) (use pool_reachable.step in blast)+

lemma session_submit_step:
  assumes "session_submit d p job = (answer, p')"
  shows "pool_step\<^sup>*\<^sup>* p p' \<and> (answer = Accepted \<longrightarrow> job \<in> set (p_accepted p'))"
proof (cases d)
  case False
  then have sub: "Submit job p = (answer, p')" using assms by (simp add: session_submit_def)
  then have "answer = Accepted \<longrightarrow> job \<in> set (p_accepted p')" by (auto simp: Submit_def send_def split: if_splits)
  with pool_step.submit [OF sub] show ?thesis by auto
qed (use assms in \<open>simp add: session_submit_def\<close>)

lemma handle_message_step:
  assumes "handle_message decode queues d val p = (err, p')"
  shows "pool_step\<^sup>*\<^sup>* p p' \<and> (err = None \<longrightarrow> settled_by decode queues p' val)"
proof (cases "decode val")
  case (Inr job)
  obtain answer q where q: "session_submit d p job = (answer, q)" by fastforce
  from session_submit_step [OF q] q Inr assms show ?thesis
    by (auto simp: handle_message_def Handle_def settled_by_def split: if_splits)
qed (use assms in \<open>simp add: handle_message_def settled_by_def\<close>)

lemma consume_claim_run:
  assumes "ConsumeClaim decode queues es p = (marked, p')" "list_all others_step es"
  shows "pool_step\<^sup>*\<^sup>* p p' \<and> subseq marked (offsets es) \<and>
    (\<forall>off\<in>set marked. \<exists>val d others. Message off val d others \<in> set es \<and> settled_by decode queues p' val)"
  using assms
proof (induction es arbitrary: p marked)
  case (Cons e es)
  show ?case
  proof (cases e)
    case (Message off val d others)
    obtain err q where q: "handle_message decode queues d val (others p) = (err, q)" by fastforce
    have "pool_step\<^sup>*\<^sup>* p (others p)" using Cons.prems Message by (simp add: others_step_def)
    with handle_message_step [OF q] have step: "pool_step\<^sup>*\<^sup>* p q" and settled: "err = None \<longrightarrow> settled_by decode queues q val" by auto
    show ?thesis
    proof (cases "p_crashed q")
      case True
      with Cons.prems Message q step show ?thesis by simp
    next
      case False
      obtain marked' where rest: "ConsumeClaim decode queues es q = (marked', p')" "marked = (if err = None then off # marked' else marked')"
        using Cons.prems Message q False by (auto split: prod.splits)
      note IH = Cons.IH [OF rest (1)]
      have IH1: "pool_step\<^sup>*\<^sup>* q p'" "subseq marked' (offsets es)"
        and IH2: "\<And>off. off \<in> set marked' \<Longrightarrow> \<exists>val d others. Message off val d others \<in> set es \<and> settled_by decode queues p' val"
        using IH Cons.prems by auto
      have "err = None \<longrightarrow> settled_by decode queues p' val"
        using settled pool_steps_accepted [OF IH1 (1)] by (auto simp: settled_by_def split: sum.splits)
      moreover have "subseq marked (offsets (e # es))" using IH1 (2) rest (2) Message by (auto simp: offsets_def)
      moreover have "pool_step\<^sup>*\<^sup>* p p'" using step IH1 (1) by simp
      ultimately show ?thesis using IH2 rest (2) Message by (auto split: if_splits) blast+
    qed
  qed (use Cons.prems in \<open>simp add: offsets_def\<close>)
qed (simp add: offsets_def)

text \<open>
  C18. Kafka messages and the pool. Whatever a claim of a partition delivers, and whoever else uses the pool meanwhile,
  the consumer only takes steps of the pool, so its bounds keep; it marks offsets in the order of the claim; and
  every message it marks is no job, a job of a queue of other instances, or a job the pool has accepted: no
  message is marked whose job this instance should take and has refused.
\<close>

theorem consumer_marks_settled:
  assumes "pool_reachable cfg p" "list_all others_step es" "ConsumeClaim decode queues es p = (marked, p')"
  shows "pool_reachable cfg p' \<and> subseq marked (offsets es) \<and>
    (\<forall>off\<in>set marked. \<exists>val d others. Message off val d others \<in> set es \<and> settled_by decode queues p' val)"
  using consume_claim_run [OF assms (3,2)] pool_steps_reachable [OF _ assms (1)] by blast

theorem consumer_marks_settled_witness:
  "\<exists>p'. ConsumeClaim (\<lambda>_. Inr zero_job) [] [Message 3 ''a'' False id, Message 4 ''b'' False id] (Start_pool (NewPool \<lparr>Concurrency = 1, QueueSize = 1\<rparr>)) = ([3], p') \<and>
     pool_reachable \<lparr>Concurrency = 1, QueueSize = 1\<rparr> p' \<and> settled_by (\<lambda>_. Inr zero_job) [] p' ''a''"
proof -
  let ?p = "Start_pool (NewPool \<lparr>Concurrency = 1, QueueSize = 1\<rparr>)" let ?es = "[Message 3 ''a'' False id, Message 4 ''b'' False id]"
  have run: "ConsumeClaim (\<lambda>_. Inr zero_job) [] ?es ?p = ([3], send zero_job ?p)"
    by (simp add: handle_message_def session_submit_def Handle_def claims_def Submit_def room_def idle_def send_def Start_pool_def NewPool_def)
  have "list_all others_step ?es" by (simp add: others_step_def)
  from consumer_marks_settled [OF pool_reachable.init this run] run show ?thesis by (auto simp: settled_by_def)
qed

text \<open>\<^verbatim>\<open>Consume\<close> joins the group again after each rebalance, until that fails or the context is done.\<close>

fun Consume :: "(err option \<times> err option) list \<Rightarrow> err option option" where
  "Consume [] = None"
| "Consume ((e, ctx_err) # es) = (if e \<noteq> None then Some e else if ctx_err \<noteq> None then Some ctx_err else Consume es)"

lemma Consume_returns_error: "Consume es \<noteq> Some None"
  by (induction es rule: Consume.induct) auto

definition Close_kafka :: "err option \<Rightarrow> err option \<Rightarrow> err option" where
  "Close_kafka producer_close group_close =
     (let errs = (case producer_close of Some e \<Rightarrow> [e] | None \<Rightarrow> []) @ (case group_close of Some e \<Rightarrow> [e] | None \<Rightarrow> []) in
      if errs = [] then None else Some (Errorf [] errs))"

end
