(* ===== verification/Reconciler.thy ===== *)
theory Reconciler
  imports Store_System
begin

text \<open>
  \<^verbatim>\<open>internal/reconciler/reconciler.go\<close>: the loop that recovers expired leases, claims due jobs for the
  worker pool, prunes finished jobs and samples the backlog. One pass is \<open>reconcile\<close>. Its
  environment \<open>pass\<close> holds, for every statement of the pass, the database \<open>call\<close>, and the clock
  readings, the random bytes, the answers of \<^verbatim>\<open>Submitter.SubmitBlocking\<close> and the points at which the
  context is found to be done.

  Shown here: a pass hands out every due job its batch has room for; a retention sweep deletes what is
  past its age and nothing else, completely up to its cap; and a job claimed when the pool shuts
  down is not handed back, because the hand-back runs under the context whose end caused it.
\<close>

section \<open>Configuration\<close>

record reconciler_config =
  rc_interval :: duration
  rc_idle_interval :: duration
  rc_batch_size :: int
  rc_running_lease :: duration
  rc_queues :: "string list"
  rc_completed :: duration
  rc_dead :: duration
  rc_sweep_interval :: duration
  rc_sweep_batch :: int
  rc_backlog_interval :: duration
  rc_metrics :: bool   \<comment> \<open>\<^verbatim>\<open>cfg.Metrics != nil\<close>\<close>

definition maxSweepBatches :: nat where "maxSweepBatches = 20"

record reconciler =
  rc_cfg :: reconciler_config
  rc_wake :: bool      \<comment> \<open>the channel of depth 1 holds a wake-up\<close>
  lastSweep :: time
  lastBacklog :: time

definition New_reconciler :: "reconciler_config \<Rightarrow> reconciler" where
  "New_reconciler cfg =
     (let c1 = (if rc_interval cfg \<le> 0 then cfg\<lparr>rc_interval := minute\<rparr> else cfg);
          c2 = (if rc_idle_interval c1 \<le> 0 then c1\<lparr>rc_idle_interval := rc_interval c1\<rparr> else c1);
          c3 = (if rc_idle_interval c2 < rc_interval c2 then c2\<lparr>rc_idle_interval := rc_interval c2\<rparr> else c2);
          c4 = (if rc_batch_size c3 \<le> 0 then c3\<lparr>rc_batch_size := 100\<rparr> else c3);
          c5 = (if rc_running_lease c4 \<le> 0 then c4\<lparr>rc_running_lease := 5 * minute\<rparr> else c4);
          c6 = (if rc_sweep_interval c5 \<le> 0 then c5\<lparr>rc_sweep_interval := hour\<rparr> else c5);
          c7 = (if rc_sweep_batch c6 \<le> 0 then c6\<lparr>rc_sweep_batch := 1000\<rparr> else c6);
          c8 = (if rc_backlog_interval c7 = 0 then c7\<lparr>rc_backlog_interval := 10 * second\<rparr> else c7)
      in \<lparr>rc_cfg = c8, rc_wake = False, lastSweep = zero_time, lastBacklog = zero_time\<rparr>)"

definition Wake :: "reconciler \<Rightarrow> reconciler" where
  "Wake r = r\<lparr>rc_wake := True\<rparr>"

definition nextInterval :: "reconciler \<Rightarrow> bool \<Rightarrow> duration" where
  "nextInterval r hadWork = (if hadWork then rc_interval (rc_cfg r) else rc_idle_interval (rc_cfg r))"

section \<open>One pass\<close>

record pass =
  p_reap :: "jobs call"
  p_done :: "nat \<Rightarrow> bool"                     \<comment> \<open>\<^verbatim>\<open>ctx.Err() != nil\<close> ahead of the claim\<close>
  p_claim :: "nat \<Rightarrow> jobs call"
  p_now :: "nat \<Rightarrow> time"
  p_random :: "nat \<Rightarrow> byte list option"
  p_accept :: "nat \<Rightarrow> bool"                   \<comment> \<open>the answer of \<^verbatim>\<open>SubmitBlocking\<close>\<close>
  p_release :: "jobs call"
  p_release_now :: time
  p_sweep_now :: time
  p_sweep_done :: "job_state \<Rightarrow> nat \<Rightarrow> bool"
  p_delete :: "job_state \<Rightarrow> nat \<Rightarrow> jobs call"
  p_backlog_now :: time
  p_count :: "jobs call"

datatype claim_end = Context_done | Claim_failed | Rejected job | Exhausted

text \<open>The loop \<^verbatim>\<open>for claimed < BatchSize\<close>: the jobs the pool took, and why the loop ended.\<close>

fun claim_loop :: "reconciler_config \<Rightarrow> pass \<Rightarrow> nat \<Rightarrow> nat \<Rightarrow> jobs \<Rightarrow> job list \<times> claim_end \<times> jobs" where
  "claim_loop cfg p i 0 rows = ([], Exhausted, rows)"
| "claim_loop cfg p i (Suc n) rows =
     (if p_done p i then ([], Context_done, rows)
      else (case ClaimNextJob (p_claim p i) (p_now p i) (p_random p i) (rc_running_lease cfg)
                   \<lparr>cf_tenant = '''', cf_queues = rc_queues cfg, cf_names = []\<rparr> rows of
          (Inl e, s) \<Rightarrow> ([], if errors_is e ErrJobNotFound then Exhausted else Claim_failed, s)
        | (Inr job, s) \<Rightarrow>
            if p_accept p i
            then (let (jobs, why, s') = claim_loop cfg p (i + 1) n s in (job # jobs, why, s'))
            else ([], Rejected job, snd (ReleaseClaim (p_release p) (p_release_now p) job
                    ''worker pool rejected claimed job'' (rc_interval cfg) s))))"

text \<open>The batches of one retention target: how many rows went, and whether the pass goes on.\<close>

fun sweep_batches :: "pass \<Rightarrow> job_state \<Rightarrow> time \<Rightarrow> int \<Rightarrow> nat \<Rightarrow> nat \<Rightarrow> jobs \<Rightarrow> nat \<times> bool \<times> jobs" where
  "sweep_batches p st before batch i 0 rows = (0, True, rows)"
| "sweep_batches p st before batch i (Suc k) rows =
     (if p_sweep_done p st i then (0, False, rows)
      else (case DeleteFinished (p_delete p st i) st before batch rows of
          (Inl e, s) \<Rightarrow> (0, True, s)
        | (Inr n, s) \<Rightarrow>
            if int n < batch then (n, True, s)
            else (let (m, go, s') = sweep_batches p st before batch (i + 1) k s in (n + m, go, s'))))"

definition sweep_target :: "pass \<Rightarrow> reconciler_config \<Rightarrow> job_state \<Rightarrow> duration \<Rightarrow> jobs \<Rightarrow> bool \<times> jobs" where
  "sweep_target p cfg st age rows =
     (if age \<le> 0 then (True, rows)
      else snd (sweep_batches p st (p_sweep_now p - age) (rc_sweep_batch cfg) 0 maxSweepBatches rows))"

definition sweepRetention :: "pass \<Rightarrow> reconciler \<Rightarrow> jobs \<Rightarrow> reconciler \<times> jobs" where
  "sweepRetention p r rows =
     (let cfg = rc_cfg r in
      if rc_completed cfg \<le> 0 \<and> rc_dead cfg \<le> 0 then (r, rows)
      else if lastSweep r \<noteq> zero_time \<and> time_sub (p_sweep_now p) (lastSweep r) < rc_sweep_interval cfg then (r, rows)
      else (let r' = r\<lparr>lastSweep := p_sweep_now p\<rparr>;
                (go, s) = sweep_target p cfg JobStateCompleted (rc_completed cfg) rows
            in if go then (r', snd (sweep_target p cfg JobStateDead (rc_dead cfg) s)) else (r', s)))"

text \<open>The gauge values a sample sets; \<open>None\<close> when it sets none.\<close>

definition sampleBacklog :: "pass \<Rightarrow> reconciler \<Rightarrow> jobs \<Rightarrow> (string \<times> nat) list option \<times> reconciler \<times> jobs" where
  "sampleBacklog p r rows =
     (let cfg = rc_cfg r in
      if \<not> rc_metrics cfg \<or> rc_backlog_interval cfg < 0 then (None, r, rows)
      else if lastBacklog r \<noteq> zero_time \<and> time_sub (p_backlog_now p) (lastBacklog r) < rc_backlog_interval cfg
      then (None, r, rows)
      else (let r' = r\<lparr>lastBacklog := p_backlog_now p\<rparr> in
            case CountByState (p_count p) rows of
              (Inl e, s) \<Rightarrow> (None, r', s)
            | (Inr counts, s) \<Rightarrow>
                (Some (map (\<lambda>st. (state_string st, case map_of counts st of None \<Rightarrow> 0 | Some n \<Rightarrow> n)) BacklogStates), r', s)))"

definition reconcile :: "pass \<Rightarrow> reconciler \<Rightarrow> jobs \<Rightarrow>
    (bool \<times> job list \<times> (string \<times> nat) list option) \<times> reconciler \<times> jobs" where
  "reconcile p r rows =
     (let cfg = rc_cfg r;
          (requeued, s1) = RequeueExpiredRunning (p_reap p) (rc_batch_size cfg) rows;
          hadWork = (case requeued of Inl e \<Rightarrow> True | Inr n \<Rightarrow> 0 < n);
          (taken, why, s2) = claim_loop cfg p 0 (nat (rc_batch_size cfg)) s1
      in case why of
           Context_done \<Rightarrow> ((hadWork, taken, None), r, s2)
         | Claim_failed \<Rightarrow> ((True, taken, None), r, s2)
         | Rejected job \<Rightarrow> ((True, taken, None), r, s2)
         | Exhausted \<Rightarrow>
             (let (r', s3) = sweepRetention p r s2;
                  (gauge, r'', s4) = sampleBacklog p r' s3
              in ((hadWork \<or> taken \<noteq> [], taken, gauge), r'', s4)))"

section \<open>Handing out due jobs\<close>

lemma filter_replace:
  assumes "distinct xs" "r \<in> set xs" "P r" "\<not> P y"
  shows "Suc (length (filter P (map (\<lambda>x. if x = r then y else x) xs))) = length (filter P xs)"
  using assms
proof (induction xs)
  case (Cons a xs)
  have same: "map (\<lambda>x. if x = r then y else x) xs = xs" if "r \<notin> set xs" using that by (auto intro: map_idI)
  show ?case using Cons same by (cases "a = r") auto
qed simp

lemma claim_quiet:
  assumes "ClaimNextJob (quiet t) now (Some bytes) lease flt rows = (res, rows')" "distinct (map r_id rows)"
    and "\<forall>r\<in>set rows. claimable t flt r \<longrightarrow> int4 (r_attempt r + 1)"
  shows "res = Inl (Sentinel ErrJobNotFound) \<and> rows' = rows \<and> filter (claimable t flt) rows = [] \<or>
    (\<exists>r\<in>set rows. claimable t flt r \<and> res = Inr (scanJob (claim_set now (now + lease) (hex_encode bytes) r)) \<and>
      rows' = map (\<lambda>x. if x = r then claim_set now (now + lease) (hex_encode bytes) r else x) rows)"
proof (cases "first_by claim_key (filter (claimable t flt) rows)")
  case None
  then have "res = Inl (Sentinel ErrJobNotFound) \<and> rows' = rows"
    using assms(1) by (simp add: ClaimNextJob_def newLeaseToken_def claim_stmt_def del: first_by_None)
  with None show ?thesis by simp
next
  case (Some r)
  from first_by_Some(1) [OF Some] have r: "r \<in> set rows" "claimable t flt r" by auto
  have upd: "snd (sql_update (\<lambda>x. r_id x = r_id r) (claim_set now (now + lease) (hex_encode bytes)) rows) =
      map (\<lambda>x. if x = r then claim_set now (now + lease) (hex_encode bytes) r else x) rows"
    unfolding sql_update_def snd_conv by (rule select_by_id [OF assms(2) r(1) refl])
  with assms(1,3) Some r show ?thesis by (auto simp: ClaimNextJob_def newLeaseToken_def claim_stmt_def)
qed

text \<open>A pass with nobody interfering: every reply arrives, the pool takes every job.\<close>

definition calm :: "time \<Rightarrow> pass \<Rightarrow> bool" where
  "calm t p \<longleftrightarrow> p_reap p = quiet t \<and> (\<forall>i. \<not> p_done p i \<and> p_claim p i = quiet t \<and> p_random p i \<noteq> None \<and> p_accept p i) \<and>
     (\<forall>st i. \<not> p_sweep_done p st i \<and> p_delete p st i = quiet t) \<and> p_count p = quiet t"

abbreviation pass_filter :: "reconciler_config \<Rightarrow> claim_filter" where
  "pass_filter cfg \<equiv> \<lparr>cf_tenant = '''', cf_queues = rc_queues cfg, cf_names = []\<rparr>"

lemma claim_loop_spec:
  assumes "calm t p" "claim_loop cfg p i n rows = (taken, why, rows')" "distinct (map r_id rows)"
    and "\<forall>r\<in>set rows. claimable t (pass_filter cfg) r \<longrightarrow> int4 (r_attempt r + 1)"
  shows "why = Exhausted \<and> map r_id rows' = map r_id rows \<and>
    length taken = min n (length (filter (claimable t (pass_filter cfg)) rows)) \<and>
    length (filter (claimable t (pass_filter cfg)) rows') = length (filter (claimable t (pass_filter cfg)) rows) - length taken \<and>
    distinct (map j_id taken) \<and>
    (\<forall>j\<in>set taken. \<exists>r\<in>set rows. claimable t (pass_filter cfg) r \<and> j_id j = r_id r \<and> j_state j = JobStateRunning \<and>
      j_attempt j = r_attempt r + 1)"
  using assms(2-)
proof (induction n arbitrary: i rows taken)
  case (Suc n)
  let ?flt = "pass_filter cfg"
  from assms(1) obtain bytes where b: "p_random p i = Some bytes" and calm: "\<not> p_done p i" "p_claim p i = quiet t" "p_accept p i"
    unfolding calm_def by blast
  obtain res s where c: "ClaimNextJob (quiet t) (p_now p i) (Some bytes) (rc_running_lease cfg) ?flt rows = (res, s)" by fastforce
  from claim_quiet [OF c Suc.prems(2,3)] show ?case
  proof (elim disjE conjE bexE)
    assume "res = Inl (Sentinel ErrJobNotFound)" "s = rows" "filter (claimable t ?flt) rows = []"
    with Suc.prems(1) b calm c show ?thesis by simp
  next
    fix r let ?r' = "claim_set (p_now p i) (p_now p i + rc_running_lease cfg) (hex_encode bytes) r"
    assume r: "r \<in> set rows" "claimable t ?flt r" "res = Inr (scanJob ?r')" "s = map (\<lambda>x. if x = r then ?r' else x) rows"
    obtain rest why' s' where rest: "claim_loop cfg p (i + 1) n s = (rest, why', s')" by (metis prod_cases3)
    from Suc.prems(1) b calm c r(3) rest have T: "taken = scanJob ?r' # rest" "why = why'" "rows' = s'" by simp_all
    have idle: "\<not> claimable t ?flt ?r'" by (simp add: claimable_def claim_set_def)
    have ids: "map r_id s = map r_id rows" unfolding r(4) by (auto simp: claim_set_def)
    have sub: "x \<in> set rows \<and> x \<noteq> r" if "x \<in> set s" "claimable t ?flt x" for x
      using that idle unfolding r(4) by (auto split: if_splits)
    have n: "Suc (length (filter (claimable t ?flt) s)) = length (filter (claimable t ?flt) rows)"
      unfolding r(4) by (rule filter_replace [OF distinct_ids [OF Suc.prems(2)] r(1,2) idle])
    have IH: "why' = Exhausted" "map r_id s' = map r_id s" "length rest = min n (length (filter (claimable t ?flt) s))"
      "length (filter (claimable t ?flt) s') = length (filter (claimable t ?flt) s) - length rest" "distinct (map j_id rest)"
      "\<forall>j\<in>set rest. \<exists>r\<in>set s. claimable t ?flt r \<and> j_id j = r_id r \<and> j_state j = JobStateRunning \<and> j_attempt j = r_attempt r + 1"
      using Suc.IH [OF rest [folded T]] Suc.prems(2,3) sub ids T by auto
    have "r_id r \<notin> j_id ` set rest"
    proof
      assume "r_id r \<in> j_id ` set rest"
      with IH(6) obtain x where "x \<in> set s" "claimable t ?flt x" "r_id x = r_id r" by force
      with sub distinct_map_inj [OF Suc.prems(2), of x r] r(1) show False by blast
    qed
    then show ?thesis unfolding T using IH n ids r(1,2) sub by (fastforce simp: scanJob_def claim_set_def)
  qed
qed simp

lemma New_reconciler_bounds:
  "0 < rc_batch_size (rc_cfg (New_reconciler cfg))" "0 < rc_sweep_batch (rc_cfg (New_reconciler cfg))"
  "0 < rc_interval (rc_cfg (New_reconciler cfg))" "rc_interval (rc_cfg (New_reconciler cfg)) \<le> rc_idle_interval (rc_cfg (New_reconciler cfg))"
  by (simp_all add: New_reconciler_def Let_def)

section \<open>Retention\<close>

definition prunables :: "job_state \<Rightarrow> time \<Rightarrow> jobs \<Rightarrow> job_row set" where
  "prunables st before rows = {r \<in> set rows. prunable st before r}"

lemma min_batches: "b \<le> c \<Longrightarrow> b + min x (c - b) = min (b + x) (c :: nat)"
  by simp

lemma sweep_batches_spec:
  assumes "calm t p" "st = JobStateCompleted \<or> st = JobStateDead" "0 < batch"
    and "sweep_batches p st before batch i k rows = (m, go, rows')" "distinct (map r_id rows)"
  shows "go \<and> (\<exists>B \<subseteq> prunables st before rows. rows' = filter (\<lambda>r. r \<notin> B) rows \<and>
    card B = min (k * nat batch) (card (prunables st before rows)))"
  using assms(4,5)
proof (induction k arbitrary: i rows m)
  case 0
  then show ?case by (auto intro!: exI [of _ "{}"])
next
  case (Suc k)
  let ?P = "prunables st before"
  have calm: "\<not> p_sweep_done p st i" "p_delete p st i = quiet t" using assms(1) by (simp_all add: calm_def)
  have "\<exists>n s. DeleteFinished (quiet t) st before batch rows = (Inr n, s)"
    using assms(2,3) by (auto simp: DeleteFinished_def delete_stmt_def Let_def)
  then obtain n s where d: "DeleteFinished (quiet t) st before batch rows = (Inr n, s)" by blast
  have "distinct (map r_id (rely (quiet t) rows))" using Suc.prems(2) by simp
  from DeleteFinished_batch [OF d assms(3) this] obtain B where
    B: "B \<subseteq> ?P rows" "n = card B" "n = min (nat batch) (card (?P rows))" "s = filter (\<lambda>r. r \<notin> B) rows"
    unfolding prunables_def quiet_simps by blast
  have fin: "finite (?P rows)" by (simp add: prunables_def)
  show ?case
  proof (cases "int n < batch")
    case True
    with B(3) have "card B = min (Suc k * nat batch) (card (?P rows))" using B(2) by auto
    moreover have "go" "rows' = s" using Suc.prems(1) calm d True by auto
    ultimately show ?thesis using B(1,4) by blast
  next
    case False
    obtain m' go' s' where rest: "sweep_batches p st before batch (i + 1) k s = (m', go', s')" by (metis prod_cases3)
    from Suc.prems(1) calm d False rest have T: "go = go'" "rows' = s'" by auto
    have "distinct (map r_id s)" unfolding B(4) using Suc.prems(2) by (simp add: distinct_map inj_on_def)
    from Suc.IH [OF rest [folded T] this] obtain C where
      C: "go" "C \<subseteq> ?P s" "rows' = filter (\<lambda>r. r \<notin> C) s" "card C = min (k * nat batch) (card (?P s))" using T by auto
    have Ps: "?P s = ?P rows - B" unfolding B(4) by (auto simp: prunables_def)
    then have "card (?P s) = card (?P rows) - card B" using B(1) fin by (simp add: card_Diff_subset finite_subset)
    moreover have "card (B \<union> C) = card B + card C"
      using B(1) C(2) Ps fin by (intro card_Un_disjoint) (auto intro: finite_subset)
    moreover have "card B = nat batch" using False B(2,3) assms(3) by auto
    ultimately have "card (B \<union> C) = min (Suc k * nat batch) (card (?P rows))" using C(4) B(2,3) min_batches [of "nat batch" "card (?P rows)" "k * nat batch"] by simp
    moreover have "rows' = filter (\<lambda>r. r \<notin> B \<union> C) rows" unfolding C(3) B(4) by (auto intro: filter_cong)
    moreover have "B \<union> C \<subseteq> ?P rows" using B(1) C(2) Ps by blast
    ultimately show ?thesis using C(1) by blast
  qed
qed

lemma sweep_target_spec:
  assumes "calm t p" "st = JobStateCompleted \<or> st = JobStateDead" "0 < rc_sweep_batch cfg" "distinct (map r_id rows)"
  shows "fst (sweep_target p cfg st age rows) \<and> (\<exists>B \<subseteq> prunables st (p_sweep_now p - age) rows.
    snd (sweep_target p cfg st age rows) = filter (\<lambda>r. r \<notin> B) rows \<and>
    (if age \<le> 0 then B = {} else
       card B = min (20 * nat (rc_sweep_batch cfg)) (card (prunables st (p_sweep_now p - age) rows))))"
proof (cases "age \<le> 0")
  case True
  then show ?thesis by (auto simp: sweep_target_def intro!: exI [of _ "{}"])
next
  case False
  obtain m go s where e: "sweep_batches p st (p_sweep_now p - age) (rc_sweep_batch cfg) 0 maxSweepBatches rows = (m, go, s)"
    by (metis prod_cases3)
  from sweep_batches_spec [OF assms(1-3) e assms(4)] False e show ?thesis by (simp add: sweep_target_def maxSweepBatches_def)
qed

lemma prunables_other: "st \<noteq> st' \<Longrightarrow> B \<subseteq> prunables st' b' rows \<Longrightarrow> prunables st b (filter (\<lambda>r. r \<notin> B) rows) = prunables st b rows"
  by (auto simp: prunables_def prunable_def)

text \<open>
  Retention deletes what is past its age, and only that. A sweep that runs removes a set of
  COMPLETED rows older than the completed age and a set of DEAD rows older than the dead age, where
  an age of zero means keep forever; everything else stays, in its place. Of each it removes all there
  are, up to twenty batches, so a backlog shrinks with every sweep until none is left. A sweep is
  recorded, and none runs again within the interval.
\<close>

lemma sweep_deletes_expired:
  assumes "calm t p" "distinct (map r_id rows)" "0 < rc_sweep_batch (rc_cfg r)" "sweepRetention p r rows = (r', rows')"
    and "0 < rc_completed (rc_cfg r) \<or> 0 < rc_dead (rc_cfg r)"
    and "lastSweep r = zero_time \<or> rc_sweep_interval (rc_cfg r) \<le> time_sub (p_sweep_now p) (lastSweep r)"
  shows "\<exists>C D. rows' = filter (\<lambda>x. x \<notin> C \<union> D) rows \<and>
    C \<subseteq> prunables JobStateCompleted (p_sweep_now p - rc_completed (rc_cfg r)) rows \<and>
    D \<subseteq> prunables JobStateDead (p_sweep_now p - rc_dead (rc_cfg r)) rows \<and>
    (if rc_completed (rc_cfg r) \<le> 0 then C = {} else card C = min (20 * nat (rc_sweep_batch (rc_cfg r)))
       (card (prunables JobStateCompleted (p_sweep_now p - rc_completed (rc_cfg r)) rows))) \<and>
    (if rc_dead (rc_cfg r) \<le> 0 then D = {} else card D = min (20 * nat (rc_sweep_batch (rc_cfg r)))
       (card (prunables JobStateDead (p_sweep_now p - rc_dead (rc_cfg r)) rows))) \<and>
    (p_sweep_now p \<noteq> zero_time \<and> time_sub (p_sweep_now p') (p_sweep_now p) < rc_sweep_interval (rc_cfg r) \<longrightarrow>
       sweepRetention p' r' rows' = (r', rows'))"
proof -
  let ?cfg = "rc_cfg r"
  from sweep_target_spec [OF assms(1) _ assms(3,2), of JobStateCompleted "rc_completed ?cfg"] obtain C where
    C: "fst (sweep_target p ?cfg JobStateCompleted (rc_completed ?cfg) rows)"
      "C \<subseteq> prunables JobStateCompleted (p_sweep_now p - rc_completed ?cfg) rows"
      "snd (sweep_target p ?cfg JobStateCompleted (rc_completed ?cfg) rows) = filter (\<lambda>x. x \<notin> C) rows"
      "if rc_completed ?cfg \<le> 0 then C = {} else card C = min (20 * nat (rc_sweep_batch ?cfg))
         (card (prunables JobStateCompleted (p_sweep_now p - rc_completed ?cfg) rows))" by blast
  let ?s = "filter (\<lambda>x. x \<notin> C) rows"
  have "distinct (map r_id ?s)" using assms(2) by (simp add: distinct_map inj_on_def)
  from sweep_target_spec [OF assms(1) _ assms(3) this, of JobStateDead "rc_dead ?cfg"] obtain D where
    D: "D \<subseteq> prunables JobStateDead (p_sweep_now p - rc_dead ?cfg) ?s"
      "snd (sweep_target p ?cfg JobStateDead (rc_dead ?cfg) ?s) = filter (\<lambda>x. x \<notin> D) ?s"
      "if rc_dead ?cfg \<le> 0 then D = {} else card D = min (20 * nat (rc_sweep_batch ?cfg))
         (card (prunables JobStateDead (p_sweep_now p - rc_dead ?cfg) ?s))" by blast
  have Ps: "prunables JobStateDead b ?s = prunables JobStateDead b rows" for b
    by (rule prunables_other [OF _ C(2)]) simp
  have run: "r' = r\<lparr>lastSweep := p_sweep_now p\<rparr> \<and> rows' = filter (\<lambda>x. x \<notin> D) ?s"
    using assms(4-6) C(1,3) D(2) by (auto simp: sweepRetention_def Let_def split: prod.splits if_splits)
  moreover have "filter (\<lambda>x. x \<notin> D) ?s = filter (\<lambda>x. x \<notin> C \<union> D) rows" by (auto intro: filter_cong)
  moreover have "sweepRetention p' r' rows' = (r', rows')"
    if "p_sweep_now p \<noteq> zero_time" "time_sub (p_sweep_now p') (p_sweep_now p) < rc_sweep_interval ?cfg"
    using that run by (simp add: sweepRetention_def Let_def)
  ultimately show ?thesis using C(2,4) D(1,3) unfolding Ps by (intro exI [of _ C] exI [of _ D]) simp
qed

definition example_reconciler :: reconciler where
  "example_reconciler = New_reconciler \<lparr>rc_interval = 0, rc_idle_interval = 0, rc_batch_size = 0, rc_running_lease = 0, rc_queues = [],
     rc_completed = 0, rc_dead = hour, rc_sweep_interval = 0, rc_sweep_batch = 0, rc_backlog_interval = 0, rc_metrics = False\<rparr>"

definition example_pass :: pass where
  "example_pass = \<lparr>p_reap = quiet 0, p_done = (\<lambda>_. False), p_claim = (\<lambda>_. quiet 0), p_now = (\<lambda>_. 0), p_random = (\<lambda>_. Some [7]),
     p_accept = (\<lambda>_. True), p_release = quiet 0, p_release_now = 0, p_sweep_now = 2 * hour, p_sweep_done = (\<lambda>_ _. False),
     p_delete = (\<lambda>_ _. quiet 0), p_backlog_now = 0, p_count = quiet 0\<rparr>"

lemma calm_example: "calm 0 example_pass"
  by (simp add: calm_def example_pass_def)

lemma sweep_deletes_expired_witness:
  "\<exists>p r rows'. calm 0 p \<and>
     sweepRetention p r [cancel_set 5000 (example_row ''a'' 0), example_row ''b'' 0] = (r\<lparr>lastSweep := p_sweep_now p\<rparr>, rows') \<and>
     rows' = [example_row ''b'' 0]"
proof -
  let ?a = "cancel_set 5000 (example_row ''a'' 0)" and ?b = "example_row ''b'' 0"
  let ?r = example_reconciler and ?p = example_pass
  have c: "calm 0 ?p" by (rule calm_example)
  have i: "distinct (map r_id [?a, ?b])" by (simp add: cancel_set_def)
  obtain r' rows' where e: "sweepRetention ?p ?r [?a, ?b] = (r', rows')" by (metis surj_pair)
  have cfg: "rc_completed (rc_cfg ?r) = 0" "rc_dead (rc_cfg ?r) = hour" "rc_sweep_batch (rc_cfg ?r) = 1000" "lastSweep ?r = zero_time"
    by (simp_all add: New_reconciler_def example_reconciler_def)
  have n: "p_sweep_now ?p = 2 * hour" by (simp add: example_pass_def)
  have P: "prunables JobStateDead (p_sweep_now ?p - rc_dead (rc_cfg ?r)) [?a, ?b] = {?a}"
    by (auto simp: cfg n prunables_def prunable_def cancel_set_def pg_ts_def)
  have "0 < rc_sweep_batch (rc_cfg ?r)" "0 < rc_completed (rc_cfg ?r) \<or> 0 < rc_dead (rc_cfg ?r)"
    "lastSweep ?r = zero_time \<or> rc_sweep_interval (rc_cfg ?r) \<le> time_sub (p_sweep_now ?p) (lastSweep ?r)"
    by (simp_all add: cfg)
  from sweep_deletes_expired [OF c i this(1) e this(2,3), unfolded P, of ?p] obtain C D where
    CD: "rows' = filter (\<lambda>x. x \<notin> C \<union> D) [?a, ?b]" "D \<subseteq> {?a}" "if rc_completed (rc_cfg ?r) \<le> 0 then C = {} else card C = x"
      "if rc_dead (rc_cfg ?r) \<le> 0 then D = {} else card D = min (20 * nat (rc_sweep_batch (rc_cfg ?r))) (card {?a})" for x
    by (elim exE conjE) (rule that; simp add: cfg)
  then have D: "C = {}" "card D = 1" unfolding cfg by simp_all
  with CD(2) have "D = {?a}" by (auto simp: subset_singleton_iff)
  moreover have "?b \<noteq> ?a" using i by (metis distinct.simps(2) list.set_intros(1) list.simps(9))
  ultimately have "rows' = [?b]" using CD(1) D(1) by auto
  moreover have "r' = ?r\<lparr>lastSweep := p_sweep_now ?p\<rparr>"
    using e by (auto simp: sweepRetention_def cfg Let_def split: prod.splits if_splits)
  ultimately show ?thesis using c e by blast
qed

section \<open>A whole pass\<close>

lemma sweep_subset:
  assumes "calm t p" "distinct (map r_id rows)" "0 < rc_sweep_batch (rc_cfg r)"
  shows "set (snd (sweepRetention p r rows)) \<subseteq> set rows"
proof -
  have T: "set (snd (sweep_target p (rc_cfg r) st age s)) \<subseteq> set s \<and> distinct (map r_id (snd (sweep_target p (rc_cfg r) st age s)))"
    if "st = JobStateCompleted \<or> st = JobStateDead" "distinct (map r_id s)" for st age s
    using sweep_target_spec [OF assms(1) that(1) assms(3) that(2), of age] that(2)
    by (auto simp: distinct_map inj_on_def)
  show ?thesis
    using T [of JobStateCompleted rows "rc_completed (rc_cfg r)"] assms(2)
      T [of JobStateDead "snd (sweep_target p (rc_cfg r) JobStateCompleted (rc_completed (rc_cfg r)) rows)" "rc_dead (rc_cfg r)"]
    by (auto simp: sweepRetention_def Let_def split: prod.splits if_splits)
qed

lemma sampleBacklog_state: "calm t p \<Longrightarrow> snd (snd (sampleBacklog p r rows)) = rows"
  by (simp add: sampleBacklog_def CountByState_def calm_def Let_def)

text \<open>
  C28. A pass leaves no due job behind that its batch has room for. With the pool taking jobs and
  nobody interfering, the jobs submitted are as many as are due in the configured queues after
  the recovery of expired leases, up to the batch size; they are pairwise different, each RUNNING on its next
  attempt; when fewer were due than the batch holds, no claimable job is left. The pass reports work
  if it found any, so that the next one follows after the short interval.
\<close>

theorem reconcile_submits_due:
  assumes "calm t p" "distinct (map r_id rows)" "0 < rc_batch_size (rc_cfg r)" "0 < rc_sweep_batch (rc_cfg r)"
    and "s1 = snd (RequeueExpiredRunning (quiet t) (rc_batch_size (rc_cfg r)) rows)"
    and "\<forall>x\<in>set s1. claimable t (pass_filter (rc_cfg r)) x \<longrightarrow> int4 (r_attempt x + 1)"
    and "reconcile p r rows = ((hadWork, taken, gauge), r', rows')"
  shows "length taken = min (nat (rc_batch_size (rc_cfg r))) (length (filter (claimable t (pass_filter (rc_cfg r))) s1)) \<and>
    distinct (map j_id taken) \<and>
    (\<forall>j\<in>set taken. \<exists>x\<in>set s1. claimable t (pass_filter (rc_cfg r)) x \<and> j_id j = r_id x \<and> j_state j = JobStateRunning \<and>
      j_attempt j = r_attempt x + 1) \<and>
    (length taken < nat (rc_batch_size (rc_cfg r)) \<longrightarrow> (\<forall>x\<in>set rows'. \<not> claimable t (pass_filter (rc_cfg r)) x)) \<and>
    (taken \<noteq> [] \<longrightarrow> hadWork \<and> nextInterval r hadWork = rc_interval (rc_cfg r))"
proof -
  let ?cfg = "rc_cfg r" and ?q = "claimable t (pass_filter (rc_cfg r))"
  have ids: "distinct (map r_id s1)" unfolding assms(5)
    using assms(2,3) by (simp add: RequeueExpiredRunning_def reap_stmt_state upd_reap.map_pk_update)
  obtain taken' why s2 where loop: "claim_loop ?cfg p 0 (nat (rc_batch_size ?cfg)) s1 = (taken', why, s2)" by (metis prod_cases3)
  note L = claim_loop_spec [OF assms(1) loop ids assms(6)]
  obtain rq where rq: "RequeueExpiredRunning (p_reap p) (rc_batch_size ?cfg) rows = (rq, s1)"
    using assms(1,5) by (metis calm_def prod.collapse)
  obtain r1 s3 where sw: "sweepRetention p r s2 = (r1, s3)" by fastforce
  obtain g r2 s4 where bl: "sampleBacklog p r1 s3 = (g, r2, s4)" by (metis prod_cases3)
  from assms(7) rq loop L sw bl have E: "taken = taken'" "rows' = s4" "taken' \<noteq> [] \<longrightarrow> hadWork"
    by (auto simp: reconcile_def Let_def)
  have "s4 = s3" using sampleBacklog_state [OF assms(1), of r1 s3] bl by simp
  moreover have "set s3 \<subseteq> set s2" using sweep_subset [OF assms(1) _ assms(4), of s2] L ids sw by simp
  moreover have "filter ?q s2 = []" if "length taken' < nat (rc_batch_size ?cfg)" using L that by auto
  ultimately have "\<forall>x\<in>set rows'. \<not> ?q x" if "length taken < nat (rc_batch_size ?cfg)"
    using that E by (auto simp: filter_empty_conv)
  moreover have "taken \<noteq> [] \<longrightarrow> hadWork \<and> nextInterval r hadWork = rc_interval ?cfg" using E by (simp add: nextInterval_def)
  ultimately show ?thesis using L unfolding E(1) by blast
qed

theorem reconcile_submits_due_witness:
  "\<exists>hadWork taken gauge r' rows'. reconcile example_pass example_reconciler [waiting_row, example_row ''b'' 5] =
     ((hadWork, taken, gauge), r', rows') \<and> length taken = 2 \<and> hadWork"
proof -
  let ?rows = "[waiting_row, example_row ''b'' 5]" and ?r = example_reconciler
  let ?s = "snd (RequeueExpiredRunning (quiet 0) (rc_batch_size (rc_cfg ?r)) ?rows)"
  obtain hadWork taken gauge r' rows' where e: "reconcile example_pass ?r ?rows = ((hadWork, taken, gauge), r', rows')"
    by (metis surj_pair)
  have cfg: "rc_batch_size (rc_cfg ?r) = 100" "rc_sweep_batch (rc_cfg ?r) = 1000" "rc_queues (rc_cfg ?r) = []"
    by (simp_all add: New_reconciler_def example_reconciler_def)
  have "filter (expired_at 0) ?rows = []" by (simp add: expired_at_def)
  then have s: "?s = ?rows"
    by (simp add: RequeueExpiredRunning_def cfg reap_stmt_def expired_batch_def order_limit_def sql_update_def)
  have d: "distinct (map r_id ?rows)" by simp
  have q: "claimable 0 (pass_filter (rc_cfg ?r)) x" if "x \<in> set ?rows" for x
    using that by (auto simp: claimable_def of_tenant_def cfg)
  have b: "0 < rc_batch_size (rc_cfg ?r)" "0 < rc_sweep_batch (rc_cfg ?r)" by (simp_all add: cfg)
  have i: "\<forall>x\<in>set ?rows. claimable 0 (pass_filter (rc_cfg ?r)) x \<longrightarrow> int4 (r_attempt x + 1)" by (auto simp: int4_def)
  have f: "filter (claimable 0 (pass_filter (rc_cfg ?r))) ?rows = ?rows" using q by (simp add: filter_id_conv)
  from reconcile_submits_due [OF calm_example d b s [symmetric] i e] have "length taken = 2" "taken \<noteq> [] \<longrightarrow> hadWork"
    unfolding f by (auto simp: cfg)
  moreover from this have "hadWork" by auto
  ultimately show ?thesis using e by blast
qed

section \<open>Shutting down\<close>

lemma claim_loop_rejected:
  assumes "claim_loop cfg p i n rows = (taken, Rejected job, rows')"
  shows "\<exists>k s s'. ClaimNextJob (p_claim p k) (p_now p k) (p_random p k) (rc_running_lease cfg) (pass_filter cfg) s = (Inr job, s') \<and>
    \<not> p_accept p k \<and> rows' = snd (ReleaseClaim (p_release p) (p_release_now p) job ''worker pool rejected claimed job'' (rc_interval cfg) s')"
  using assms
proof (induction n arbitrary: i rows taken)
  case (Suc n)
  obtain res s where c: "ClaimNextJob (p_claim p i) (p_now p i) (p_random p i) (rc_running_lease cfg) (pass_filter cfg) rows = (res, s)"
    by fastforce
  show ?case
  proof (cases res)
    case (Inl e)
    with Suc.prems c show ?thesis by (auto split: if_splits)
  next
    case (Inr j)
    show ?thesis
    proof (cases "p_accept p i")
      case True
      obtain jobs why s' where "claim_loop cfg p (i + 1) n s = (jobs, why, s')" by (metis prod_cases3)
      with Suc.prems c Inr True Suc.IH [of "i + 1" s jobs] show ?thesis by (auto split: if_splits)
    next
      case False
      with Suc.prems c Inr show ?thesis by (auto split: if_splits)
    qed
  qed
qed simp

text \<open>
  A job claimed at shutdown is not handed back. \<^verbatim>\<open>SubmitBlocking\<close> refuses a claimed job only when the
  context is done, and the hand-back is sent under the same context, so the driver refuses to send it:
  the request is lost. Then the row keeps the lease, its attempt spent: it is RUNNING with nobody
  running it until the lease expires, although the code means it to be PENDING again after one
  interval.
\<close>

lemma rejected_claim_keeps_lease:
  assumes "reconcile p r rows = ((hadWork, taken, gauge), r', rows')"
    and "fst (snd (claim_loop (rc_cfg r) p 0 (nat (rc_batch_size (rc_cfg r)))
      (snd (RequeueExpiredRunning (p_reap p) (rc_batch_size (rc_cfg r)) rows)))) = Rejected job"
    and "io (p_release p) = Lost_request msg" "rely (p_release p) = (\<lambda>s. s)"
  shows "\<exists>x\<in>set rows'. holds_lease (j_id job) (j_lease_token job) x \<and> r_attempt x = j_attempt job \<and> 
    r_state x = JobStateRunning \<and> hadWork"
proof -
  let ?s1 = "snd (RequeueExpiredRunning (p_reap p) (rc_batch_size (rc_cfg r)) rows)"
  obtain tk why s2 where loop: "claim_loop (rc_cfg r) p 0 (nat (rc_batch_size (rc_cfg r))) ?s1 = (tk, why, s2)" by (metis prod_cases3)
  with assms(2) have why: "why = Rejected job" by simp
  have out: "rows' = s2" "hadWork" using assms(1) loop why by (auto simp: reconcile_def Let_def split: prod.splits)
  from claim_loop_rejected [OF loop [unfolded why]] obtain k s s' where
    c: "ClaimNextJob (p_claim p k) (p_now p k) (p_random p k) (rc_running_lease (rc_cfg r)) (pass_filter (rc_cfg r)) s = (Inr job, s')"
    and "s2 = snd (ReleaseClaim (p_release p) (p_release_now p) job ''worker pool rejected claimed job'' (rc_interval (rc_cfg r)) s')" by blast
  then have s2: "s2 = s'" using assms(3,4) by (simp add: ReleaseClaim_def exec_def Let_def split: prod.splits)
  from c obtain bytes where
    e: "exec (p_claim p k) (claim_stmt (pgnow (p_claim p k)) (locked (p_claim p k)) (p_now p k) (rc_running_lease (rc_cfg r)) (hex_encode bytes)
      (pass_filter (rc_cfg r))) s = (Inr job, s')"
    by (auto simp: ClaimNextJob_def newLeaseToken_def split: option.splits)
  from exec_Inr [OF e] obtain x where first: "first_by claim_key (filter (\<lambda>r'. claimable (pgnow (p_claim p k)) (pass_filter (rc_cfg r)) r' \<and>
      \<not> locked (p_claim p k) (r_id r')) (rely (p_claim p k) s)) = Some x"
    and j: "job = scanJob (claim_set (p_now p k) (p_now p k + rc_running_lease (rc_cfg r)) (hex_encode bytes) x)"
    and upd: "s' = snd (sql_update (\<lambda>y. r_id y = r_id x) (claim_set (p_now p k) (p_now p k + rc_running_lease (rc_cfg r)) (hex_encode bytes))
      (rely (p_claim p k) s))"
    by (auto simp: claim_stmt_def split: option.splits if_splits)
  from first_by_Some(1) [OF first] have x: "x \<in> set (rely (p_claim p k) s)" by simp
  let ?x = "claim_set (p_now p k) (p_now p k + rc_running_lease (rc_cfg r)) (hex_encode bytes) x"
  have "?x \<in> set s'" unfolding upd using x by (force simp: in_set_sql_update)
  moreover have "holds_lease (j_id job) (j_lease_token job) ?x \<and> r_attempt ?x = j_attempt job \<and> r_state ?x = JobStateRunning"
    unfolding j by (simp add: holds_lease_def scanJob_def claim_set_def flatten_string_def)
  ultimately show ?thesis using out s2 by blast
qed

lemma rejected_claim_keeps_lease_witness:
  "\<exists>hadWork taken gauge r' rows'. reconcile (example_pass\<lparr>p_accept := \<lambda>_. False,
      p_release := (quiet 0)\<lparr>io := Lost_request ''context canceled''\<rparr>\<rparr>) example_reconciler [waiting_row] =
      ((hadWork, taken, gauge), r', rows') \<and> (\<exists>x\<in>set rows'. r_state x = JobStateRunning)"
proof -
  let ?p = "example_pass\<lparr>p_accept := \<lambda>_. False, p_release := (quiet 0)\<lparr>io := Lost_request ''context canceled''\<rparr>\<rparr>"
  let ?r = example_reconciler
  obtain hadWork taken gauge r' rows' where e: "reconcile ?p ?r [waiting_row] = ((hadWork, taken, gauge), r', rows')"
    by (metis surj_pair)
  have cfg: "rc_batch_size (rc_cfg ?r) = 100" "rc_queues (rc_cfg ?r) = []"
    by (simp_all add: New_reconciler_def example_reconciler_def)
  have "filter (expired_at 0) [waiting_row] = []" by (simp add: expired_at_def)
  then have s: "snd (RequeueExpiredRunning (p_reap ?p) (rc_batch_size (rc_cfg ?r)) [waiting_row]) = [waiting_row]"
    by (simp add: RequeueExpiredRunning_def cfg reap_stmt_def expired_batch_def order_limit_def sql_update_def example_pass_def)
  have n: "nat (rc_batch_size (rc_cfg ?r)) = Suc 99" by (simp add: cfg)
  obtain job where "fst (snd (claim_loop (rc_cfg ?r) ?p 0 (nat (rc_batch_size (rc_cfg ?r)))
      (snd (RequeueExpiredRunning (p_reap ?p) (rc_batch_size (rc_cfg ?r)) [waiting_row])))) = Rejected job"
    unfolding s n claim_loop.simps(2) by (simp add: example_pass_def ClaimNextJob_def newLeaseToken_def claim_stmt_def first_by_def order_limit_def claimable_def
        of_tenant_def cfg int4_def)
  from rejected_claim_keeps_lease [OF e this, of "''context canceled''"] e show ?thesis by auto
qed

end
