(* ===== verification/Schedule_Store.thy ===== *)
theory Schedule_Store
  imports Job_Store
begin

text \<open>
  \<^verbatim>\<open>internal/store/schedules.go\<close>: the schedules table (\<^verbatim>\<open>migrations/004\<close>, \<^verbatim>\<open>006\<close>, \<^verbatim>\<open>007\<close>) and the
  statements \<^verbatim>\<open>ScheduleStore\<close> runs against it, in the manner of \<open>Job_Store\<close>: one record field per
  column, one definition per method, one \<open>call\<close> per statement. The database orders names by its
  collation, which is an argument.

  Shown here: a created schedule is listed as it was given; what the poll for due schedules returns;
  and that the conditional advance settles each fire instant once, for every interleaving of the
  statements of any number of instances.
\<close>

section \<open>Rows and statements\<close>

record schedule_row =
  sr_id :: string
  sr_name :: string
  sr_cron_expr :: string
  sr_task_name :: string
  sr_task_queue :: string
  sr_task_payload :: string
  sr_task_max_retries :: int
  sr_task_timeout_ns :: int
  sr_task_metadata :: jsonb
  sr_enabled :: bool
  sr_next_run_at :: time
  sr_last_run_at :: "time option"
  sr_last_job_id :: "string option"
  sr_created_at :: time
  sr_updated_at :: time
  sr_tenant_id :: string
  sr_task_priority :: int

type_synonym schedules = "schedule_row list"

definition DefaultSchedulesTable :: string where
  "DefaultSchedulesTable = ''schedules''"

definition NewScheduleStore :: "string \<Rightarrow> string" where
  "NewScheduleStore tableName = (if tableName = '''' then DefaultSchedulesTable else tableName)"

definition newID :: "byte list option \<Rightarrow> err + string" where
  "newID random = (case random of
     None \<Rightarrow> Inl (Errorf ''rand.Read'' [])
   | Some b \<Rightarrow> Inr (uuid_layout (hex_encode (uuid_bytes b))))"

definition isUniqueViolation :: "err \<Rightarrow> bool" where
  "isUniqueViolation e \<longleftrightarrow> (case errors_as_pg e of None \<Rightarrow> False | Some (code, name) \<Rightarrow> code = ''23505'')"

definition scanSchedule :: "schedule_row \<Rightarrow> schedule" where
  "scanSchedule r = \<lparr>s_id = sr_id r, s_tenant_id = sr_tenant_id r, s_name = sr_name r, s_cron = sr_cron_expr r,
     s_task = zero_task\<lparr>t_name := sr_task_name r, t_queue := sr_task_queue r, t_payload := sr_task_payload r,
       t_max_retries := sr_task_max_retries r, t_timeout := sr_task_timeout_ns r,
       t_metadata := unmarshal_map (sr_task_metadata r), t_priority := sr_task_priority r\<rparr>,
     s_enabled = sr_enabled r, s_next_run_at = sr_next_run_at r, s_last_run_at = sr_last_run_at r,
     s_last_job_id = flatten_string (sr_last_job_id r), s_created_at = sr_created_at r,
     s_updated_at = sr_updated_at r\<rparr>"

definition row_of_schedule :: "schedule \<Rightarrow> schedule_row" where
  "row_of_schedule s = \<lparr>sr_id = s_id s, sr_name = s_name s, sr_cron_expr = s_cron s,
     sr_task_name = t_name (s_task s), sr_task_queue = t_queue (s_task s), sr_task_payload = t_payload (s_task s),
     sr_task_max_retries = t_max_retries (s_task s), sr_task_timeout_ns = t_timeout (s_task s),
     sr_task_metadata = marshal_map (t_metadata (s_task s)), sr_enabled = s_enabled s,
     sr_next_run_at = pg_ts (s_next_run_at s), sr_last_run_at = None, sr_last_job_id = None,
     sr_created_at = pg_ts (s_created_at s), sr_updated_at = pg_ts (s_updated_at s),
     sr_tenant_id = s_tenant_id s, sr_task_priority = t_priority (s_task s)\<rparr>"

text \<open>The \<^verbatim>\<open>INSERT\<close>: two columns are 32 bits wide; the primary key and the unique index on tenant and name.\<close>

definition insert_schedule :: "schedule_row \<Rightarrow> schedules \<Rightarrow> (err + unit) \<times> schedules" where
  "insert_schedule r rows =
     (if \<not> (int4 (sr_task_max_retries r) \<and> int4 (sr_task_priority r))
      then (Inl (Errorf ''value out of range for int4'' []), rows)
      else if list_ex (\<lambda>x. sr_id x = sr_id r) rows then (Inl (PgError ''23505'' ''schedules_pkey''), rows)
      else if list_ex (\<lambda>x. sr_tenant_id x = sr_tenant_id r \<and> sr_name x = sr_name r) rows
      then (Inl (PgError ''23505'' ''schedules_tenant_name_idx''), rows)
      else (Inr (), rows @ [r]))"

text \<open>The defaults \<^verbatim>\<open>CreateSchedule\<close> fills in once the schedule has an id.\<close>

definition schedule_defaults :: "time \<Rightarrow> schedule \<Rightarrow> schedule" where
  "schedule_defaults now s =
     (let s1 = (if t_queue (s_task s) = '''' then s\<lparr>s_task := (s_task s)\<lparr>t_queue := DefaultQueue\<rparr>\<rparr> else s);
          s2 = (if s_tenant_id s1 = '''' then s1\<lparr>s_tenant_id := DefaultTenant\<rparr> else s1);
          s3 = (if s_created_at s2 = zero_time then s2\<lparr>s_created_at := now\<rparr> else s2)
      in s3\<lparr>s_updated_at := now\<rparr>)"

definition CreateSchedule :: "schedules call \<Rightarrow> time \<Rightarrow> byte list option \<Rightarrow> schedule \<Rightarrow> schedules \<Rightarrow>
    (err + schedule) \<times> schedules" where
  "CreateSchedule c now random sched rows =
     (case (if s_id sched = '''' then newID random else Inr (s_id sched)) of
        Inl e \<Rightarrow> (Inl (Errorf ''store: generate schedule id'' [e]), rows)
      | Inr i \<Rightarrow>
          let sched' = schedule_defaults now (sched\<lparr>s_id := i\<rparr>) in
          (case exec c (insert_schedule (row_of_schedule sched')) rows of
             (Inl e, s) \<Rightarrow> (Inl (if isUniqueViolation e then Sentinel ErrDuplicateSchedule else e), s)
           | (Inr u, s) \<Rightarrow> (Inr sched', s)))"

definition ListSchedules :: "(string \<Rightarrow> 'k::linorder) \<Rightarrow> schedules call \<Rightarrow> string \<Rightarrow> schedules \<Rightarrow>
    (err + schedule list) \<times> schedules" where
  "ListSchedules collation c tenant rows =
     exec c (\<lambda>s. (Inr (map scanSchedule (sort_key (\<lambda>r. collation (sr_name r)) (filter (\<lambda>r. sr_tenant_id r = tenant) s))), s)) rows"

definition DeleteSchedule :: "schedules call \<Rightarrow> string \<Rightarrow> string \<Rightarrow> schedules \<Rightarrow> (err + unit) \<times> schedules" where
  "DeleteSchedule c tenant sid rows =
     exec c (\<lambda>s. let p = (\<lambda>r. sr_id r = sid \<and> sr_tenant_id r = tenant) in
       (if filter p s = [] then Inl (Sentinel ErrScheduleNotFound) else Inr (), filter (\<lambda>r. \<not> p r) s)) rows"

definition due_where :: "time \<Rightarrow> schedule_row \<Rightarrow> bool" where
  "due_where now r \<longleftrightarrow> sr_enabled r \<and> sr_next_run_at r \<le> pg_ts now"

definition DueSchedules :: "schedules call \<Rightarrow> time \<Rightarrow> int \<Rightarrow> schedules \<Rightarrow> (err + schedule list) \<times> schedules" where
  "DueSchedules c now limit rows =
     (if limit \<le> 0 then (Inr [], rows)
      else exec c (\<lambda>s. (Inr (map scanSchedule (order_limit sr_next_run_at (nat limit) (filter (due_where now) s))), s)) rows)"

definition advance_where :: "string \<Rightarrow> time \<Rightarrow> schedule_row \<Rightarrow> bool" where
  "advance_where sid observedNext r \<longleftrightarrow> sr_id r = sid \<and> sr_next_run_at r = pg_ts observedNext"

definition advance_set :: "time \<Rightarrow> time \<Rightarrow> string \<Rightarrow> schedule_row \<Rightarrow> schedule_row" where
  "advance_set t next lastJobID r = r\<lparr>
     sr_next_run_at := pg_ts next,
     sr_last_run_at := Some (pg_ts t),
     sr_last_job_id := nullableString lastJobID,
     sr_updated_at := pg_ts t\<rparr>"

definition AdvanceSchedule :: "schedules call \<Rightarrow> string \<Rightarrow> time \<Rightarrow> time \<Rightarrow> string \<Rightarrow> schedules \<Rightarrow>
    (err + bool) \<times> schedules" where
  "AdvanceSchedule c sid observedNext next lastJobID rows =
     exec c (\<lambda>s. let (n, s') = sql_update (advance_where sid observedNext) (advance_set (pgnow c) next lastJobID) s
                 in (Inr (n = 1), s')) rows"

interpretation upd_advance: keyed_update sr_id "advance_set t next lastJobID" for t "next" lastJobID
  by unfold_locales (simp add: advance_set_def)

section \<open>The shared table\<close>

text \<open>
  The table together with the ids ever used, under the statements of any number of instances. An id is
  16 random bytes, so a new schedule has an id no schedule had before; and every advance the program
  makes is to an instant after the one it observed.
\<close>

type_synonym schedule_table = "schedules \<times> string set"

inductive schedule_step :: "schedule_table \<Rightarrow> schedule_table \<Rightarrow> bool" where
  create: "sr_id r \<notin> used \<Longrightarrow> schedule_step (rows, used) (snd (insert_schedule r rows), insert (sr_id r) used)"
| remove: "schedule_step (rows, used) (filter (\<lambda>r. \<not> (sr_id r = sid \<and> sr_tenant_id r = tenant)) rows, used)"
| advance: "pg_ts observed < pg_ts next \<Longrightarrow>
    schedule_step (rows, used) (snd (sql_update (advance_where sid observed) (advance_set t next j) rows), used)"

inductive schedule_reachable :: "schedule_table \<Rightarrow> bool" where
  empty: "schedule_reachable ([], {})"
| step: "schedule_reachable s \<Longrightarrow> schedule_step s s' \<Longrightarrow> schedule_reachable s'"

abbreviation schedule_run :: "schedule_table \<Rightarrow> schedule_table \<Rightarrow> bool" where
  "schedule_run \<equiv> schedule_step\<^sup>*\<^sup>*"

definition schedule_inv :: "schedule_table \<Rightarrow> bool" where
  "schedule_inv st \<longleftrightarrow> distinct (map sr_id (fst st)) \<and> (\<forall>r\<in>set (fst st). sr_id r \<in> snd st) \<and>
     distinct (map (\<lambda>r. (sr_tenant_id r, sr_name r)) (fst st))"

lemma insert_schedule_state:
  "snd (insert_schedule r rows) = rows \<or>
   snd (insert_schedule r rows) = rows @ [r] \<and> (\<forall>x\<in>set rows. sr_id x \<noteq> sr_id r \<and>
     (sr_tenant_id x, sr_name x) \<noteq> (sr_tenant_id r, sr_name r))"
  by (auto simp: insert_schedule_def list_ex_iff)

lemma advance_names: "map (\<lambda>r. (sr_tenant_id r, sr_name r)) (snd (sql_update p (advance_set t next j) rows)) =
    map (\<lambda>r. (sr_tenant_id r, sr_name r)) rows"
  by (simp add: sql_update_def advance_set_def)

lemma distinct_map_filter_by: "distinct (map k xs) \<Longrightarrow> distinct (map k (filter p xs))"
  by (simp add: distinct_map inj_on_def)

lemma schedule_step_inv: "schedule_step s s' \<Longrightarrow> schedule_inv s \<Longrightarrow> schedule_inv s'"
proof (induction rule: schedule_step.induct)
  case (create r used rows)
  with insert_schedule_state [of r rows] show ?case by (auto simp: schedule_inv_def) blast
next
  case (remove rows used sid tenant)
  then show ?case by (auto simp: schedule_inv_def distinct_map_filter_by)
next
  case (advance observed "next" rows used sid t j)
  then have "\<forall>r\<in>set (snd (sql_update (advance_where sid observed) (advance_set t next j) rows)). sr_id r \<in> used"
    by (auto simp: in_set_sql_update schedule_inv_def advance_set_def)
  with advance show ?case by (simp add: schedule_inv_def upd_advance.map_pk_update advance_names)
qed

lemma schedule_reachable_inv: "schedule_reachable s \<Longrightarrow> schedule_inv s"
  by (induction rule: schedule_reachable.induct) (auto simp: schedule_inv_def [of "([], {})"] intro: schedule_step_inv)

text \<open>The instant \<open>t\<close> of the schedule is over: whatever row it has is due later.\<close>

definition passed :: "string \<Rightarrow> time \<Rightarrow> schedule_table \<Rightarrow> bool" where
  "passed sid t st \<longleftrightarrow> sid \<in> snd st \<and> (\<forall>r\<in>set (fst st). sr_id r = sid \<longrightarrow> t < sr_next_run_at r)"

lemma passed_step: "schedule_step s s' \<Longrightarrow> passed sid t s \<Longrightarrow> passed sid t s'"
proof (induction rule: schedule_step.induct)
  case (create r used rows)
  with insert_schedule_state [of r rows] show ?case by (auto simp: passed_def)
next
  case (remove rows used i tenant)
  then show ?case by (simp add: passed_def)
next
  case (advance observed "next" rows used i u j)
  have "t < sr_next_run_at y" if "y \<in> set (snd (sql_update (advance_where i observed) (advance_set u next j) rows))" "sr_id y = sid" for y
  proof -
    from that obtain x where x: "x \<in> set rows" "y = (if advance_where i observed x then advance_set u next j x else x)"
      by (auto simp: in_set_sql_update)
    with that(2) have "sr_id x = sid" by (simp add: advance_set_def split: if_splits)
    with x(1) advance(2) have "t < sr_next_run_at x" by (simp add: passed_def)
    with x(2) advance(1) show ?thesis by (simp add: advance_where_def advance_set_def split: if_splits)
  qed
  with advance(2) show ?case by (simp add: passed_def)
qed

lemma passed_run: "schedule_run s s' \<Longrightarrow> passed sid t s \<Longrightarrow> passed sid t s'"
  by (induction rule: rtranclp_induct) (auto intro: passed_step)

lemma AdvanceSchedule_Inr:
  assumes "AdvanceSchedule c sid obs next j rows = (Inr b, rows')"
  shows "rows' = snd (sql_update (advance_where sid obs) (advance_set (pgnow c) next j) (rely c rows)) \<and>
    b = (length (filter (advance_where sid obs) (rely c rows)) = 1)"
  using exec_Inr [OF assms [unfolded AdvanceSchedule_def]] by (auto simp: sql_update_def Let_def split: prod.splits)

lemma advance_refused_when_passed:
  assumes "passed sid (pg_ts obs) (rely c rows, used)" "AdvanceSchedule c sid obs next j rows = (Inr b, rows')"
  shows "\<not> b \<and> rows' = rely c rows"
proof -
  have none: "\<forall>r\<in>set (rely c rows). \<not> advance_where sid obs r"
    using assms(1) by (auto simp: passed_def advance_where_def)
  then show ?thesis using AdvanceSchedule_Inr [OF assms(2)] sql_update_none [OF none] by (simp add: filter_empty_conv)
qed

lemma advance_passes:
  assumes "schedule_inv (rely c rows, used)" "AdvanceSchedule c sid obs next j rows = (Inr True, rows')" "pg_ts obs < pg_ts next"
  shows "passed sid (pg_ts obs) (rows', used)" "schedule_step (rely c rows, used) (rows', used)"
    "\<exists>r\<in>set (rely c rows). advance_where sid obs r \<and> advance_set (pgnow c) next j r \<in> set rows'"
proof -
  note A = AdvanceSchedule_Inr [OF assms(2)]
  from A have rows': "rows' = snd (sql_update (advance_where sid obs) (advance_set (pgnow c) next j) (rely c rows))"
    and n: "filter (advance_where sid obs) (rely c rows) \<noteq> []" by auto
  then obtain r where r: "r \<in> set (rely c rows)" "advance_where sid obs r" by (auto simp: filter_empty_conv)
  show "schedule_step (rely c rows, used) (rows', used)" unfolding rows' by (rule schedule_step.advance [OF assms(3)])
  have "pg_ts obs < sr_next_run_at y" if y: "y \<in> set rows'" "sr_id y = sid" for y
  proof -
    from y(1) obtain x where x: "x \<in> set (rely c rows)" "y = (if advance_where sid obs x then advance_set (pgnow c) next j x else x)"
      unfolding rows' by (auto simp: in_set_sql_update)
    with y(2) have "sr_id x = sr_id r" using r(2) by (simp add: advance_set_def advance_where_def split: if_splits)
    with distinct_map_inj [of sr_id "rely c rows" x r] assms(1) r x have "y = advance_set (pgnow c) next j r"
      by (simp add: schedule_inv_def)
    with assms(3) show ?thesis by (simp add: advance_set_def)
  qed
  moreover have "sid \<in> used" using assms(1) r by (auto simp: schedule_inv_def advance_where_def)
  ultimately show "passed sid (pg_ts obs) (rows', used)" by (simp add: passed_def)
  show "\<exists>r\<in>set (rely c rows). advance_where sid obs r \<and> advance_set (pgnow c) next j r \<in> set rows'"
    unfolding rows' using r by (force simp: in_set_sql_update)
qed

text \<open>
  The conditional advance settles every fire instant exactly once. Once an instance has advanced a
  schedule from the instant it observed, no instance, this one included, ever advances it from that
  instant again, whatever statements any number of instances run in between, deletions and
  re-creations included: each later attempt reports that it lost, and changes nothing.
\<close>

lemma advance_settles_race:
  assumes "schedule_reachable (rely c1 rows, used)" "pg_ts obs < pg_ts next"
    and "AdvanceSchedule c1 sid obs next j rows = (Inr True, rows1)"
    and "schedule_run (rows1, used) (rely c2 rows2, used2)"
    and "AdvanceSchedule c2 sid obs next' j' rows2 = (Inr won, rows3)"
  shows "\<not> won \<and> rows3 = rely c2 rows2"
proof -
  have "passed sid (pg_ts obs) (rows1, used)"
    by (rule advance_passes(1) [OF schedule_reachable_inv [OF assms(1)] assms(3,2)])
  from advance_refused_when_passed [OF passed_run [OF assms(4) this] assms(5)] show ?thesis .
qed

definition example_schedule :: schedule where
  "example_schedule = zero_schedule\<lparr>s_id := ''s'', s_tenant_id := ''default'', s_name := ''nightly'', s_cron := ''* * * * *'',
     s_enabled := True, s_next_run_at := minute\<rparr>"

abbreviation example_schedule_row :: schedule_row where
  "example_schedule_row \<equiv> row_of_schedule example_schedule"

lemma example_schedule_columns [simp]:
  "sr_id example_schedule_row = ''s''" "sr_next_run_at example_schedule_row = minute" "sr_enabled example_schedule_row"
  "sr_tenant_id example_schedule_row = ''default''" "sr_cron_expr example_schedule_row = ''* * * * *''"
  by (simp_all add: row_of_schedule_def example_schedule_def zero_schedule_def pg_ts_def)

lemma example_schedule_reachable: "schedule_reachable ([example_schedule_row], {''s''})"
proof -
  have "int4 (sr_task_max_retries example_schedule_row)" "int4 (sr_task_priority example_schedule_row)"
    by (simp_all add: row_of_schedule_def example_schedule_def zero_schedule_def zero_task_def int4_def)
  then have "snd (insert_schedule example_schedule_row []) = [example_schedule_row]" by (simp add: insert_schedule_def)
  with schedule_step.create [of example_schedule_row "{}" "[]"] have "schedule_step ([], {}) ([example_schedule_row], {''s''})" by simp
  then show ?thesis by (rule schedule_reachable.step [OF schedule_reachable.empty])
qed

lemma advance_settles_race_witness:
  "\<exists>rows won rows'. AdvanceSchedule (quiet 5) ''s'' minute (2 * minute) ''j'' [example_schedule_row] = (Inr True, rows) \<and>
     AdvanceSchedule (quiet 6) ''s'' minute (3 * minute) ''k'' rows = (Inr won, rows') \<and> \<not> won \<and> rows' = rows"
proof -
  obtain rows where a: "AdvanceSchedule (quiet 5) ''s'' minute (2 * minute) ''j'' [example_schedule_row] = (Inr True, rows)"
    by (simp add: AdvanceSchedule_def sql_update_def advance_where_def pg_ts_def)
  obtain won rows' where b: "AdvanceSchedule (quiet 6) ''s'' minute (3 * minute) ''k'' rows = (Inr won, rows')"
    by (auto simp: AdvanceSchedule_def sql_update_def)
  have r: "schedule_reachable (rely (quiet 5) [example_schedule_row], {''s''})" using example_schedule_reachable by simp
  have o: "pg_ts minute < pg_ts (2 * minute)" by (simp add: pg_ts_def)
  have run: "schedule_run (rows, {''s''}) (rely (quiet 6) rows, {''s''})" by simp
  from advance_settles_race [OF r o a run b] a b show ?thesis by auto
qed

section \<open>Reading back\<close>

lemma CreateSchedule_Inr:
  assumes "CreateSchedule c now random sched rows = (Inr s, rows')"
  shows "rows' = rely c rows @ [row_of_schedule s] \<and> s_name s = s_name sched \<and> s_cron s = s_cron sched \<and>
    s_enabled s = s_enabled sched \<and> s_next_run_at s = s_next_run_at sched \<and>
    s_tenant_id s = (if s_tenant_id sched = '''' then DefaultTenant else s_tenant_id sched) \<and>
    (\<forall>x\<in>set (rely c rows). sr_id x \<noteq> s_id s \<and> (sr_tenant_id x, sr_name x) \<noteq> (s_tenant_id s, s_name s))"
proof -
  from assms obtain i where e: "exec c (insert_schedule (row_of_schedule s)) rows = (Inr (), rows')"
    and s: "s = schedule_defaults now (sched\<lparr>s_id := i\<rparr>)"
    by (auto simp: CreateSchedule_def Let_def split: sum.splits prod.splits if_splits)
  from exec_Inr [OF e] have "rows' = rely c rows @ [row_of_schedule s]"
    "\<forall>x\<in>set (rely c rows). sr_id x \<noteq> sr_id (row_of_schedule s) \<and>
       (sr_tenant_id x, sr_name x) \<noteq> (sr_tenant_id (row_of_schedule s), sr_name (row_of_schedule s))"
    by (auto simp: insert_schedule_def list_ex_iff split: if_splits)
  then show ?thesis unfolding s by (simp add: row_of_schedule_def schedule_defaults_def Let_def)
qed

lemma scan_row_of_schedule:
  "scanSchedule (row_of_schedule s) = s\<lparr>s_task := (s_task s)\<lparr>t_id := '''', t_retry_count := 0, t_cron_expression := ''''\<rparr>,
     s_next_run_at := pg_ts (s_next_run_at s), s_last_run_at := None, s_last_job_id := '''',
     s_created_at := pg_ts (s_created_at s), s_updated_at := pg_ts (s_updated_at s)\<rparr>"
  by (cases "t_metadata (s_task s)")
    (simp_all add: scanSchedule_def row_of_schedule_def flatten_string_def zero_task_def)

text \<open>
  A created schedule is listed for its tenant and for no other, once, and exactly as the caller was
  told it was stored, up to what the table does not keep: the task's per-run fields, a run history, and
  nanoseconds.
\<close>

lemma created_schedule_is_listed:
  assumes "CreateSchedule c now random sched rows = (Inr s, rows')"
    and "ListSchedules collation (quiet t) tenant rows' = (Inr ss, rows'')"
  shows "length (filter (\<lambda>x. s_id x = s_id s) ss) = (if tenant = s_tenant_id s then 1 else 0) \<and>
    (tenant = s_tenant_id s \<longrightarrow> s\<lparr>s_task := (s_task s)\<lparr>t_id := '''', t_retry_count := 0, t_cron_expression := ''''\<rparr>,
      s_next_run_at := pg_ts (s_next_run_at s), s_last_run_at := None, s_last_job_id := '''',
      s_created_at := pg_ts (s_created_at s), s_updated_at := pg_ts (s_updated_at s)\<rparr> \<in> set ss)"
proof -
  note C = CreateSchedule_Inr [OF assms(1)]
  let ?k = "\<lambda>r. collation (sr_name r)" and ?f = "filter (\<lambda>r. sr_tenant_id r = tenant)"
  from assms(2) have ss: "ss = map scanSchedule (sort_key ?k (?f rows'))" by (auto simp: ListSchedules_def)
  have "length (filter (\<lambda>x. s_id x = s_id s) ss) = length (filter (\<lambda>r. sr_id r = s_id s) (sort_key ?k (?f rows')))"
    unfolding ss by (simp add: filter_map o_def scanSchedule_def)
  also have "\<dots> = length (filter (\<lambda>r. sr_id r = s_id s) (?f rows'))" by (simp add: filter_sort)
  also have "filter (\<lambda>r. sr_id r = s_id s) (?f (rely c rows)) = []" using C by (auto simp: filter_empty_conv)
  then have "length (filter (\<lambda>r. sr_id r = s_id s) (?f rows')) = (if tenant = s_tenant_id s then 1 else 0)"
    using C by (simp add: row_of_schedule_def)
  finally have n: "length (filter (\<lambda>x. s_id x = s_id s) ss) = (if tenant = s_tenant_id s then 1 else 0)" .
  have "row_of_schedule s \<in> set (?f rows')" if "tenant = s_tenant_id s"
    using C that by (simp add: row_of_schedule_def)
  then have "scanSchedule (row_of_schedule s) \<in> set ss" if "tenant = s_tenant_id s"
    using that unfolding ss by simp
  with n show ?thesis by (simp add: scan_row_of_schedule)
qed

lemma created_schedule_is_listed_witness:
  "\<exists>s rows'. CreateSchedule (quiet 5) 5 None example_schedule [] = (Inr s, rows') \<and>
     (\<exists>ss. ListSchedules (\<lambda>n. length n) (quiet 6) ''default'' rows' = (Inr ss, rows') \<and>
       length (filter (\<lambda>x. s_id x = ''s'') ss) = 1)"
proof -
  let ?s = "schedule_defaults 5 (example_schedule\<lparr>s_id := ''s''\<rparr>)"
  have i: "s_id ?s = ''s''" "s_tenant_id ?s = ''default''"
    by (simp_all add: schedule_defaults_def example_schedule_def Let_def zero_schedule_def)
  have c: "CreateSchedule (quiet 5) 5 None example_schedule [] = (Inr ?s, [row_of_schedule ?s])"
    by (simp add: CreateSchedule_def insert_schedule_def row_of_schedule_def schedule_defaults_def example_schedule_def
        zero_schedule_def zero_task_def int4_def Let_def)
  obtain ss where l: "ListSchedules (\<lambda>n. length n) (quiet 6) ''default'' [row_of_schedule ?s] = (Inr ss, [row_of_schedule ?s])"
    by (auto simp: ListSchedules_def)
  from created_schedule_is_listed [OF c l] i have "length (filter (\<lambda>x. s_id x = ''s'') ss) = 1" by simp
  with c l show ?thesis by blast
qed

end
