(* ===== verification/Calendar.thy ===== *)
theory Calendar
  imports Conduit_Prelude
begin

text \<open>
  The proleptic Gregorian calendar in UTC, as Go's \<^verbatim>\<open>time\<close> package computes it: the date and clock
  reading of an instant, and \<^verbatim>\<open>time.Date\<close>, which carries a month, day or hour past its range into the
  next larger unit. Days are counted from 1 January 1970.
\<close>

abbreviation day_ns :: duration where "day_ns \<equiv> 86400000000000"

section \<open>Years and months\<close>

definition leap :: "int \<Rightarrow> bool" where
  "leap y \<longleftrightarrow> y mod 4 = 0 \<and> (y mod 100 \<noteq> 0 \<or> y mod 400 = 0)"

definition year_len :: "int \<Rightarrow> int" where
  "year_len y = (if leap y then 366 else 365)"

definition month_len :: "bool \<Rightarrow> int \<Rightarrow> int" where
  "month_len lp m = (if m = 2 then if lp then 29 else 28 else if m \<in> {4, 6, 9, 11} then 30 else 31)"

definition days_before_month :: "bool \<Rightarrow> int \<Rightarrow> int" where
  "days_before_month lp m =
     [0, 31, 59, 90, 120, 151, 181, 212, 243, 273, 304, 334] ! nat (m - 1) + (if lp \<and> 2 < m then 1 else 0)"

definition days_before_year :: "int \<Rightarrow> int" where
  "days_before_year y = 365 * (y - 1970) + ((y - 1) div 4 - (y - 1) div 100 + (y - 1) div 400) - 477"

function year_from :: "int \<Rightarrow> int \<Rightarrow> int" where
  "year_from y d =
     (if d < 0 then year_from (y - 1) (d + year_len (y - 1))
      else if d < year_len y then y
      else year_from (y + 1) (d - year_len y))"
  by pat_completeness auto

termination
  by (relation "measure (\<lambda>(y, d). nat (if d < 0 then 400 - d else d))") (auto simp: year_len_def split: if_splits)

declare year_from.simps [simp del]

definition year_of_day :: "int \<Rightarrow> int" where
  "year_of_day d = year_from 1970 d"

definition month_of_day :: "int \<Rightarrow> int" where
  "month_of_day d =
     (let y = year_of_day d; yd = d - days_before_year y
      in last (filter (\<lambda>m. days_before_month (leap y) m \<le> yd) [1..12]))"

definition dom_of_day :: "int \<Rightarrow> int" where
  "dom_of_day d = (let y = year_of_day d in d - days_before_year y - days_before_month (leap y) (month_of_day d) + 1)"

section \<open>Instants\<close>

definition day_of :: "time \<Rightarrow> int" where "day_of t = t div day_ns"

definition Year :: "time \<Rightarrow> int" where "Year t = year_of_day (day_of t)"
definition Month :: "time \<Rightarrow> int" where "Month t = month_of_day (day_of t)"
definition Day :: "time \<Rightarrow> int" where "Day t = dom_of_day (day_of t)"
definition Weekday :: "time \<Rightarrow> int" where "Weekday t = (day_of t + 4) mod 7"
definition Hour :: "time \<Rightarrow> int" where "Hour t = t mod day_ns div hour"
definition Minute :: "time \<Rightarrow> int" where "Minute t = t mod hour div minute"

definition Date :: "int \<Rightarrow> int \<Rightarrow> int \<Rightarrow> int \<Rightarrow> time" where
  "Date y m d h =
     (let y' = y + (m - 1) div 12; m' = (m - 1) mod 12 + 1
      in (days_before_year y' + days_before_month (leap y') m' + d - 1) * day_ns + h * hour)"

definition Truncate_minute :: "time \<Rightarrow> time" where
  "Truncate_minute t = t div minute * minute"

section \<open>Facts\<close>

lemma int_div_less:
  fixes s q k :: int
  assumes "s < q * k" "0 < k"
  shows "s div k < q"
proof (rule ccontr)
  assume "\<not> s div k < q"
  then have "q * k \<le> s div k * k" using assms(2) by (intro mult_right_mono) simp_all
  also have "\<dots> \<le> s" using assms(2) div_mult_mod_eq [of s k] pos_mod_sign [of k s] by linarith
  finally show False using assms(1) by simp
qed

lemma div_pred:
  fixes y k :: int
  assumes "0 < k"
  shows "y div k = (y - 1) div k + (if y mod k = 0 then 1 else 0)"
proof (cases "y mod k = 0")
  case True
  then obtain q where q: "y = k * q" by (auto elim: dvdE simp: mod_eq_0_iff_dvd)
  have "y - 1 = (k - 1) + k * (q - 1)" by (simp add: q algebra_simps)
  then have "(y - 1) div k = q - 1" using assms by (simp only: div_mult_self2) simp
  with True q assms show ?thesis by simp
next
  case False
  have "y mod k - 1 + k * (y div k) = y - 1" using mod_mult_div_eq [of y k] by (simp add: mult.commute)
  then have "(y - 1) div k = y div k + (y mod k - 1) div k" using assms by (metis div_mult_self2 less_irrefl)
  moreover have "0 \<le> y mod k" "y mod k < k" using assms by simp_all
  then have "(y mod k - 1) div k = 0" using False by (intro div_pos_pos_trivial) linarith+
  ultimately show ?thesis using False by simp
qed

lemma leap_count:
  fixes a b c x :: int
  assumes "a' = a + (if p then 1 else 0)" "b' = b + (if q then 1 else 0)" "c' = c + (if r then 1 else 0)"
    and "r \<Longrightarrow> q" "q \<Longrightarrow> p"
  shows "x + 365 + (a' - b' + c') - 477 = x + (a - b + c) - 477 + (if p \<and> (\<not> q \<or> r) then 366 else 365)"
  using assms(4,5) unfolding assms(1-3) by (cases p; cases q; cases r) simp_all

lemma days_before_next_year: "days_before_year (y + 1) = days_before_year y + year_len y"
proof -
  have "days_before_year (y + 1) = 365 * (y - 1970) + 365 + (y div 4 - y div 100 + y div 400) - 477"
    by (simp only: days_before_year_def add_diff_cancel_right') (simp add: algebra_simps)
  also have "\<dots> = days_before_year y + year_len y"
    unfolding days_before_year_def year_len_def leap_def
  proof (rule leap_count)
    show "y mod 400 = 0 \<Longrightarrow> y mod 100 = 0" "y mod 100 = 0 \<Longrightarrow> y mod 4 = 0"
      using mod_mod_cancel [of 100 400 y] mod_mod_cancel [of 4 100 y] by simp_all
  qed (rule div_pred; simp)+
  finally show ?thesis .
qed

lemma days_before_year_mono: "y \<le> z \<Longrightarrow> days_before_year y \<le> days_before_year z"
proof (induction z rule: int_ge_induct)
  case (step z)
  then show ?case by (simp add: days_before_next_year year_len_def)
qed simp

lemma year_from_range:
  "days_before_year (year_from y d) \<le> days_before_year y + d \<and>
   days_before_year y + d < days_before_year (year_from y d + 1)"
proof (induction y d rule: year_from.induct)
  case (1 y d)
  have b: "days_before_year (y - 1) + year_len (y - 1) = days_before_year y"
    using days_before_next_year [of "y - 1"] by simp
  consider "d < 0" | "0 \<le> d" "d < year_len y" | "0 \<le> d" "year_len y \<le> d" by linarith
  then show ?case
  proof cases
    case 1
    with "1.IH"(1) b show ?thesis by (simp add: year_from.simps [of y d])
  next
    case 2
    then show ?thesis by (simp add: year_from.simps [of y d] days_before_next_year)
  next
    case 3
    with "1.IH"(2) show ?thesis by (simp add: year_from.simps [of y d] days_before_next_year)
  qed
qed

lemma year_of_day_range:
  "days_before_year (year_of_day d) \<le> d" "d < days_before_year (year_of_day d + 1)"
  using year_from_range [of 1970 d] by (simp_all add: year_of_day_def days_before_year_def)

lemma year_of_day_unique: "days_before_year y \<le> d \<Longrightarrow> d < days_before_year (y + 1) \<Longrightarrow> year_of_day d = y"
  using year_of_day_range [of d] days_before_year_mono [of "y + 1" "year_of_day d"]
    days_before_year_mono [of "year_of_day d + 1" y] by linarith

lemma upto_12: "[1..12] = [1, 2, 3, 4, 5, 6, 7, 8, 9, 10, 11, 12 :: int]"
  by (simp add: upto.simps)

lemma months_1_12: "1 \<le> m \<Longrightarrow> m \<le> 12 \<Longrightarrow> m \<in> {1, 2, 3, 4, 5, 6, 7, 8, 9, 10, 11, 12 :: int}"
  by (simp, presburger)

lemma month_step: "1 \<le> m \<Longrightarrow> m < 12 \<Longrightarrow> days_before_month lp (m + 1) = days_before_month lp m + month_len lp m"
  using months_1_12 [of m] by (auto simp: days_before_month_def month_len_def)

lemma month_12: "days_before_month lp 12 + month_len lp 12 = (if lp then 366 else 365)"
  by (simp add: days_before_month_def month_len_def)

lemma days_before_month_mono:
  assumes "m \<le> k" "1 \<le> m" "k \<le> 12"
  shows "days_before_month lp m \<le> days_before_month lp k"
  using assms
proof (induction k rule: int_ge_induct)
  case (step k)
  have "0 \<le> month_len lp k" by (simp add: month_len_def)
  with step month_step [of k lp] show ?case by simp
qed simp

lemma month_search:
  assumes "1 \<le> m" "m \<le> 12" "days_before_month lp m \<le> yd" "yd < days_before_month lp m + month_len lp m"
  shows "last (filter (\<lambda>k. days_before_month lp k \<le> yd) [1..12]) = m"
proof -
  have "[1..12] = [1..m - 1] @ m # [m + 1..12]" using assms(1,2) by (rule upto_split3)
  moreover have "filter (\<lambda>k. days_before_month lp k \<le> yd) [m + 1..12] = []"
  proof -
    have "\<not> days_before_month lp k \<le> yd" if "m + 1 \<le> k" "k \<le> 12" for k
      using days_before_month_mono [of "m + 1" k lp] month_step [of m lp] that assms by simp
    then show ?thesis by (simp add: filter_empty_conv)
  qed
  ultimately show ?thesis using assms(3) by simp
qed

lemma month_exists:
  assumes "0 \<le> yd" "yd < (if lp then 366 else 365)"
  shows "\<exists>m. 1 \<le> m \<and> m \<le> 12 \<and> days_before_month lp m \<le> yd \<and> yd < days_before_month lp m + month_len lp m"
proof (rule ccontr)
  assume no: "\<not> ?thesis"
  have step: "days_before_month lp (int k) \<le> yd" if "1 \<le> k" "k \<le> 12" for k
    using that
  proof (induction k rule: dec_induct)
    case base
    then show ?case using assms(1) by (simp add: days_before_month_def)
  next
    case (step k)
    then have "days_before_month lp (int k) \<le> yd" by simp
    with no step have "days_before_month lp (int k) + month_len lp (int k) \<le> yd" by (metis not_less of_nat_1 of_nat_le_iff of_nat_numeral Suc_leD)
    with step show ?case using month_step [of "int k" lp] by (simp add: add.commute)
  qed
  from no step [of 12] have "days_before_month lp 12 + month_len lp 12 \<le> yd" by auto
  with assms(2) month_12 [of lp] show False by auto
qed

text \<open>The position of a day in its year and month.\<close>

lemma day_position:
  fixes d
  defines "y \<equiv> year_of_day d" and "m \<equiv> month_of_day d"
  shows "1 \<le> m" "m \<le> 12" "1 \<le> dom_of_day d" "dom_of_day d \<le> month_len (leap y) m"
    "d = days_before_year y + days_before_month (leap y) m + dom_of_day d - 1"
proof -
  let ?yd = "d - days_before_year y"
  have "0 \<le> ?yd" "?yd < (if leap y then 366 else 365)"
    using year_of_day_range [of d] by (simp_all add: y_def days_before_next_year year_len_def split: if_splits)
  from month_exists [OF this] obtain k where k: "1 \<le> k" "k \<le> 12" "days_before_month (leap y) k \<le> ?yd"
    "?yd < days_before_month (leap y) k + month_len (leap y) k" by blast
  have "m = k" using month_search [OF k] by (simp add: m_def month_of_day_def y_def Let_def)
  with k show "1 \<le> m" "m \<le> 12" "1 \<le> dom_of_day d" "dom_of_day d \<le> month_len (leap y) m"
    "d = days_before_year y + days_before_month (leap y) m + dom_of_day d - 1"
    by (simp_all add: dom_of_day_def Let_def flip: y_def m_def)
qed

lemma day_position_unique:
  assumes "1 \<le> m" "m \<le> 12" "1 \<le> k" "k \<le> month_len (leap y) m"
    and d: "d = days_before_year y + days_before_month (leap y) m + k - 1"
  shows "year_of_day d = y" "month_of_day d = m" "dom_of_day d = k"
proof -
  have "days_before_month (leap y) m + month_len (leap y) m \<le> year_len y"
    using months_1_12 [OF assms(1,2)] by (auto simp: days_before_month_def month_len_def year_len_def)
  moreover have "0 \<le> days_before_month (leap y) m"
    using months_1_12 [OF assms(1,2)] by (auto simp: days_before_month_def)
  ultimately show y: "year_of_day d = y"
    using assms by (intro year_of_day_unique) (simp_all add: days_before_next_year)
  show m: "month_of_day d = m"
    unfolding month_of_day_def Let_def y using assms by (intro month_search) simp_all
  show "dom_of_day d = k" unfolding dom_of_day_def Let_def y m using d by simp
qed

text \<open>The first day of the following month, and the days up to it.\<close>

definition next_month_day :: "int \<Rightarrow> int" where
  "next_month_day d = d - dom_of_day d + 1 + month_len (leap (year_of_day d)) (month_of_day d)"

lemma next_month_day_greater: "d < next_month_day d"
  using day_position(4) [of d] by (simp add: next_month_day_def)

lemma same_month:
  assumes "d \<le> e" "e < next_month_day d"
  shows "year_of_day e = year_of_day d" "month_of_day e = month_of_day d"
proof -
  let ?k = "dom_of_day d + (e - d)"
  note P = day_position [of d]
  have "year_of_day e = year_of_day d \<and> month_of_day e = month_of_day d"
    using day_position_unique [OF P(1,2), of ?k "year_of_day d" e] assms P(3,5)
    by (simp add: next_month_day_def)
  then show "year_of_day e = year_of_day d" "month_of_day e = month_of_day d" by auto
qed

lemma Date_same_day: "Date (year_of_day d) (month_of_day d) (dom_of_day d + i) h = (d + i) * day_ns + h * hour"
proof -
  note P = day_position [of d]
  have "(month_of_day d - 1) div 12 = 0" "(month_of_day d - 1) mod 12 = month_of_day d - 1"
    using P(1,2) by simp_all
  with P(5) show ?thesis by (simp add: Date_def Let_def)
qed

lemma Date_next_month: "Date (year_of_day d) (month_of_day d + 1) 1 0 = next_month_day d * day_ns"
proof -
  let ?y = "year_of_day d" and ?m = "month_of_day d"
  note P = day_position [of d]
  show ?thesis
  proof (cases "?m = 12")
    case True
    have "days_before_year (?y + 1) = next_month_day d"
      using P(5) True month_12 [of "leap ?y"] by (simp add: next_month_day_def days_before_next_year year_len_def)
    then show ?thesis by (simp add: Date_def Let_def True days_before_month_def)
  next
    case False
    with P(1,2) have m: "1 \<le> ?m" "?m < 12" by simp_all
    then have "days_before_year ?y + days_before_month (leap ?y) (?m + 1) = next_month_day d"
      using P(5) month_step [OF m, of "leap ?y"] by (simp add: next_month_day_def)
    with m show ?thesis by (simp add: Date_def Let_def)
  qed
qed

end
