(* ===== verification/Cron.thy ===== *)
theory Cron
  imports Calendar Go_Strings
begin

text \<open>
  \<^verbatim>\<open>internal/scheduler/scheduler.go\<close>, the cron expressions: \<^verbatim>\<open>Parse\<close>, \<^verbatim>\<open>parseField\<close>, the search of
  \<^verbatim>\<open>cronSchedule.Next\<close> and the catch-up loop \<^verbatim>\<open>nextAfter\<close>. Times are UTC, which is what every caller
  passes.

  Shown here: what a field denotes, that \<^verbatim>\<open>Next\<close> returns the earliest matching minute after its
  argument within its search window and nothing otherwise, that both loops terminate, and that
  the catch-up loop lands on the first occurrence after now.
\<close>

section \<open>Parsing\<close>

record cronSchedule =
  minutes :: "bool list"
  hours :: "bool list"
  doms :: "bool list"
  months :: "bool list"
  dows :: "bool list"

text \<open>\<^verbatim>\<open>for i := from; i <= to; i += step { result[i] = true }\<close>; the steps the program takes are positive.\<close>

function mark :: "int \<Rightarrow> int \<Rightarrow> int \<Rightarrow> bool list \<Rightarrow> bool list" where
  "mark i hi step result =
     (if step \<le> 0 \<or> hi < i then result else mark (i + step) hi step (result[nat i := True]))"
  by pat_completeness auto

termination
  by (relation "measure (\<lambda>(i, hi, step, result). nat (hi - i + 1))") auto

declare mark.simps [simp del]

definition parse_part :: "int \<Rightarrow> int \<Rightarrow> string \<Rightarrow> bool list \<Rightarrow> err + bool list" where
  "parse_part lo hi part result =
     (if part = ''*'' then Inr (map (\<lambda>_. True) result)
      else if has_prefix part ''*/'' then
        (case atoi (drop 2 part) of
           None \<Rightarrow> Inl (Errorf (''invalid step '' @ part) [])
         | Some n \<Rightarrow> if n \<le> 0 then Inl (Errorf (''invalid step '' @ part) [])
                     else Inr (mark 0 (hi - lo) n result))
      else if CHR ''-'' \<in> set part then
        (case split2 (CHR ''-'') part of
           [a, b] \<Rightarrow>
             (case (atoi a, atoi b) of
                (Some l, Some h) \<Rightarrow>
                  if l < lo \<or> hi < h \<or> h < l then Inl (Errorf (''invalid range '' @ part) [])
                  else Inr (mark (l - lo) (h - lo) 1 result)
              | _ \<Rightarrow> Inl (Errorf (''invalid range '' @ part) []))
         | _ \<Rightarrow> Inl (Errorf (''invalid range '' @ part) []))
      else
        (case atoi part of
           None \<Rightarrow> Inl (Errorf (''invalid value '' @ part) [])
         | Some n \<Rightarrow> if n < lo \<or> hi < n then Inl (Errorf (''invalid value '' @ part) [])
                     else Inr (result[nat (n - lo) := True])))"

fun parse_parts :: "int \<Rightarrow> int \<Rightarrow> string list \<Rightarrow> bool list \<Rightarrow> err + bool list" where
  "parse_parts lo hi [] result = Inr result"
| "parse_parts lo hi (p # ps) result =
     (case parse_part lo hi (trim_space p) result of
        Inl e \<Rightarrow> Inl e
      | Inr result' \<Rightarrow> parse_parts lo hi ps result')"

definition parseField :: "string \<Rightarrow> int \<Rightarrow> int \<Rightarrow> err + bool list" where
  "parseField expr lo hi =
     parse_parts lo hi (split_char (CHR '','') expr) (replicate (nat (hi - lo + 1)) False)"

definition Parse :: "string \<Rightarrow> err + cronSchedule" where
  "Parse expr =
     (case Go_Strings.fields expr of
        [f0, f1, f2, f3, f4] \<Rightarrow>
          (case parseField f0 0 59 of Inl e \<Rightarrow> Inl (Errorf ''minute'' [e]) | Inr mins \<Rightarrow>
           case parseField f1 0 23 of Inl e \<Rightarrow> Inl (Errorf ''hour'' [e]) | Inr hrs \<Rightarrow>
           case parseField f2 1 31 of Inl e \<Rightarrow> Inl (Errorf ''day-of-month'' [e]) | Inr ds \<Rightarrow>
           case parseField f3 1 12 of Inl e \<Rightarrow> Inl (Errorf ''month'' [e]) | Inr ms \<Rightarrow>
           case parseField f4 0 6 of Inl e \<Rightarrow> Inl (Errorf ''day-of-week'' [e]) | Inr ws \<Rightarrow>
             Inr \<lparr>minutes = mins, hours = hrs, doms = ds, months = ms, dows = ws\<rparr>)
      | fs \<Rightarrow> Inl (Errorf (''expected 5 fields, got '' @ itoa (int (length fs))) []))"

section \<open>Searching\<close>

lemma Date_month_greater: "t < Date (Year t) (Month t + 1) 1 0"
proof -
  have "t < (day_of t + 1) * day_ns"
    using div_mult_mod_eq [of t day_ns] pos_mod_bound [of day_ns t] by (simp add: day_of_def)
  also have "\<dots> \<le> next_month_day (day_of t) * day_ns" using next_month_day_greater [of "day_of t"] by simp
  finally show ?thesis by (simp add: Year_def Month_def Date_next_month)
qed

lemma Date_day_greater: "t < Date (Year t) (Month t) (Day t + 1) 0"
  using Date_same_day [of "day_of t" 1 0] div_mult_mod_eq [of t day_ns] pos_mod_bound [of day_ns t]
  by (simp add: Year_def Month_def Day_def day_of_def)

lemma Hour_alt: "Hour t = t div hour mod 24"
proof -
  have "t mod day_ns = t mod (hour * 24)" by simp
  also have "\<dots> = hour * (t div hour mod 24) + t mod hour" by (rule zmod_zmult2_eq) simp
  finally show ?thesis by (simp add: Hour_def)
qed

lemma Date_hour: "Date (Year t) (Month t) (Day t) (Hour t + i) = (t div hour + i) * hour"
proof -
  define q r where "q = t div hour div 24" and "r = t div hour mod 24"
  have "t div hour = q * 24 + r" unfolding q_def r_def by (rule div_mult_mod_eq [symmetric])
  moreover have "day_of t = q" using zdiv_zmult2_eq [of 24 t hour] by (simp add: day_of_def q_def)
  moreover have "Hour t = r" by (simp add: Hour_alt r_def)
  moreover have "Date (Year t) (Month t) (Day t) (Hour t + i) = day_of t * day_ns + (Hour t + i) * hour"
    using Date_same_day [of "day_of t" 0 "Hour t + i"] by (simp add: Year_def Month_def Day_def)
  ultimately show ?thesis by simp
qed

lemma Date_hour_greater: "t < Date (Year t) (Month t) (Day t) (Hour t + 1)"
  using div_mult_mod_eq [of t hour] pos_mod_bound [of hour t] by (simp add: Date_hour)

function next_loop :: "cronSchedule \<Rightarrow> time \<Rightarrow> time \<Rightarrow> time" where
  "next_loop c limit t =
     (if \<not> t < limit then zero_time
      else if \<not> months c ! nat (Month t - 1) then next_loop c limit (Date (Year t) (Month t + 1) 1 0)
      else if 31 < Day t \<or> \<not> doms c ! nat (Day t - 1) \<or> \<not> dows c ! nat (Weekday t)
      then next_loop c limit (Date (Year t) (Month t) (Day t + 1) 0)
      else if \<not> hours c ! nat (Hour t) then next_loop c limit (Date (Year t) (Month t) (Day t) (Hour t + 1))
      else if \<not> minutes c ! nat (Minute t) then next_loop c limit (t + minute)
      else t)"
  by pat_completeness auto

termination
  by (relation "measure (\<lambda>(c, limit, t). nat (limit - t))")
    (simp_all add: Date_month_greater Date_day_greater Date_hour_greater)

declare next_loop.simps [simp del]

definition Next :: "cronSchedule \<Rightarrow> time \<Rightarrow> time" where
  "Next c from = next_loop c (from + 4 * 365 * 24 * hour) (Truncate_minute (from + minute))"

lemma next_loop_ge: "next_loop c limit t = zero_time \<or> t \<le> next_loop c limit t"
proof (induction c limit t rule: next_loop.induct)
  case (1 c limit t)
  have "t < t' \<Longrightarrow> r = zero_time \<or> t' \<le> r \<Longrightarrow> r = zero_time \<or> t \<le> r" for t' r :: time by auto
  note up = this [OF Date_month_greater] this [OF Date_day_greater] this [OF Date_hour_greater]
  have m: "r = zero_time \<or> t + minute \<le> r \<Longrightarrow> r = zero_time \<or> t \<le> r" for r by auto
  show ?case
    using up(1) [OF "1.IH"(1)] up(2) [OF "1.IH"(2)] up(3) [OF "1.IH"(3)] m [OF "1.IH"(4)]
    by (simp add: next_loop.simps [of c limit t])
qed

lemma Next_greater: "Next c from \<noteq> zero_time \<Longrightarrow> from < Next c from"
  using next_loop_ge [of c "from + 4 * 365 * 24 * hour" "Truncate_minute (from + minute)"]
    div_mult_mod_eq [of "from + minute" minute] pos_mod_bound [of minute "from + minute"]
  by (simp add: Next_def Truncate_minute_def)

text \<open>The loop of \<^verbatim>\<open>nextAfter\<close>: step over the occurrences up to now, counting them.\<close>

function next_until :: "cronSchedule \<Rightarrow> time \<Rightarrow> time \<Rightarrow> nat \<Rightarrow> time \<times> nat" where
  "next_until c now next skipped =
     (if next \<noteq> zero_time \<and> \<not> now < next then next_until c now (Next c next) (skipped + 1)
      else (next, skipped))"
  by pat_completeness auto

termination
proof (relation "measure (\<lambda>(c, now, next, skipped). if next = zero_time \<or> now < next then 0 else nat (now - next) + 1)",
    goal_cases)
  case (2 c now "next" skipped)
  then show ?case using Next_greater [of c "next"] by auto
qed simp

declare next_until.simps [simp del]

definition nextAfter :: "cronSchedule \<Rightarrow> time \<Rightarrow> time \<Rightarrow> time \<times> nat" where
  "nextAfter c from now = next_until c now (Next c from) 0"

section \<open>What a schedule denotes\<close>

definition matches :: "cronSchedule \<Rightarrow> time \<Rightarrow> bool" where
  "matches c t \<longleftrightarrow> t mod minute = 0 \<and> months c ! nat (Month t - 1) \<and> doms c ! nat (Day t - 1) \<and>
     dows c ! nat (Weekday t) \<and> hours c ! nat (Hour t) \<and> minutes c ! nat (Minute t)"

lemma Day_range: "1 \<le> Day t \<and> Day t \<le> 31"
  using day_position(3,4) [of "day_of t"]
  by (auto simp: Day_def month_len_def split: if_splits)

lemma skip_month:
  assumes "\<not> months c ! nat (Month t - 1)" "t \<le> s" "s < Date (Year t) (Month t + 1) 1 0"
  shows "\<not> matches c s"
proof -
  have "s < next_month_day (day_of t) * day_ns" using assms(3) by (simp add: Year_def Month_def Date_next_month)
  then have "day_of s < next_month_day (day_of t)"
    unfolding day_of_def by (intro int_div_less) simp_all
  moreover have "day_of t \<le> day_of s" using assms(2) by (simp add: day_of_def zdiv_mono1)
  ultimately have "Month s = Month t" using same_month(2) by (simp add: Month_def)
  with assms(1) show ?thesis by (simp add: matches_def)
qed

lemma same_day:
  assumes "t \<le> s" "s < Date (Year t) (Month t) (Day t + 1) 0"
  shows "day_of s = day_of t"
proof -
  have "s < (day_of t + 1) * day_ns" using assms(2) Date_same_day [of "day_of t" 1 0] by (simp add: Year_def Month_def Day_def)
  then have "day_of s < day_of t + 1"
    unfolding day_of_def by (intro int_div_less) simp_all
  moreover have "day_of t \<le> day_of s" using assms(1) by (simp add: day_of_def zdiv_mono1)
  ultimately show ?thesis by linarith
qed

lemma skip_day:
  assumes "31 < Day t \<or> \<not> doms c ! nat (Day t - 1) \<or> \<not> dows c ! nat (Weekday t)"
    and "t \<le> s" "s < Date (Year t) (Month t) (Day t + 1) 0"
  shows "\<not> matches c s"
  using same_day [OF assms(2,3)] assms(1) Day_range [of t] by (auto simp: matches_def Day_def Weekday_def)

lemma skip_hour:
  assumes "\<not> hours c ! nat (Hour t)" "t \<le> s" "s < Date (Year t) (Month t) (Day t) (Hour t + 1)"
  shows "\<not> matches c s"
proof -
  have "s < (t div hour + 1) * hour" using assms(3) by (simp only: Date_hour)
  then have "s div hour < t div hour + 1"
    by (intro int_div_less) simp_all
  moreover have "t div hour \<le> s div hour" using assms(2) by (simp add: zdiv_mono1)
  ultimately have "Hour s = Hour t" by (simp add: Hour_alt)
  with assms(1) show ?thesis by (simp add: matches_def)
qed

lemma skip_minute:
  assumes "\<not> minutes c ! nat (Minute t)" "t mod minute = 0" "t \<le> s" "s < t + minute"
  shows "\<not> matches c s"
proof
  assume m: "matches c s"
  then have "s mod minute = 0" by (simp add: matches_def)
  then have "(s - t) mod minute = 0" using assms(2) by (simp add: mod_diff_eq [symmetric])
  moreover have "(s - t) mod minute = s - t" using assms(3,4) by simp
  ultimately have "s = t" by simp
  with m assms(1) show False by (simp add: matches_def)
qed

lemma Date_aligned: "Date y m d h mod minute = 0"
proof -
  have "Date y m d h = minute * (1440 * (Date y m d 0 div day_ns) + 60 * h)"
    by (simp add: Date_def Let_def)
  then show ?thesis by (metis mod_mult_self1_is_0)
qed

text \<open>The search returns the first match of the window it is given, or the zero time.\<close>

definition first_match :: "cronSchedule \<Rightarrow> time \<Rightarrow> time \<Rightarrow> time \<Rightarrow> bool" where
  "first_match c t limit r \<longleftrightarrow>
     (if r = zero_time then \<forall>s. t \<le> s \<and> s < limit \<longrightarrow> \<not> matches c s
      else t \<le> r \<and> r < limit \<and> matches c r \<and> (\<forall>s. t \<le> s \<and> s < r \<longrightarrow> \<not> matches c s))"

lemma first_match_skip:
  assumes "first_match c t' limit r" "t < t'" "\<And>s. t \<le> s \<Longrightarrow> s < t' \<Longrightarrow> \<not> matches c s"
  shows "first_match c t limit r"
proof -
  have "\<not> matches c s" if "t \<le> s" "t' \<le> s \<Longrightarrow> \<not> matches c s" for s
    using that assms(3) [of s] by (cases "s < t'") auto
  note skip = this
  show ?thesis
  proof (cases "r = zero_time")
    case True
    with assms(1) have "\<forall>s. t' \<le> s \<and> s < limit \<longrightarrow> \<not> matches c s" by (simp add: first_match_def)
    with True skip show ?thesis unfolding first_match_def by meson
  next
    case False
    with assms(1) have "t' \<le> r \<and> r < limit \<and> matches c r" "\<forall>s. t' \<le> s \<and> s < r \<longrightarrow> \<not> matches c s"
      by (simp_all add: first_match_def)
    with False assms(2) skip show ?thesis unfolding first_match_def by (meson less_imp_le order_trans)
  qed
qed

lemma next_loop_first_match:
  assumes "t mod minute = 0" "zero_time < t"
  shows "first_match c t limit (next_loop c limit t)"
  using assms
proof (induction c limit t rule: next_loop.induct)
  case (1 c limit t)
  note S = next_loop.simps [of c limit t] and P = "1.prems"
  show ?case
  proof (cases "t < limit")
    case False
    then show ?thesis by (auto simp: S first_match_def)
  next
    case lim: True
    show ?thesis
    proof (cases "months c ! nat (Month t - 1)")
      case False
      have g: "t < Date (Year t) (Month t + 1) 1 0" by (rule Date_month_greater)
      with "1.IH"(1) lim False P have "first_match c (Date (Year t) (Month t + 1) 1 0) limit (next_loop c limit t)"
        by (simp add: S Date_aligned)
      from first_match_skip [OF this g skip_month [OF False]] show ?thesis by simp
    next
      case mon: True
      show ?thesis
      proof (cases "31 < Day t \<or> \<not> doms c ! nat (Day t - 1) \<or> \<not> dows c ! nat (Weekday t)")
        case True
        have g: "t < Date (Year t) (Month t) (Day t + 1) 0" by (rule Date_day_greater)
        with "1.IH"(2) lim mon True P
        have "first_match c (Date (Year t) (Month t) (Day t + 1) 0) limit (next_loop c limit t)"
          by (simp add: S Date_aligned)
        from first_match_skip [OF this g skip_day [OF True]] show ?thesis by simp
      next
        case day: False
        show ?thesis
        proof (cases "hours c ! nat (Hour t)")
          case False
          have g: "t < Date (Year t) (Month t) (Day t) (Hour t + 1)" by (rule Date_hour_greater)
          with "1.IH"(3) lim mon day False P
          have "first_match c (Date (Year t) (Month t) (Day t) (Hour t + 1)) limit (next_loop c limit t)"
            by (simp add: S Date_aligned)
          from first_match_skip [OF this g skip_hour [OF False]] show ?thesis by simp
        next
          case hr: True
          show ?thesis
          proof (cases "minutes c ! nat (Minute t)")
            case False
            with "1.IH"(4) lim mon day hr P have "first_match c (t + minute) limit (next_loop c limit t)"
              by (simp add: S)
            from first_match_skip [OF this _ skip_minute [OF False P(1)]] show ?thesis by simp
          next
            case True
            with lim mon day hr P S have "next_loop c limit t = t" "matches c t" by (auto simp: matches_def)
            with lim P(2) show ?thesis by (auto simp: first_match_def)
          qed
        qed
      qed
    qed
  qed
qed

section \<open>The next occurrence\<close>

lemma Truncate_minute_facts:
  "Truncate_minute (t + minute) mod minute = 0" "t < Truncate_minute (t + minute)"
  "Truncate_minute (t + minute) \<le> t + minute"
  using div_mult_mod_eq [of "t + minute" minute] pos_mod_bound [of minute "t + minute"] pos_mod_sign [of minute "t + minute"]
  by (simp_all add: Truncate_minute_def)

lemma aligned_after:
  assumes "s mod minute = 0" "from < s"
  shows "Truncate_minute (from + minute) \<le> s"
proof -
  have "from div minute < s div minute"
    using assms div_mult_mod_eq [of s minute] by (intro int_div_less) simp_all
  then have "(from div minute + 1) * minute \<le> s div minute * minute" by (intro mult_right_mono) simp_all
  with assms(1) show ?thesis by (simp add: Truncate_minute_def div_add_self2)
qed

text \<open>
  C26. \<^verbatim>\<open>Next\<close> is the earliest occurrence. For any schedule and any instant since the epoch, the result
  is either an instant strictly later that satisfies all five fields, before the end of the search
  window of 1460 days, with no satisfying instant in between; or the zero time, and then no instant
  in the window satisfies the fields. The search loop terminates.
\<close>

theorem next_is_earliest:
  assumes "zero_time < from"
  shows "(Next c from = zero_time \<and> (\<forall>s. from < s \<and> s < from + 1460 * day_ns \<longrightarrow> \<not> matches c s)) \<or>
    (from < Next c from \<and> Next c from < from + 1460 * day_ns \<and> matches c (Next c from) \<and>
     (\<forall>s. from < s \<and> s < Next c from \<longrightarrow> \<not> matches c s))"
proof -
  let ?t = "Truncate_minute (from + minute)"
  note T = Truncate_minute_facts [of "from"]
  have f: "first_match c ?t (from + 1460 * day_ns) (Next c from)"
    using next_loop_first_match [of ?t c "from + 1460 * day_ns"] T assms by (simp add: Next_def)
  have before: "\<not> matches c s" if "from < s" "?t \<le> s \<Longrightarrow> \<not> matches c s" for s
    using that aligned_after [of s "from"] by (auto simp: matches_def)
  show ?thesis
  proof (cases "Next c from = zero_time")
    case True
    with f have "\<forall>s. ?t \<le> s \<and> s < from + 1460 * day_ns \<longrightarrow> \<not> matches c s" by (simp add: first_match_def)
    with True before show ?thesis by blast
  next
    case False
    with f have "?t \<le> Next c from \<and> Next c from < from + 1460 * day_ns \<and> matches c (Next c from)"
      "\<forall>s. ?t \<le> s \<and> s < Next c from \<longrightarrow> \<not> matches c s" by (simp_all add: first_match_def)
    with T(2) before show ?thesis by (meson less_le_trans)
  qed
qed

lemma Next_first_match:
  "zero_time < from \<Longrightarrow> Next c from \<noteq> zero_time \<Longrightarrow>
     zero_time < Next c from \<and> matches c (Next c from) \<and> (\<forall>s. from < s \<and> s < Next c from \<longrightarrow> \<not> matches c s)"
proof -
  assume z: "zero_time < from" "Next c from \<noteq> zero_time"
  let ?t = "Truncate_minute (from + minute)"
  have "first_match c ?t (from + 1460 * day_ns) (Next c from)"
    using next_loop_first_match [of ?t c "from + 1460 * day_ns"] Truncate_minute_facts [of "from"] z by (simp add: Next_def)
  with z have m: "matches c (Next c from)" "\<forall>s. ?t \<le> s \<and> s < Next c from \<longrightarrow> \<not> matches c s"
    by (simp_all add: first_match_def)
  moreover have "\<not> matches c s" if "from < s" "s < Next c from" for s
    using that m(2) aligned_after [of s "from"] by (auto simp: matches_def)
  ultimately show ?thesis using z Next_greater [OF z(2)] by auto
qed

lemma Next_window:
  "zero_time < from \<Longrightarrow> Next c from \<noteq> zero_time \<Longrightarrow> Next c from < from + 1460 * day_ns"
  using next_loop_first_match [of "Truncate_minute (from + minute)" c "from + 1460 * day_ns"]
    Truncate_minute_facts [of "from"] by (simp add: Next_def first_match_def)

definition occurrences :: "cronSchedule \<Rightarrow> time \<Rightarrow> time \<Rightarrow> time set" where
  "occurrences c lo hi = {s. lo < s \<and> s \<le> hi \<and> matches c s}"

lemma occurrences_finite [simp]: "finite (occurrences c lo hi)"
  by (rule finite_subset [of _ "{lo..hi}"]) (auto simp: occurrences_def)

lemma next_until_spec:
  assumes "next_until c now next k = (r, k')" "r \<noteq> zero_time" "zero_time < lo" "lo < next" "matches c next"
    and "\<forall>s. lo < s \<and> s < next \<longrightarrow> \<not> matches c s"
  shows "now < r \<and> lo < r \<and> matches c r \<and> (\<forall>s. lo < s \<and> now < s \<and> s < r \<longrightarrow> \<not> matches c s) \<and>
    k' = k + card (occurrences c lo now)"
  using assms
proof (induction c now "next" k arbitrary: lo rule: next_until.induct)
  case (1 c now "next" k)
  note P = "1.prems" and S = next_until.simps [of c now "next" k]
  show ?case
  proof (cases "now < next")
    case True
    then have "occurrences c lo now = {}" using P(6) by (auto simp: occurrences_def)
    with True P S show ?thesis by auto
  next
    case False
    have z: "zero_time < next" "next \<noteq> zero_time" using P(3,4) by simp_all
    with False P(1) S have u: "next_until c now (Next c next) (k + 1) = (r, k')" by simp
    have n: "Next c next \<noteq> zero_time"
      using u P(2) next_until.simps [of c now zero_time "k + 1"] by auto
    note N = Next_first_match [OF z(1) n] and G = Next_greater [OF n]
    have IH: "now < r \<and> next < r \<and> matches c r \<and> (\<forall>s. next < s \<and> now < s \<and> s < r \<longrightarrow> \<not> matches c s) \<and>
      k' = k + 1 + card (occurrences c next now)"
      using "1.IH" [of "next"] False z u P(2) N G by simp
    have "occurrences c lo now = insert next (occurrences c next now)"
      using P(4-6) False by (auto simp: occurrences_def not_less)
    moreover have "next \<notin> occurrences c next now" by (simp add: occurrences_def)
    ultimately have "card (occurrences c lo now) = Suc (card (occurrences c next now))" by simp
    moreover have "\<not> matches c s" if "lo < s" "now < s" "s < r" for s
      using IH that False by (cases "next < s") auto
    ultimately show ?thesis using IH P(4) by auto
  qed
qed

text \<open>
  C27. Catching up skips the missed occurrences and counts them. When \<^verbatim>\<open>nextAfter\<close> returns an
  instant, it is the first occurrence of the schedule that lies after now (and after the instant
  just fired), and the count returned is the exact number of occurrences since the instant fired
  that have already passed. The loop terminates for every schedule and every gap.
\<close>

theorem nextAfter_skips_missed:
  assumes "nextAfter c from now = (r, skipped)" "r \<noteq> zero_time" "zero_time < from"
  shows "now < r \<and> from < r \<and> matches c r \<and> (\<forall>s. from < s \<and> now < s \<and> s < r \<longrightarrow> \<not> matches c s) \<and>
    skipped = card {s. from < s \<and> s \<le> now \<and> matches c s}"
proof -
  from assms(1) have u: "next_until c now (Next c from) 0 = (r, skipped)" by (simp add: nextAfter_def)
  have n: "Next c from \<noteq> zero_time"
    using u assms(2) next_until.simps [of c now zero_time 0] by auto
  from next_until_spec [OF u assms(2,3) Next_greater [OF n]] Next_first_match [OF assms(3) n]
  show ?thesis by (simp add: occurrences_def)
qed

definition every_minute :: cronSchedule where
  "every_minute = \<lparr>minutes = replicate 60 True, hours = replicate 24 True, doms = replicate 31 True,
     months = replicate 12 True, dows = replicate 7 True\<rparr>"

lemma field_ranges:
  "0 \<le> Month t - 1 \<and> Month t - 1 < 12" "0 \<le> Day t - 1 \<and> Day t - 1 < 31" "0 \<le> Weekday t \<and> Weekday t < 7"
  "0 \<le> Hour t \<and> Hour t < 24" "0 \<le> Minute t \<and> Minute t < 60"
proof -
  show "0 \<le> Month t - 1 \<and> Month t - 1 < 12" using day_position(1,2) [of "day_of t"] by (simp add: Month_def)
  show "0 \<le> Day t - 1 \<and> Day t - 1 < 31" using Day_range [of t] by simp
  show "0 \<le> Weekday t \<and> Weekday t < 7" by (simp add: Weekday_def)
  show "0 \<le> Hour t \<and> Hour t < 24" by (simp add: Hour_alt)
  have "t mod hour < 60 * minute" "0 \<le> t mod hour" by simp_all
  then show "0 \<le> Minute t \<and> Minute t < 60" unfolding Minute_def by (intro conjI int_div_less) simp_all
qed

lemma every_minute_lookup:
  "months every_minute ! nat (Month t - 1)" "doms every_minute ! nat (Day t - 1)" "dows every_minute ! nat (Weekday t)"
  "hours every_minute ! nat (Hour t)" "minutes every_minute ! nat (Minute t)"
  using field_ranges [of t] by (simp_all add: every_minute_def nth_replicate nat_less_iff)

lemma Next_every_minute: "Next every_minute t = Truncate_minute (t + minute)"
  using Truncate_minute_facts(3) [of t] Day_range [of "Truncate_minute (t + minute)"]
  by (simp add: Next_def next_loop.simps [of every_minute _ "Truncate_minute (t + minute)"] every_minute_lookup)

theorem next_is_earliest_witness:
  "Next every_minute (90 * second) = 120 * second \<and> matches every_minute (120 * second) \<and>
   \<not> matches every_minute (100 * second)"
proof -
  have n: "Next every_minute (90 * second) = 120 * second" by (simp add: Next_every_minute Truncate_minute_def)
  have z: "zero_time < 90 * second" by (simp add: zero_time_def)
  from next_is_earliest [OF z, of every_minute] show ?thesis unfolding n by (simp add: zero_time_def)
qed

theorem nextAfter_skips_missed_witness:
  "nextAfter every_minute (60 * second) (200 * second) = (240 * second, 2) \<and>
   card {s. 60 * second < s \<and> s \<le> 200 * second \<and> matches every_minute s} = 2"
proof -
  have n: "nextAfter every_minute (60 * second) (200 * second) = (240 * second, 2)"
    by (simp add: nextAfter_def Next_every_minute Truncate_minute_def next_until.simps zero_time_def)
  have z: "240 * second \<noteq> zero_time" "zero_time < 60 * second" by (simp_all add: zero_time_def)
  from nextAfter_skips_missed [OF n z] have "2 = card {s. 60 * second < s \<and> s \<le> 200 * second \<and> matches every_minute s}"
    by blast
  with n show ?thesis by simp
qed

section \<open>What a field denotes\<close>

lemma mark_spec:
  assumes "0 \<le> i" "0 < step" "hi < int (length result)"
  shows "length (mark i hi step result) = length result"
    "j < length result \<Longrightarrow> mark i hi step result ! j \<longleftrightarrow>
       result ! j \<or> (i \<le> int j \<and> int j \<le> hi \<and> (int j - i) mod step = 0)"
  using assms
proof (induction i hi step result rule: mark.induct)
  case (1 i hi step result)
  {
    case 1
    then show ?case using "1.IH"(1) by (simp add: mark.simps [of i hi step result])
  next
    case 2
    show ?case
    proof (cases "hi < i")
      case True
      then show ?thesis by (auto simp: mark.simps [of i hi step result])
    next
      case False
      have rest: "mark i hi step result ! j \<longleftrightarrow> result[nat i := True] ! j \<or>
          (i + step \<le> int j \<and> int j \<le> hi \<and> (int j - (i + step)) mod step = 0)"
        using "1.IH"(2) 2 False by (simp add: mark.simps [of i hi step result])
      have set_i: "result[nat i := True] ! j \<longleftrightarrow> result ! j \<or> int j = i"
        using 2 by (cases "nat i = j") auto
      have shift: "(int j - (i + step)) mod step = (int j - i) mod step"
        by (metis diff_diff_eq minus_mod_self2)
      consider "int j < i" | "i \<le> int j" "int j < i + step" | "i + step \<le> int j" by linarith
      then show ?thesis
      proof cases
        case 2
        then have "(int j - i) mod step = int j - i" by (intro mod_pos_pos_trivial) simp_all
        with 2 False show ?thesis unfolding rest set_i by auto
      next
        case 3
        with \<open>0 < step\<close> show ?thesis unfolding rest set_i shift by auto
      qed (use \<open>0 < step\<close> in \<open>auto simp: rest set_i\<close>)
    qed
  }
qed

text \<open>The values one comma-separated part stands for, by the shape of the part.\<close>

definition part_denotes :: "int \<Rightarrow> string \<Rightarrow> int \<Rightarrow> bool" where
  "part_denotes lo part v \<longleftrightarrow>
     (if part = ''*'' then True
      else if has_prefix part ''*/'' then (\<exists>n. atoi (drop 2 part) = Some n \<and> (v - lo) mod n = 0)
      else if CHR ''-'' \<in> set part
      then (\<exists>a b l h. split2 (CHR ''-'') part = [a, b] \<and> atoi a = Some l \<and> atoi b = Some h \<and> l \<le> v \<and> v \<le> h)
      else atoi part = Some v)"

lemma parse_part_spec:
  assumes "parse_part lo hi part result = Inr bits" "int (length result) = hi - lo + 1" "lo \<le> v" "v \<le> hi"
  shows "length bits = length result \<and> (bits ! nat (v - lo) \<longleftrightarrow> result ! nat (v - lo) \<or> part_denotes lo part v)"
proof -
  let ?j = "nat (v - lo)"
  have j: "?j < length result" "int ?j = v - lo" using assms by linarith+
  consider "part = ''*''" "bits = map (\<lambda>_. True) result"
    | n where "part \<noteq> ''*''" "has_prefix part ''*/''" "atoi (drop 2 part) = Some n" "0 < n" "bits = mark 0 (hi - lo) n result"
    | a b l h where "part \<noteq> ''*''" "\<not> has_prefix part ''*/''" "CHR ''-'' \<in> set part" "split2 (CHR ''-'') part = [a, b]"
      "atoi a = Some l" "atoi b = Some h" "lo \<le> l" "h \<le> hi" "l \<le> h" "bits = mark (l - lo) (h - lo) 1 result"
    | n where "part \<noteq> ''*''" "\<not> has_prefix part ''*/''" "CHR ''-'' \<notin> set part" "atoi part = Some n" "lo \<le> n" "n \<le> hi"
      "bits = result[nat (n - lo) := True]"
    using assms(1) unfolding parse_part_def
    by (auto split: if_splits option.splits list.splits simp: not_less not_le)
  then show ?thesis
  proof cases
    case 1
    with j show ?thesis by (simp add: part_denotes_def)
  next
    case 2
    with j assms mark_spec [of 0 n "hi - lo" result] show ?thesis by (simp add: part_denotes_def)
  next
    case 3
    with j assms mark_spec [of "l - lo" 1 "h - lo" result] show ?thesis by (auto simp: part_denotes_def)
  next
    case 4
    have "nat (n - lo) = ?j \<longleftrightarrow> n = v" using 4 assms(3) by auto
    with 4 j show ?thesis by (auto simp: part_denotes_def nth_list_update)
  qed
qed

lemma parse_parts_spec:
  assumes "parse_parts lo hi parts result = Inr bits" "int (length result) = hi - lo + 1" "lo \<le> v" "v \<le> hi"
  shows "length bits = length result \<and>
    (bits ! nat (v - lo) \<longleftrightarrow> result ! nat (v - lo) \<or> (\<exists>p\<in>set parts. part_denotes lo (trim_space p) v))"
  using assms(1,2)
proof (induction parts arbitrary: result)
  case (Cons p ps)
  from Cons.prems(1) obtain r where r: "parse_part lo hi (trim_space p) result = Inr r" "parse_parts lo hi ps r = Inr bits"
    by (auto split: sum.splits)
  from parse_part_spec [OF r(1) Cons.prems(2) assms(3,4)] Cons.IH [OF r(2)] Cons.prems(2) show ?case by auto
qed simp

text \<open>
  A field means what its parts say. When \<^verbatim>\<open>parseField\<close> accepts a field, the table it returns has
  one entry for each value of the range, and an entry is set exactly if one of the comma-separated
  parts denotes its value: a star all of them, a step every n-th counted from the least value, a range
  the values between its bounds, and a number itself.
\<close>

lemma parseField_denotes:
  assumes "parseField expr lo hi = Inr bits" "lo \<le> v" "v \<le> hi"
  shows "int (length bits) = hi - lo + 1 \<and>
    (bits ! nat (v - lo) \<longleftrightarrow> (\<exists>p\<in>set (split_char (CHR '','') expr). part_denotes lo (trim_space p) v))"
  using parse_parts_spec [OF assms(1) [unfolded parseField_def] _ assms(2,3)] assms(2,3) by auto

lemmas parse_eval = parseField_def parse_part_def trim_space_plain plain_def has_prefix_def atoi_def parse_int_def
  is_digit_def digit_val_def mark.simps

lemma parseField_denotes_witness:
  "parseField ''1-3,7'' 0 9 = Inr [False, True, True, True, False, False, False, True, False, False] \<and>
   part_denotes 0 ''1-3'' 2 \<and> \<not> part_denotes 0 ''7'' 5"
proof -
  have p: "parseField ''1-3,7'' 0 9 = Inr [False, True, True, True, False, False, False, True, False, False]"
    by (simp add: parse_eval numeral_eq_Suc)
  have s: "set (split_char (CHR '','') ''1-3,7'') = {''1-3'', ''7''}" by simp
  have t: "trim_space ''1-3'' = ''1-3''" "trim_space ''7'' = ''7''" by (simp_all add: trim_space_plain plain_def)
  have v: "(0 :: int) \<le> 2" "(2 :: int) \<le> 9" "(0 :: int) \<le> 5" "(5 :: int) \<le> 9" by simp_all
  have "\<not> part_denotes 0 ''7'' 5" using parseField_denotes [OF p v(3,4)] by (simp add: s t)
  moreover have "\<not> part_denotes 0 ''7'' 2" by (simp add: part_denotes_def parse_eval)
  moreover have "part_denotes 0 ''1-3'' 2 \<or> part_denotes 0 ''7'' 2" using parseField_denotes [OF p v(1,2)] by (simp add: s t)
  ultimately show ?thesis using p by blast
qed

section \<open>The window is a day short of four years\<close>

definition leap_day_cron :: cronSchedule where
  "leap_day_cron = \<lparr>minutes = (replicate 60 False)[0 := True], hours = (replicate 24 False)[0 := True],
     doms = (replicate 31 False)[28 := True], months = (replicate 12 False)[1 := True], dows = replicate 7 True\<rparr>"

lemma Parse_leap_day: "Parse ''0 0 29 2 *'' = Inr leap_day_cron"
proof -
  have "Go_Strings.fields ''0 0 29 2 *'' = [''0'', ''0'', ''29'', ''2'', ''*'']" by (simp add: fields_eval)
  moreover have "parseField ''0'' 0 59 = Inr ((replicate 60 False)[0 := True])"
    "parseField ''0'' 0 23 = Inr ((replicate 24 False)[0 := True])"
    "parseField ''29'' 1 31 = Inr ((replicate 31 False)[28 := True])"
    "parseField ''2'' 1 12 = Inr ((replicate 12 False)[1 := True])"
    "parseField ''*'' 0 6 = Inr (replicate 7 True)"
    by (simp_all add: parse_eval)
  ultimately show ?thesis unfolding Parse_def leap_day_cron_def by simp
qed

lemma leap_day_matches:
  assumes "matches leap_day_cron t"
  shows "leap (Year t) \<and> t = (days_before_year (Year t) + 59) * day_ns"
proof -
  have m: "Month t = 2" "Day t = 29"
    using assms field_ranges(1,2) [of t] by (auto simp: matches_def leap_day_cron_def nth_list_update split: if_splits)
  note P = day_position [of "day_of t", folded Year_def Month_def Day_def]
  have lp: "leap (Year t)" using P(4) m by (simp add: month_len_def split: if_splits)
  have d: "day_of t = days_before_year (Year t) + 59"
    using P(5) m lp by (simp add: days_before_month_def)
  have h: "Hour t = 0" "Minute t = 0" "t mod minute = 0"
    using assms field_ranges(4,5) [of t] by (auto simp: matches_def leap_day_cron_def nth_list_update split: if_splits)
  have "t = Date (Year t) (Month t) (Day t) (Hour t + 0) + t mod hour"
    using Date_hour [of t 0] div_mult_mod_eq [of t hour] by simp
  moreover have "Date (Year t) (Month t) (Day t) 0 = day_of t * day_ns"
    using Date_same_day [of "day_of t" 0 0] by (simp add: Year_def Month_def Day_def)
  moreover have "t mod hour = 0"
  proof -
    have "t mod hour mod minute = 0" using h(3) mod_mod_cancel [of minute hour t] by simp
    with h(2) div_mult_mod_eq [of "t mod hour" minute] show ?thesis by (simp add: Minute_def)
  qed
  ultimately have "t = day_of t * day_ns" using h(1) by simp
  with lp d show ?thesis by simp
qed

lemma leap_gap: "leap y \<Longrightarrow> leap z \<Longrightarrow> y < z \<Longrightarrow> days_before_year y + 1461 \<le> days_before_year z"
proof -
  assume l: "leap y" "leap z" "y < z"
  then have "y mod 4 = 0" "z mod 4 = 0" by (simp_all add: leap_def)
  with l(3) have z: "y + 4 \<le> z" by presburger
  have "\<not> leap (y + 1)" "\<not> leap (y + 2)" "\<not> leap (y + 3)"
    using \<open>y mod 4 = 0\<close> mod_add_left_eq [of y 4 1] mod_add_left_eq [of y 4 2] mod_add_left_eq [of y 4 3] by (simp_all add: leap_def)
  then have "days_before_year (y + 1 + 1 + 1 + 1) = days_before_year y + 1461"
    using l(1) by (simp only: days_before_next_year year_len_def) (simp add: add.assoc)
  moreover have "y + 1 + 1 + 1 + 1 = y + 4" by simp
  ultimately show ?thesis using days_before_year_mono [OF z] by (simp add: add.commute)
qed

lemma leap_day_order:
  fixes a b :: int
  assumes "t = (a + 59) * day_ns" "s = (b + 59) * day_ns"
  shows "t < s \<Longrightarrow> a < b" and "a + n \<le> b \<Longrightarrow> t + n * day_ns \<le> s"
  unfolding assms by simp_all

lemma leap_day_no_next:
  assumes "matches leap_day_cron t" "zero_time < t"
  shows "Next leap_day_cron t = zero_time"
proof (rule ccontr)
  let ?s = "Next leap_day_cron t"
  assume n: "?s \<noteq> zero_time"
  have m: "matches leap_day_cron ?s" and g: "t < ?s" using Next_first_match [OF assms(2) n] Next_greater [OF n] by simp_all
  obtain A: "leap (Year t)" "t = (days_before_year (Year t) + 59) * day_ns" using leap_day_matches [OF assms(1)] by blast
  obtain B: "leap (Year ?s)" "?s = (days_before_year (Year ?s) + 59) * day_ns" using leap_day_matches [OF m] by blast
  have "days_before_year (Year t) < days_before_year (Year ?s)" by (rule leap_day_order(1) [OF A(2) B(2) g])
  then have "Year t < Year ?s" using days_before_year_mono [of "Year ?s" "Year t"] by linarith
  from leap_gap [OF A(1) B(1) this] have "t + 1461 * day_ns \<le> ?s" by (rule leap_day_order(2) [OF A(2) B(2)])
  moreover have "?s < t + 1460 * day_ns" by (rule Next_window [OF assms(2) n])
  ultimately show False by linarith
qed

end
