(* ===== verification/Scheduler.thy ===== *)
theory Scheduler
  imports Schedule_Store Job_Service Cron
begin

text \<open>
  \<^verbatim>\<open>internal/scheduler/scheduler.go\<close>: the loop that turns due schedules into jobs. \<^verbatim>\<open>dispatch\<close> polls the
  table and \<^verbatim>\<open>fire\<close> enqueues one run and then advances the schedule, conditionally. The \<^verbatim>\<open>Enqueuer\<close>
  interface is an argument of \<open>fire\<close>; the locale \<open>enqueuer\<close> is its contract, and it is interpreted on
  \<^verbatim>\<open>JobService.Enqueue\<close>.

  Shown here: the idempotency keys of different fires differ; of any number of replicas that fire
  the same instant one advances and all name the same job; and that a schedule for 29 February
  never fires, because the window of \<open>Next\<close> is a day short of four years.
\<close>

section \<open>Operations\<close>

record scheduler_config =
  TickInterval :: duration
  FireBudget :: int

definition New_scheduler :: "scheduler_config \<Rightarrow> scheduler_config" where
  "New_scheduler cfg =
     cfg\<lparr>TickInterval := (if TickInterval cfg \<le> 0 then 30 * second else TickInterval cfg),
         FireBudget := (if FireBudget cfg \<le> 0 then 5 else FireBudget cfg)\<rparr>"

type_synonym enqueue = "job \<Rightarrow> jobs \<Rightarrow> (err + string) \<times> jobs \<times> job option"

definition IdempotencyPrefix :: string where
  "IdempotencyPrefix = ''sched:''"

definition fire_key :: "string \<Rightarrow> time \<Rightarrow> string" where
  "fire_key sid fireAt = IdempotencyPrefix @ sid @ '':'' @ itoa (fireAt div second)"

definition fire_job :: "schedule \<Rightarrow> job" where
  "fire_job sched = zero_job\<lparr>
     j_tenant_id := s_tenant_id sched,
     j_idempotency_key := fire_key (s_id sched) (s_next_run_at sched),
     j_task := s_task sched,
     j_scheduled_at := Some (s_next_run_at sched),
     j_metadata := Some [(''conduit.schedule_id'', s_id sched), (''conduit.schedule'', s_name sched)]\<rparr>"

text \<open>What \<^verbatim>\<open>fire\<close> logs on each of its ways out.\<close>

datatype fire_outcome =
    Unparseable err | No_occurrence | Enqueue_failed err | Advance_failed string err | Advance_lost string
  | Fired string time nat

definition fire :: "enqueue \<Rightarrow> schedules call \<Rightarrow> schedule \<Rightarrow> time \<Rightarrow> jobs \<times> schedules \<Rightarrow>
    fire_outcome \<times> jobs \<times> schedules" where
  "fire enq c sched now = (\<lambda>(jobs, scheds).
     case Parse (s_cron sched) of
       Inl e \<Rightarrow> (Unparseable e, jobs, scheds)
     | Inr cron \<Rightarrow>
         let (next, skipped) = nextAfter cron (s_next_run_at sched) now in
         if next = zero_time then (No_occurrence, jobs, scheds)
         else (case enq (fire_job sched) jobs of
             (Inl e, jobs', published) \<Rightarrow> (Enqueue_failed e, jobs', scheds)
           | (Inr jobID, jobs', published) \<Rightarrow>
               (case AdvanceSchedule c (s_id sched) (s_next_run_at sched) next jobID scheds of
                  (Inl e, scheds') \<Rightarrow> (Advance_failed jobID e, jobs', scheds')
                | (Inr advanced, scheds') \<Rightarrow>
                    (if advanced then Fired jobID next skipped else Advance_lost jobID, jobs', scheds'))))"

text \<open>One pass of the loop over the due schedules, with the context checked ahead of each.\<close>

record fire_env =
  fe_cancelled :: bool
  fe_enqueue :: enqueue
  fe_advance :: "schedules call"

fun fire_all :: "(nat \<Rightarrow> fire_env) \<Rightarrow> nat \<Rightarrow> schedule list \<Rightarrow> time \<Rightarrow> jobs \<times> schedules \<Rightarrow>
    (string \<times> fire_outcome) list \<times> jobs \<times> schedules" where
  "fire_all env i [] now st = ([], st)"
| "fire_all env i (sched # due) now st =
     (if fe_cancelled (env i) then ([], st)
      else let (out, st') = fire (fe_enqueue (env i)) (fe_advance (env i)) sched now st;
               (outs, st'') = fire_all env (i + 1) due now st'
           in ((s_id sched, out) # outs, st''))"

definition dispatch :: "scheduler_config \<Rightarrow> schedules call \<Rightarrow> (nat \<Rightarrow> fire_env) \<Rightarrow> time \<Rightarrow> jobs \<times> schedules \<Rightarrow>
    (string \<times> fire_outcome) list \<times> jobs \<times> schedules" where
  "dispatch cfg c env now = (\<lambda>(jobs, scheds).
     case DueSchedules c now (FireBudget cfg) scheds of
       (Inl e, scheds') \<Rightarrow> ([], jobs, scheds')
     | (Inr due, scheds') \<Rightarrow> fire_all env 0 due now (jobs, scheds'))"

section \<open>Keys\<close>

lemma itoa_no_colon: "CHR '':'' \<notin> set (itoa n)"
  using set_itoa [of "CHR '':''" n] by (auto simp: is_digit_def)

lemma split_last:
  fixes c :: char
  assumes "x @ c # u = y @ c # v" "c \<notin> set u" "c \<notin> set v"
  shows "x = y \<and> u = v"
proof -
  have "rev u @ c # rev x = rev v @ c # rev y" using arg_cong [OF assms(1), of rev] by simp
  from arg_cong [OF this, of "split2 c"] assms(2,3) show ?thesis by (simp add: split2_append)
qed

lemma fire_key_inj: "fire_key i t = fire_key j u \<longleftrightarrow> i = j \<and> t div second = u div second"
  using split_last [of i "CHR '':''" "itoa (t div second)" j "itoa (u div second)"] itoa_no_colon itoa_inj
  by (auto simp: fire_key_def IdempotencyPrefix_def)

section \<open>The Enqueuer interface\<close>

locale enqueuer =
  fixes enq :: enqueue and good :: "jobs \<Rightarrow> bool"
  assumes keyed: "good jobs \<Longrightarrow> j_idempotency_key job \<noteq> '''' \<Longrightarrow> enq job jobs = (Inr jid, jobs', pub) \<Longrightarrow>
      the_job_with_key (j_tenant_id (default_tenant job)) (j_idempotency_key job) jid jobs'"
    and keeps_good: "good jobs \<Longrightarrow> enq job jobs = (res, jobs', pub) \<Longrightarrow> good jobs'"
begin

lemma fire_job_key [simp]: "j_idempotency_key (fire_job sched) = fire_key (s_id sched) (s_next_run_at sched)"
  "fire_key i t \<noteq> ''''"
  by (simp_all add: fire_job_def fire_key_def IdempotencyPrefix_def)

lemma fire_good: "good jobs \<Longrightarrow> fire enq c sched now (jobs, scheds) = (out, jobs', scheds') \<Longrightarrow> good jobs'"
  by (auto simp: fire_def Let_def split: sum.splits prod.splits if_splits dest: keeps_good)

lemma fired_names_the_job:
  assumes "good jobs" "fire enq c sched now (jobs, scheds) = (out, jobs', scheds')"
    and "out = Fired jid next k \<or> out = Advance_lost jid \<or> out = Advance_failed jid e"
  shows "the_job_with_key (j_tenant_id (default_tenant (fire_job sched))) (fire_key (s_id sched) (s_next_run_at sched)) jid jobs'"
proof -
  from assms(2,3) obtain pub where "enq (fire_job sched) jobs = (Inr jid, jobs', pub)"
    by (auto simp: fire_def Let_def split: sum.splits prod.splits if_splits)
  from keyed [OF assms(1) _ this] show ?thesis by simp
qed

end

lemma service_enqueuer:
  assumes "\<And>c s. c \<in> {c1, c2, c3} \<Longrightarrow> keys_unique s \<Longrightarrow> keys_unique (rely c s)"
  shows "enqueuer (Enqueue svc c1 c2 c3 t t' random) keys_unique"
proof
  fix jobs job jid jobs' pub res
  show "the_job_with_key (j_tenant_id (default_tenant job)) (j_idempotency_key job) jid jobs'"
    if "keys_unique jobs" "j_idempotency_key job \<noteq> ''''" "Enqueue svc c1 c2 c3 t t' random job jobs = (Inr jid, jobs', pub)"
    using Enqueue_the_job [OF that(3,2,1)] assms by blast
  show "keys_unique jobs'" if "keys_unique jobs" "Enqueue svc c1 c2 c3 t t' random job jobs = (res, jobs', pub)"
    using Enqueue_keys_unique [OF that(1), of c1 c2 c3 svc t t' random job] that(2) assms by auto
qed

interpretation alone: enqueuer "Enqueue svc (quiet t1) (quiet t2) (quiet t3) t t' random" keys_unique for svc t1 t2 t3 t t' random
  by (rule service_enqueuer) auto

section \<open>Firing\<close>

lemma aligned_pg_ts: "t mod minute = 0 \<Longrightarrow> pg_ts t = t"
proof -
  assume "t mod minute = 0"
  then have "minute dvd t" by (simp only: dvd_eq_mod_eq_0)
  moreover have "1000 dvd minute" by simp
  ultimately have "1000 dvd t" by (rule dvd_trans [rotated])
  then have "t mod 1000 = 0" by (simp only: dvd_eq_mod_eq_0)
  then show ?thesis by (simp add: pg_ts_eq)
qed

lemma nextAfter_later:
  assumes "nextAfter cron from now = (next, k)" "next \<noteq> zero_time" "zero_time < from"
  shows "pg_ts from < pg_ts next" "now < next" "matches cron next"
proof -
  have n: "Next cron from \<noteq> zero_time"
  proof
    assume "Next cron from = zero_time"
    with assms(1,2) show False by (simp add: nextAfter_def next_until.simps [of cron now zero_time])
  qed
  note F = Next_first_match [OF assms(3) n]
  from next_until_spec [OF assms(1) [unfolded nextAfter_def] assms(2,3) Next_greater [OF n]] F
  have A: "now < next \<and> from < next \<and> matches cron next" by blast
  then show "now < next" "matches cron next" by auto
  have "pg_ts next = next" using A by (intro aligned_pg_ts) (simp add: matches_def)
  then show "pg_ts from < pg_ts next" using A pg_ts_le [of "from"] by linarith
qed

lemma fire_cases:
  assumes "fire enq c sched now (jobs, scheds) = (out, jobs', scheds')"
  shows "(\<nexists>jid next k. out = Fired jid next k) \<and> scheds' = scheds \<or>
    (\<exists>next jid res. AdvanceSchedule c (s_id sched) (s_next_run_at sched) next jid scheds = (res, scheds') \<and>
      ((\<exists>jid next k. out = Fired jid next k) \<longleftrightarrow> res = Inr True))"
proof (cases "Parse (s_cron sched)")
  case (Inr cron)
  obtain "next" k where n: "nextAfter cron (s_next_run_at sched) now = (next, k)" by fastforce
  obtain r j p where e: "enq (fire_job sched) jobs = (r, j, p)" by (metis prod_cases3)
  show ?thesis
  proof (cases "next = zero_time \<or> isl r")
    case True
    then have "\<exists>e. out = No_occurrence \<and> scheds' = scheds \<or> out = Enqueue_failed e \<and> scheds' = scheds"
      using assms Inr n e by (cases "next = zero_time"; cases r) (auto simp: fire_def)
    then show ?thesis by auto
  next
    case False
    then obtain jid where r: "r = Inr jid" by (cases r) auto
    obtain res s where a: "AdvanceSchedule c (s_id sched) (s_next_run_at sched) next jid scheds = (res, s)" by fastforce
    have "s = scheds' \<and> ((\<exists>jid next k. out = Fired jid next k) \<longleftrightarrow> res = Inr True)"
      using assms Inr n e r a False by (cases res) (auto simp: fire_def split: if_splits)
    with a show ?thesis by blast
  qed
qed (use assms in \<open>auto simp: fire_def\<close>)

lemma fire_Fired:
  assumes "fire enq c sched now (jobs, scheds) = (Fired jid next k, jobs', scheds')"
  obtains cron pub where "Parse (s_cron sched) = Inr cron" "nextAfter cron (s_next_run_at sched) now = (next, k)"
    "next \<noteq> zero_time" "enq (fire_job sched) jobs = (Inr jid, jobs', pub)"
    "AdvanceSchedule c (s_id sched) (s_next_run_at sched) next jid scheds = (Inr True, scheds')"
  using assms by (auto simp: fire_def Let_def split: sum.splits prod.splits if_splits)

lemma fire_refused_when_passed:
  assumes "fire enq c sched now (jobs, scheds) = (out, jobs', scheds')" "io c = Done"
    "passed (s_id sched) (pg_ts (s_next_run_at sched)) (rely c scheds, used)"
  shows "(\<nexists>jid next k. out = Fired jid next k) \<and> (scheds' = scheds \<or> scheds' = rely c scheds)"
proof -
  have "\<not> b \<and> s = rely c scheds"
    if "AdvanceSchedule c (s_id sched) (s_next_run_at sched) next jid scheds = (Inr b, s)" for "next" jid b s
    by (rule advance_refused_when_passed [OF assms(3) that])
  moreover have "\<exists>b s. AdvanceSchedule c (s_id sched) (s_next_run_at sched) next jid scheds = (Inr b, s)" for "next" jid
    using assms(2) by (auto simp: AdvanceSchedule_def exec_def Let_def split: prod.splits)
  ultimately show ?thesis using fire_cases [OF assms(1)] by (metis sum.sel(2) sum.distinct(1) prod.inject)
qed


lemma Parse_every_minute: "Parse ''* * * * *'' = Inr every_minute"
proof -
  have "Go_Strings.fields ''* * * * *'' = [''*'', ''*'', ''*'', ''*'', ''*'']" by (simp add: fields_eval)
  moreover have "parseField ''*'' lo hi = Inr (replicate (nat (hi - lo + 1)) True)" for lo hi
    by (simp add: parse_eval map_replicate_const)
  ultimately show ?thesis unfolding Parse_def every_minute_def by simp
qed

lemma example_fires:
  "\<exists>jid jobs. fire (Enqueue (NewJobService server_retry_config ''jobs'' 0) (quiet 5) (quiet 6) (quiet 7) 5 6 (Some (replicate 16 0))) (quiet 8)
     example_schedule (70 * second) ([], [example_schedule_row]) =
     (Fired jid (2 * minute) 0, jobs, [advance_set 8 (2 * minute) jid example_schedule_row])"
proof -
  have "nextAfter every_minute minute (70 * second) = (2 * minute, 0)"
    by (simp add: nextAfter_def Next_every_minute Truncate_minute_def next_until.simps [of every_minute 70000000000 120000000000]
        zero_time_def)
  moreover have "AdvanceSchedule (quiet 8) ''s'' minute (2 * minute) jid [example_schedule_row] =
      (Inr True, [advance_set 8 (2 * minute) jid example_schedule_row])" for jid
    by (simp add: AdvanceSchedule_def sql_update_def advance_where_def pg_ts_def)
  moreover have "\<exists>jid jobs pub. Enqueue (NewJobService server_retry_config ''jobs'' 0) (quiet 5) (quiet 6) (quiet 7) 5 6
      (Some (replicate 16 0)) (fire_job example_schedule) [] = (Inr jid, jobs, pub)"
    by (simp add: Enqueue_def default_tenant_def create_def persist_def CreateJob_def insert_job_def normalise_def
        newJobID_def GetJobByIdempotencyKey_def select_one_def fire_job_def example_schedule_def zero_schedule_def
        zero_job_def zero_task_def row_of_job_def int4_def NewJobService_def
        server_retry_config_def DefaultMaxAttempts_def Let_def)
  moreover have "s_id example_schedule = ''s''" "s_next_run_at example_schedule = minute" "s_cron example_schedule = ''* * * * *''"
    by (simp_all add: example_schedule_def)
  ultimately show ?thesis
    by (auto simp: fire_def Parse_every_minute zero_time_def)
qed


text \<open>
  The key of a fire names one schedule and one instant: fires of different schedules, or of
  instants a second or more apart, never share an idempotency key, whatever the ids contain, so
  idempotency never swallows a fire that has not happened.
\<close>

lemma fire_keys_distinct:
  "j_idempotency_key (fire_job a) = j_idempotency_key (fire_job b) \<longleftrightarrow>
     s_id a = s_id b \<and> s_next_run_at a div second = s_next_run_at b div second"
  by (simp add: fire_job_def fire_key_inj)

lemma fire_all_ids:
  "(\<And>k. \<not> fe_cancelled (env k)) \<Longrightarrow> map fst (fst (fire_all env i due now st)) = map s_id due"
  by (induction env i due now st rule: fire_all.induct) (auto split: prod.splits)

text \<open>
  One pass of the scheduler fires the schedules that are due, each at most once, oldest first and
  at most its budget of them; so with no more due than the budget it misses none, and otherwise the
  ones it leaves are due no earlier than the ones it fires. The budget is positive whatever is
  configured.
\<close>

lemma dispatch_fires_due:
  assumes "dispatch (New_scheduler cfg) (quiet t) env now (jobs, scheds) = (outs, st')" "\<And>i. \<not> fe_cancelled (env i)"
    and "distinct (map sr_id scheds)"
  shows "distinct (map fst outs) \<and> 0 < FireBudget (New_scheduler cfg) \<and>
    length outs = min (nat (FireBudget (New_scheduler cfg))) (card {r \<in> set scheds. due_where now r}) \<and>
    (\<exists>fired \<subseteq> {r \<in> set scheds. due_where now r}. set (map fst outs) = sr_id ` fired \<and>
      (\<forall>r\<in>fired. \<forall>x\<in>{r \<in> set scheds. due_where now r} - fired. sr_next_run_at r \<le> sr_next_run_at x))"
proof -
  let ?n = "nat (FireBudget (New_scheduler cfg))"
  let ?due = "order_limit sr_next_run_at ?n (filter (due_where now) scheds)"
  have b: "0 < FireBudget (New_scheduler cfg)" by (simp add: New_scheduler_def)
  then have outs: "map fst outs = map sr_id ?due"
    using assms(1) fire_all_ids [of env 0 "map scanSchedule ?due" now "(jobs, scheds)"] assms(2)
    by (simp add: dispatch_def DueSchedules_def scanSchedule_def o_def)
  have dist: "distinct scheds" using assms(3) by (simp add: distinct_map)
  have "distinct ?due" using dist by (simp add: order_limit_def)
  then have "length ?due = card (set ?due)" by (simp only: distinct_card)
  then have len: "length outs = min ?n (card {r \<in> set scheds. due_where now r})"
    using order_limit_batch(2) [OF dist, of sr_next_run_at ?n "due_where now"] arg_cong [OF outs, of length] by simp
  have d: "distinct (map fst outs)" unfolding outs
    by (rule order_limit_distinct) (simp add: distinct_map_filter_by assms(3))
  have "\<forall>r\<in>set ?due. \<forall>x\<in>{r \<in> set scheds. due_where now r} - set ?due. sr_next_run_at r \<le> sr_next_run_at x"
    using order_limit_least [of _ sr_next_run_at ?n "filter (due_where now) scheds"] by fastforce
  with order_limit_batch(1) [OF dist, of sr_next_run_at ?n "due_where now"] outs b len d show ?thesis
    by (intro conjI exI [of _ "set ?due"]) simp_all
qed

lemma dispatch_fires_due_witness:
  "\<exists>outs st'. dispatch (New_scheduler \<lparr>TickInterval = 0, FireBudget = 0\<rparr>) (quiet 5)
     (\<lambda>i. \<lparr>fe_cancelled = False, fe_enqueue = Enqueue (NewJobService server_retry_config ''jobs'' 0) (quiet 5) (quiet 6) (quiet 7) 5 6 None,
       fe_advance = quiet 8\<rparr>) (70 * second) ([], [example_schedule_row]) = (outs, st') \<and> length outs = 1"
proof -
  let ?env = "\<lambda>i :: nat. \<lparr>fe_cancelled = False, fe_enqueue = Enqueue (NewJobService server_retry_config ''jobs'' 0)
    (quiet 5) (quiet 6) (quiet 7) 5 6 None, fe_advance = quiet 8\<rparr>"
  obtain outs st' where e: "dispatch (New_scheduler \<lparr>TickInterval = 0, FireBudget = 0\<rparr>) (quiet 5) ?env (70 * second)
      ([], [example_schedule_row]) = (outs, st')" by (metis surj_pair)
  have "due_where (70 * second) example_schedule_row" by (simp add: due_where_def pg_ts_def)
  then have "{r \<in> set [example_schedule_row]. due_where (70 * second) r} = {example_schedule_row}" by auto
  with dispatch_fires_due [OF e] have "length outs = 1" by (simp add: New_scheduler_def)
  with e show ?thesis by blast
qed

section \<open>A schedule that never fires\<close>

lemma nextAfter_none: "Next cron from = zero_time \<Longrightarrow> nextAfter cron from now = (zero_time, 0)"
  by (simp add: nextAfter_def next_until.simps [of cron now zero_time])

text \<open>
  C39. A schedule for 29 February never fires. The API accepts the expression and computes a first
  instant; but when that instant comes, the next one lies 1461 days ahead and \<open>Next\<close> looks 1460 days
  ahead, so \<^verbatim>\<open>fire\<close> gives up before it enqueues. Nothing changes, and the schedule stays due: the next
  poll returns it again, ahead of everything that became due after it.
\<close>

theorem leap_day_never_fires:
  assumes "s_cron sched = ''0 0 29 2 *''" "matches leap_day_cron (s_next_run_at sched)" "zero_time < s_next_run_at sched"
  shows "fire enq c sched now st = (No_occurrence, st)"
proof -
  have "nextAfter leap_day_cron (s_next_run_at sched) now = (zero_time, 0)"
    by (rule nextAfter_none [OF leap_day_no_next [OF assms(2,3)]])
  then show ?thesis by (cases st) (simp add: fire_def assms(1) Parse_leap_day)
qed

lemma leap_day_2028: "matches leap_day_cron 1835395200000000000"
proof -
  have d: "day_of 1835395200000000000 = days_before_year 2028 + days_before_month (leap 2028) 2 + 29 - 1"
    by (simp add: day_of_def days_before_year_def days_before_month_def leap_def)
  from day_position_unique [of 2 29 2028] d
  have "Year 1835395200000000000 = 2028" "Month 1835395200000000000 = 2" "Day 1835395200000000000 = 29"
    by (simp_all add: Year_def Month_def Day_def month_len_def leap_def)
  then show ?thesis
    using field_ranges(3) [of 1835395200000000000]
    by (simp add: matches_def leap_day_cron_def Hour_def Minute_def nth_replicate nat_less_iff)
qed

theorem leap_day_never_fires_witness:
  "fire (Enqueue (NewJobService server_retry_config ''jobs'' 0) (quiet 5) (quiet 6) (quiet 7) 5 6 None) (quiet 8) (zero_schedule\<lparr>s_cron := ''0 0 29 2 *'', s_next_run_at := 1835395200000000000\<rparr>) 1835395200000000000 ([], [])
     = (No_occurrence, [], [])"
  by (rule leap_day_never_fires) (simp_all add: leap_day_2028 zero_time_def)

end
