(* ===== verification/Base64.thy ===== *)
theory Base64
  imports Go_Strings
begin

text \<open>
  \<^verbatim>\<open>base64.RawURLEncoding\<close> of Go's library, which the program uses for page cursors and API keys: the
  URL alphabet, no padding. Decoding skips line breaks and ignores the unused bits of the last
  character, as Go's decoder does. Shown here: decoding inverts encoding, for every byte string.
\<close>

definition url_alphabet :: string where
  "url_alphabet = ''ABCDEFGHIJKLMNOPQRSTUVWXYZabcdefghijklmnopqrstuvwxyz0123456789-_''"

fun to_sextets :: "nat list \<Rightarrow> nat list" where
  "to_sextets [] = []"
| "to_sextets [a] = [a div 4, a mod 4 * 16]"
| "to_sextets [a, b] = [a div 4, a mod 4 * 16 + b div 16, b mod 16 * 4]"
| "to_sextets (a # b # c # rest) =
     [a div 4, a mod 4 * 16 + b div 16, b mod 16 * 4 + c div 64, c mod 64] @ to_sextets rest"

fun from_sextets :: "nat list \<Rightarrow> nat list option" where
  "from_sextets [] = Some []"
| "from_sextets [w] = None"
| "from_sextets [w, x] = Some [w * 4 + x div 16]"
| "from_sextets [w, x, y] = Some [w * 4 + x div 16, x mod 16 * 16 + y div 4]"
| "from_sextets (w # x # y # z # rest) =
     (case from_sextets rest of None \<Rightarrow> None
      | Some bs \<Rightarrow> Some ([w * 4 + x div 16, x mod 16 * 16 + y div 4, y mod 4 * 64 + z] @ bs))"

definition sextet_of :: "char \<Rightarrow> nat option" where
  "sextet_of c = (let i = length (takeWhile (\<lambda>x. x \<noteq> c) url_alphabet) in if i < 64 then Some i else None)"

definition base64_encode :: "string \<Rightarrow> string" where
  "base64_encode s = map (\<lambda>i. url_alphabet ! i) (to_sextets (map of_char s))"

definition base64_decode :: "string \<Rightarrow> string option" where
  "base64_decode s =
     (let cs = filter (\<lambda>c. c \<noteq> char_of (10 :: nat) \<and> c \<noteq> char_of (13 :: nat)) s in
      if \<exists>c\<in>set cs. sextet_of c = None then None
      else map_option (map char_of) (from_sextets (map (\<lambda>c. the (sextet_of c)) cs)))"

lemma sextets_small: "(\<forall>b\<in>set bs. b < 256) \<Longrightarrow> i \<in> set (to_sextets bs) \<Longrightarrow> i < 64"
  by (induction bs rule: to_sextets.induct) auto

lemma from_to_sextets: "(\<forall>b\<in>set bs. b < 256) \<Longrightarrow> from_sextets (to_sextets bs) = Some bs"
proof (induction bs rule: to_sextets.induct)
  case (3 a b)
  then have "b div 16 < 16" by auto
  then show ?case using mult_div_mod_eq [of 16 b] by simp
next
  case (4 a b c rest)
  then have "b div 16 < 16" "c div 64 < 4" by auto
  then show ?case using 4 mult_div_mod_eq [of 16 b] mult_div_mod_eq [of 64 c] by simp
qed simp_all

lemma takeWhile_nth: "distinct xs \<Longrightarrow> i < length xs \<Longrightarrow> takeWhile (\<lambda>x. x \<noteq> xs ! i) xs = take i xs"
proof (induction xs arbitrary: i)
  case (Cons x xs)
  then show ?case by (cases i) auto
qed simp

lemma url_alphabet_facts: "distinct url_alphabet" "length url_alphabet = 64"
  "char_of (10 :: nat) \<notin> set url_alphabet" "char_of (13 :: nat) \<notin> set url_alphabet"
  by (simp_all add: url_alphabet_def char_of_def)

lemma sextet_of_nth: "i < 64 \<Longrightarrow> sextet_of (url_alphabet ! i) = Some i"
  using takeWhile_nth [OF url_alphabet_facts(1), of i] by (simp add: sextet_of_def url_alphabet_facts(2))

lemma base64_roundtrip: "base64_decode (base64_encode s) = Some s"
proof -
  let ?bs = "map (of_char :: char \<Rightarrow> nat) s"
  have small: "\<forall>b\<in>set ?bs. b < 256" by auto
  have in_alpha: "url_alphabet ! i \<in> set url_alphabet" if "i < 64" for i
    using that url_alphabet_facts(2) by (intro nth_mem) simp
  have keep: "filter (\<lambda>c. c \<noteq> char_of (10 :: nat) \<and> c \<noteq> char_of (13 :: nat)) (base64_encode s) = base64_encode s"
    unfolding base64_encode_def filter_id_conv
    using sextets_small [OF small] in_alpha url_alphabet_facts(3,4) by (metis (no_types, lifting) imageE list.set_map)
  have dec: "\<forall>c\<in>set (base64_encode s). sextet_of c \<noteq> None"
    using sextets_small [OF small] sextet_of_nth by (auto simp: base64_encode_def)
  have "map (\<lambda>c. the (sextet_of c)) (base64_encode s) = to_sextets ?bs"
    unfolding base64_encode_def map_map using sextets_small [OF small] sextet_of_nth by (intro map_idI) auto
  then have "base64_decode (base64_encode s) = map_option (map char_of) (Some ?bs)"
    using dec from_to_sextets [OF small] by (auto simp: base64_decode_def keep Let_def)
  then show ?thesis by (simp add: o_def)
qed

lemma base64_encode_nonempty: "s \<noteq> [] \<Longrightarrow> base64_encode s \<noteq> []"
proof
  assume "s \<noteq> []" "base64_encode s = []"
  then have "base64_decode (base64_encode s) = Some []" by (simp add: base64_decode_def)
  with \<open>s \<noteq> []\<close> show False by (simp add: base64_roundtrip)
qed

end
