(* ===== verification/Key_Store.thy ===== *)
theory Key_Store
  imports Schedule_Store Base64 "HOL-Library.Char_ord"
begin

text \<open>
  \<^verbatim>\<open>internal/store/keys.go\<close>: issued API keys. The table holds the SHA-256 of a key and never the key;
  \<^verbatim>\<open>crypto/sha256\<close> is modelled as FIPS 180-4 defines it.

  Shown here: an issued key acts for its tenant, and only for that one, from the moment it is created
  until it is revoked, and never after.
\<close>

unbundle bit_operations_syntax

section \<open>SHA-256\<close>

type_synonym w32 = "32 word"

definition sha_k :: "w32 list" where
  "sha_k =
    [0x428a2f98, 0x71374491, 0xb5c0fbcf, 0xe9b5dba5, 0x3956c25b, 0x59f111f1, 0x923f82a4, 0xab1c5ed5,
     0xd807aa98, 0x12835b01, 0x243185be, 0x550c7dc3, 0x72be5d74, 0x80deb1fe, 0x9bdc06a7, 0xc19bf174,
     0xe49b69c1, 0xefbe4786, 0x0fc19dc6, 0x240ca1cc, 0x2de92c6f, 0x4a7484aa, 0x5cb0a9dc, 0x76f988da,
     0x983e5152, 0xa831c66d, 0xb00327c8, 0xbf597fc7, 0xc6e00bf3, 0xd5a79147, 0x06ca6351, 0x14292967,
     0x27b70a85, 0x2e1b2138, 0x4d2c6dfc, 0x53380d13, 0x650a7354, 0x766a0abb, 0x81c2c92e, 0x92722c85,
     0xa2bfe8a1, 0xa81a664b, 0xc24b8b70, 0xc76c51a3, 0xd192e819, 0xd6990624, 0xf40e3585, 0x106aa070,
     0x19a4c116, 0x1e376c08, 0x2748774c, 0x34b0bcb5, 0x391c0cb3, 0x4ed8aa4a, 0x5b9cca4f, 0x682e6ff3,
     0x748f82ee, 0x78a5636f, 0x84c87814, 0x8cc70208, 0x90befffa, 0xa4506ceb, 0xbef9a3f7, 0xc67178f2]"

definition sha_init :: "w32 list" where
  "sha_init =
    [0x6a09e667, 0xbb67ae85, 0x3c6ef372, 0xa54ff53a, 0x510e527f, 0x9b05688c, 0x1f83d9ab, 0x5be0cd19]"

definition rotr32 :: "nat \<Rightarrow> w32 \<Rightarrow> w32" where
  "rotr32 n x = drop_bit n x OR push_bit (32 - n) x"

definition small_sigma0 :: "w32 \<Rightarrow> w32" where
  "small_sigma0 x = rotr32 7 x XOR rotr32 18 x XOR drop_bit 3 x"

definition small_sigma1 :: "w32 \<Rightarrow> w32" where
  "small_sigma1 x = rotr32 17 x XOR rotr32 19 x XOR drop_bit 10 x"

definition big_sigma0 :: "w32 \<Rightarrow> w32" where
  "big_sigma0 x = rotr32 2 x XOR rotr32 13 x XOR rotr32 22 x"

definition big_sigma1 :: "w32 \<Rightarrow> w32" where
  "big_sigma1 x = rotr32 6 x XOR rotr32 11 x XOR rotr32 25 x"

definition sha_expand :: "w32 list \<Rightarrow> w32 list" where
  "sha_expand block = foldl (\<lambda>w t. w @ [small_sigma1 (w ! (t - 2)) + w ! (t - 7) + small_sigma0 (w ! (t - 15)) + w ! (t - 16)])
     block [16..<64]"

fun sha_round :: "w32 list \<Rightarrow> w32 \<times> w32 \<Rightarrow> w32 list" where
  "sha_round [a, b, c, d, e, f, g, h] (k, w) =
     (let t1 = h + big_sigma1 e + ((e AND f) XOR (NOT e AND g)) + k + w;
          t2 = big_sigma0 a + ((a AND b) XOR (a AND c) XOR (b AND c))
      in [t1 + t2, a, b, c, d + t1, e, f, g])"
| "sha_round s kw = s"

definition sha_compress :: "w32 list \<Rightarrow> w32 list \<Rightarrow> w32 list" where
  "sha_compress st block = map2 (+) st (foldl sha_round st (zip sha_k (sha_expand block)))"

definition be_word :: "byte list \<Rightarrow> w32" where
  "be_word bs = foldl (\<lambda>acc b. push_bit 8 acc OR ucast b) 0 bs"

definition be_bytes :: "w32 \<Rightarrow> byte list" where
  "be_bytes w = [ucast (drop_bit 24 w), ucast (drop_bit 16 w), ucast (drop_bit 8 w), ucast w]"

definition sha_pad :: "byte list \<Rightarrow> byte list" where
  "sha_pad msg =
     (let n = length msg; bits = 8 * n in
      msg @ [0x80] @ replicate ((119 - n mod 64) mod 64) 0 @
      map (\<lambda>i. of_nat (bits div 2 ^ (8 * i))) (rev [0..<8]))"

definition chunk :: "nat \<Rightarrow> 'a list \<Rightarrow> 'a list list" where
  "chunk n xs = map (\<lambda>i. take n (drop (i * n) xs)) [0..<length xs div n]"

definition sha256 :: "byte list \<Rightarrow> byte list" where
  "sha256 msg = concat (map be_bytes
     (foldl (\<lambda>st block. sha_compress st (map be_word (chunk 4 block))) sha_init (chunk 64 (sha_pad msg))))"

definition bytes_of :: "string \<Rightarrow> byte list" where
  "bytes_of s = map (\<lambda>c. of_nat (of_char c)) s"

definition string_of_bytes :: "byte list \<Rightarrow> string" where
  "string_of_bytes bs = map (\<lambda>b. char_of (unat b)) bs"

section \<open>The keys table\<close>

record api_key =
  k_id :: string
  k_tenant_id :: string
  k_name :: string
  k_created_at :: time
  k_revoked_at :: "time option"

record key_row = api_key +
  k_hash :: "byte list"

type_synonym keys = "key_row list"

definition hashKey :: "string \<Rightarrow> byte list" where
  "hashKey key = sha256 (bytes_of key)"

text \<open>The pattern \<^verbatim>\<open>^[a-z0-9_-]{1,64}$\<close>.\<close>

definition tenantPattern :: "string \<Rightarrow> bool" where
  "tenantPattern s \<longleftrightarrow> 1 \<le> length s \<and> length s \<le> 64 \<and>
     list_all (\<lambda>c. CHR ''a'' \<le> c \<and> c \<le> CHR ''z'' \<or> is_digit c \<or> c = CHR ''_'' \<or> c = CHR ''-'') s"

definition live :: "key_row \<Rightarrow> bool" where
  "live r \<longleftrightarrow> k_revoked_at r = None"

definition insert_key :: "key_row \<Rightarrow> keys \<Rightarrow> (err + unit) \<times> keys" where
  "insert_key r rows =
     (if list_ex (\<lambda>x. k_id x = k_id r) rows then (Inl (PgError ''23505'' ''api_keys_pkey''), rows)
      else if list_ex (\<lambda>x. k_hash x = k_hash r) rows then (Inl (PgError ''23505'' ''api_keys_key_hash_key''), rows)
      else (Inr (), rows @ [r]))"

definition CreateKey :: "keys call \<Rightarrow> byte list option \<Rightarrow> byte list option \<Rightarrow> string \<Rightarrow> string \<Rightarrow> keys \<Rightarrow>
    (err + string \<times> string) \<times> keys" where
  "CreateKey c random1 random2 tenant name rows =
     (if \<not> tenantPattern tenant then (Inl (Sentinel ErrInvalidTenant), rows)
      else case newID random1 of
        Inl e \<Rightarrow> (Inl e, rows)
      | Inr i \<Rightarrow>
          (case random2 of
             None \<Rightarrow> (Inl (Errorf ''rand.Read'' []), rows)
           | Some raw \<Rightarrow>
               let key = ''ck_'' @ base64_encode (string_of_bytes raw) in
               (case exec c (insert_key \<lparr>k_id = i, k_tenant_id = tenant, k_name = name, k_created_at = pg_ts (pgnow c),
                       k_revoked_at = None, k_hash = hashKey key\<rparr>) rows of
                  (Inl e, s) \<Rightarrow> (Inl e, s)
                | (Inr u, s) \<Rightarrow> (Inr (i, key), s))))"

definition ListKeys :: "keys call \<Rightarrow> keys \<Rightarrow> (err + api_key list) \<times> keys" where
  "ListKeys c rows = exec c (\<lambda>s. (Inr (map api_key.truncate (sort_key k_created_at s)), s)) rows"

definition RevokeKey :: "keys call \<Rightarrow> string \<Rightarrow> keys \<Rightarrow> (err + unit) \<times> keys" where
  "RevokeKey c i rows =
     exec c (\<lambda>s. let (n, s') = sql_update (\<lambda>r. k_id r = i \<and> live r) (\<lambda>r. r\<lparr>k_revoked_at := Some (pg_ts (pgnow c))\<rparr>) s
                 in (if n = 0 then Inl (Sentinel ErrKeyNotFound) else Inr (), s')) rows"

definition TenantForKey :: "keys call \<Rightarrow> string \<Rightarrow> keys \<Rightarrow> (err + string) \<times> keys" where
  "TenantForKey c key rows =
     (case exec c (\<lambda>s. (case find (\<lambda>r. k_hash r = hashKey key \<and> live r) s of
             None \<Rightarrow> Inl (Sentinel ErrKeyNotFound) | Some r \<Rightarrow> Inr (k_tenant_id r), s)) rows of
        (Inl e, s) \<Rightarrow> (Inl (if errors_is e ErrKeyNotFound then e else Errorf ''store: look up api key'' [e]), s)
      | (Inr t, s) \<Rightarrow> (Inr t, s))"

definition HasActiveKeys :: "keys call \<Rightarrow> keys \<Rightarrow> (err + bool) \<times> keys" where
  "HasActiveKeys c rows = exec c (\<lambda>s. (Inr (list_ex live s), s)) rows"

interpretation upd_revoke: keyed_update k_id "\<lambda>r :: key_row. r\<lparr>k_revoked_at := t\<rparr>" for t
  by unfold_locales simp

interpretation upd_revoke_hash: keyed_update k_hash "\<lambda>r :: key_row. r\<lparr>k_revoked_at := t\<rparr>" for t
  by unfold_locales simp

section \<open>What a key is good for\<close>

text \<open>The keys table under the statements of any number of processes.\<close>

inductive key_step :: "keys \<Rightarrow> keys \<Rightarrow> bool" where
  issue: "k_revoked_at r = None \<Longrightarrow> key_step rows (snd (insert_key r rows))"
| revoke: "key_step rows (snd (sql_update (\<lambda>r. k_id r = i \<and> live r) (\<lambda>r. r\<lparr>k_revoked_at := Some t\<rparr>) rows))"

abbreviation key_run :: "keys \<Rightarrow> keys \<Rightarrow> bool" where
  "key_run \<equiv> key_step\<^sup>*\<^sup>*"

definition key_inv :: "keys \<Rightarrow> bool" where
  "key_inv rows \<longleftrightarrow> distinct (map k_id rows) \<and> distinct (map k_hash rows)"

lemma insert_key_state:
  "snd (insert_key r rows) = rows \<or>
   snd (insert_key r rows) = rows @ [r] \<and> (\<forall>x\<in>set rows. k_id x \<noteq> k_id r \<and> k_hash x \<noteq> k_hash r)"
  by (auto simp: insert_key_def list_ex_iff)

lemma key_step_inv: "key_step rows rows' \<Longrightarrow> key_inv rows \<Longrightarrow> key_inv rows'"
proof (induction rule: key_step.induct)
  case (issue r rows)
  with insert_key_state [of r rows] show ?case by (auto simp: key_inv_def) (metis imageE)+
next
  case (revoke rows i t)
  then show ?case by (simp add: key_inv_def upd_revoke.map_pk_update upd_revoke_hash.map_pk_update)
qed

text \<open>A row of the table, up to its revocation: a live row stays or is revoked, a revoked one stays.\<close>

definition same_key_row :: "key_row \<Rightarrow> key_row \<Rightarrow> bool" where
  "same_key_row a b \<longleftrightarrow> k_id a = k_id b \<and> k_tenant_id a = k_tenant_id b \<and> k_hash a = k_hash b \<and> (live b \<longrightarrow> live a)"

lemma key_step_row: "key_step rows rows' \<Longrightarrow> r \<in> set rows \<Longrightarrow> \<exists>r'\<in>set rows'. same_key_row r r'"
proof (induction rule: key_step.induct)
  case (issue x rows)
  with insert_key_state [of x rows] show ?case by (auto simp: same_key_row_def)
next
  case (revoke rows i t)
  let ?f = "\<lambda>r. if k_id r = i \<and> live r then r\<lparr>k_revoked_at := Some t\<rparr> else r"
  have "?f r \<in> set (snd (sql_update (\<lambda>r. k_id r = i \<and> live r) (\<lambda>r. r\<lparr>k_revoked_at := Some t\<rparr>) rows))"
    unfolding in_set_sql_update using revoke by (intro bexI [of _ r]) simp_all
  then show ?case by (rule bexI [rotated]) (simp add: same_key_row_def live_def)
qed

lemma key_run_row: "key_run rows rows' \<Longrightarrow> r \<in> set rows \<Longrightarrow> \<exists>r'\<in>set rows'. same_key_row r r'"
proof (induction rule: rtranclp_induct)
  case base
  then show ?case by (auto simp: same_key_row_def)
next
  case (step y z)
  then obtain x where "x \<in> set y" "same_key_row r x" by auto
  with key_step_row [OF step(2)] show ?case by (fastforce simp: same_key_row_def)
qed

lemma key_run_inv: "key_run rows rows' \<Longrightarrow> key_inv rows \<Longrightarrow> key_inv rows'"
  by (induction rule: rtranclp_induct) (auto intro: key_step_inv)

lemma find_key:
  assumes "key_inv rows" "r \<in> set rows" "k_hash r = h"
  shows "find (\<lambda>x. k_hash x = h \<and> live x) rows = (if live r then Some r else None)"
proof -
  have u: "x = r" if "x \<in> set rows" "k_hash x = h" for x
    using distinct_map_inj [of k_hash rows x r] assms that by (simp add: key_inv_def)
  show ?thesis
  proof (cases "find (\<lambda>x. k_hash x = h \<and> live x) rows")
    case None
    with assms(2,3) show ?thesis by (auto simp: find_None_ball)
  next
    case (Some x)
    with find_SomeD [OF Some] u show ?thesis by auto
  qed
qed

lemma CreateKey_Inr:
  assumes "CreateKey c random1 random2 tenant name rows = (Inr (i, key), rows')"
  shows "tenantPattern tenant \<and> (\<exists>r. rows' = rely c rows @ [r] \<and> k_id r = i \<and> k_tenant_id r = tenant \<and> k_hash r = hashKey key \<and> live r \<and>
    (\<forall>x\<in>set (rely c rows). k_id x \<noteq> i \<and> k_hash x \<noteq> hashKey key))"
proof -
  from assms obtain r where t: "tenantPattern tenant" and e: "exec c (insert_key r) rows = (Inr (), rows')"
    and r: "k_id r = i" "k_tenant_id r = tenant" "k_hash r = hashKey key" "live r"
    by (auto simp: CreateKey_def live_def Let_def split: if_splits sum.splits option.splits prod.splits)
  from exec_Inr [OF e] r have "rows' = rely c rows @ [r]" "\<forall>x\<in>set (rely c rows). k_id x \<noteq> i \<and> k_hash x \<noteq> hashKey key"
    by (auto simp: insert_key_def list_ex_iff split: if_splits)
  with t r show ?thesis by blast
qed

text \<open>
  C25. An issued key acts for its tenant until it is revoked. Whatever other processes issue and revoke in
  between, a lookup of a key returns the tenant it was created for as long as its row is live, and
  reports that there is no such key once the row has been revoked, for good: nothing makes a
  revoked key live again. The tenant's name is well formed.
\<close>

lemma key_acts_for_tenant:
  assumes "CreateKey c random1 random2 tenant name rows = (Inr (i, key), rows1)" "key_inv (rely c rows)"
    and "key_run rows1 rows2"
  shows "tenantPattern tenant \<and>
    TenantForKey (quiet t) key rows2 =
      (if \<exists>r\<in>set rows2. k_id r = i \<and> live r then Inr tenant else Inl (Sentinel ErrKeyNotFound), rows2) \<and>
    (\<forall>rows3. RevokeKey (quiet t') i rows2 = (Inr (), rows3) \<longrightarrow> (\<forall>rows4. key_run rows3 rows4 \<longrightarrow>
       TenantForKey (quiet t'') key rows4 = (Inl (Sentinel ErrKeyNotFound), rows4)))"
proof -
  from CreateKey_Inr [OF assms(1)] obtain r where tp: "tenantPattern tenant" and r: "rows1 = rely c rows @ [r]" "k_id r = i"
    "k_tenant_id r = tenant" "k_hash r = hashKey key" and new: "\<forall>x\<in>set (rely c rows). k_id x \<noteq> i \<and> k_hash x \<noteq> hashKey key" by blast
  have "key_inv rows1" using assms(2) new r by (auto simp: key_inv_def)
  then have inv2: "key_inv rows2" by (rule key_run_inv [OF assms(3)])
  have "r \<in> set rows1" using r by simp
  from key_run_row [OF assms(3) this] r obtain r2 where
    r2: "r2 \<in> set rows2" "k_id r2 = i" "k_tenant_id r2 = tenant" "k_hash r2 = hashKey key" by (auto simp: same_key_row_def)
  have only: "x = r2" if "x \<in> set rows2" "k_id x = i" for x
    using distinct_map_inj [of k_id rows2 x r2] inv2 r2 that by (simp add: key_inv_def)
  have lookup: "TenantForKey (quiet u) key s = (if live x then Inr tenant else Inl (Sentinel ErrKeyNotFound), s)"
    if "key_inv s" "x \<in> set s" "k_tenant_id x = tenant" "k_hash x = hashKey key" for u s x
    using find_key [OF that(1,2,4)] that(3) by (simp add: TenantForKey_def)
  have "(\<exists>x\<in>set rows2. k_id x = i \<and> live x) \<longleftrightarrow> live r2" using only r2 by metis
  then have look2: "TenantForKey (quiet t) key rows2 =
      (if \<exists>x\<in>set rows2. k_id x = i \<and> live x then Inr tenant else Inl (Sentinel ErrKeyNotFound), rows2)"
    using lookup [OF inv2 r2(1,3,4)] by simp
  have "TenantForKey (quiet t'') key rows4 = (Inl (Sentinel ErrKeyNotFound), rows4)"
    if rev: "RevokeKey (quiet t') i rows2 = (Inr (), rows3)" and run: "key_run rows3 rows4" for rows3 rows4
  proof -
    have s3: "rows3 = snd (sql_update (\<lambda>x. k_id x = i \<and> live x) (\<lambda>x. x\<lparr>k_revoked_at := Some (pg_ts t')\<rparr>) rows2)"
      using rev by (auto simp: RevokeKey_def case_prod_beta Let_def split: if_splits)
    then have "key_step rows2 rows3" using key_step.revoke by simp
    then have inv3: "key_inv rows3" using key_step_inv inv2 by blast
    let ?x = "if live r2 then r2\<lparr>k_revoked_at := Some (pg_ts t')\<rparr> else r2"
    have x: "?x \<in> set rows3" using r2(1,2) unfolding s3 by (force simp: in_set_sql_update)
    have "\<not> live ?x" by (simp add: live_def)
    with key_run_row [OF run x] r2 obtain r4 where
      r4: "r4 \<in> set rows4" "k_tenant_id r4 = tenant" "k_hash r4 = hashKey key" "\<not> live r4"
      by (auto simp: same_key_row_def split: if_splits)
    show ?thesis using lookup [OF key_run_inv [OF run inv3] r4(1-3)] r4(4) by simp
  qed
  with tp look2 show ?thesis by blast
qed

lemma key_acts_for_tenant_witness:
  "\<exists>i key rows1 rows3. CreateKey (quiet 5) (Some (replicate 16 1)) (Some (replicate 32 7)) ''acme'' ''ci'' [] = (Inr (i, key), rows1) \<and>
     TenantForKey (quiet 6) key rows1 = (Inr ''acme'', rows1) \<and> RevokeKey (quiet 7) i rows1 = (Inr (), rows3) \<and>
     TenantForKey (quiet 8) key rows3 = (Inl (Sentinel ErrKeyNotFound), rows3)"
proof -
  have p: "tenantPattern ''acme''" by (simp add: tenantPattern_def less_eq_char_def)
  then obtain i key rows1 where c: "CreateKey (quiet 5) (Some (replicate 16 1)) (Some (replicate 32 7)) ''acme'' ''ci'' [] = (Inr (i, key), rows1)"
    by (auto simp: CreateKey_def newID_def insert_key_def Let_def)
  have v: "key_inv (rely (quiet 5) [])" by (simp add: key_inv_def)
  from CreateKey_Inr [OF c] obtain r where r: "rows1 = [r]" "k_id r = i" "live r" by auto
  then obtain rows3 where k: "RevokeKey (quiet 7) i rows1 = (Inr (), rows3)"
    by (auto simp: RevokeKey_def sql_update_def)
  have ex: "\<exists>r\<in>set rows1. k_id r = i \<and> live r" using r by simp
  from key_acts_for_tenant [OF c v, of rows1 6 7 8] ex have
    "TenantForKey (quiet 6) key rows1 = (Inr ''acme'', rows1)"
    "\<forall>rows3. RevokeKey (quiet 7) i rows1 = (Inr (), rows3) \<longrightarrow> (\<forall>rows4. key_run rows3 rows4 \<longrightarrow>
       TenantForKey (quiet 8) key rows4 = (Inl (Sentinel ErrKeyNotFound), rows4))" by (simp_all only: if_True rtranclp.rtrancl_refl) blast+
  moreover from this(2) k have "TenantForKey (quiet 8) key rows3 = (Inl (Sentinel ErrKeyNotFound), rows3)" by blast
  ultimately show ?thesis using c k by blast
qed

end
