(* ===== verification/Job_List.thy ===== *)
theory Job_List
  imports Job_Store Base64 "HOL-Library.List_Lexorder"
begin

text \<open>
  \<^verbatim>\<open>PostgresStore.ListJobs\<close>: the paged listing of jobs, newest first, with opaque keyset cursors. The
  order of ids is the database's collation, an argument; a deterministic collation, which is the
  default, tells different strings apart.

  Shown here: a cursor decodes to what it was made from, and a client that follows the cursors gets
  every matching job exactly once, in order.
\<close>

record list_filter =
  lf_tenant :: string
  lf_state :: job_state
  lf_limit :: int
  lf_cursor :: string

definition encodeCursor :: "time \<Rightarrow> string \<Rightarrow> string" where
  "encodeCursor t i = base64_encode (itoa (t div 1000) @ ''|'' @ i)"

definition decodeCursor :: "string \<Rightarrow> err + time \<times> string" where
  "decodeCursor c = (case base64_decode c of
     None \<Rightarrow> Inl (Errorf ''illegal base64 data'' [])
   | Some raw \<Rightarrow>
       (case split2 (CHR ''|'') raw of
          [us, i] \<Rightarrow>
            (case parse_int 64 us of
               None \<Rightarrow> Inl (Errorf ''strconv.ParseInt'' [])
             | Some micros \<Rightarrow> Inr (micros * 1000, i))
        | _ \<Rightarrow> Inl (Errorf ''malformed cursor'' [])))"

definition list_limit :: "int \<Rightarrow> nat" where
  "list_limit limit = (let l = (if limit \<le> 0 then 50 else limit) in nat (if 500 < l then 500 else l))"

definition list_where :: "list_filter \<Rightarrow> job_row \<Rightarrow> bool" where
  "list_where flt r \<longleftrightarrow> of_tenant (lf_tenant flt) r \<and> (lf_state flt = Unlisted '''' \<or> r_state r = lf_state flt)"

text \<open>\<^verbatim>\<open>ORDER BY created_at DESC, id DESC\<close>, and \<^verbatim>\<open>(created_at, id) < ($1, $2)\<close>.\<close>

definition list_key :: "(string \<Rightarrow> 'k::linorder) \<Rightarrow> job_row \<Rightarrow> time desc \<times> 'k desc" where
  "list_key coll r = (Desc (r_created_at r), Desc (coll (r_id r)))"

definition after_cursor :: "(string \<Rightarrow> 'k::linorder) \<Rightarrow> time \<Rightarrow> string \<Rightarrow> job_row \<Rightarrow> bool" where
  "after_cursor coll ts i r \<longleftrightarrow> r_created_at r < ts \<or> r_created_at r = ts \<and> coll (r_id r) < coll i"

definition list_page :: "(string \<Rightarrow> 'k::linorder) \<Rightarrow> nat \<Rightarrow> (job_row \<Rightarrow> bool) \<Rightarrow> jobs \<Rightarrow> (err + job list \<times> string) \<times> jobs" where
  "list_page coll limit p rows =
     (let jobs = map scanJob (order_limit (list_key coll) (limit + 1) (filter p rows)) in
      (Inr (if limit < length jobs
            then (take limit jobs, encodeCursor (j_created_at (jobs ! (limit - 1))) (j_id (jobs ! (limit - 1))))
            else (jobs, '''')), rows))"

definition ListJobs :: "(string \<Rightarrow> 'k::linorder) \<Rightarrow> jobs call \<Rightarrow> list_filter \<Rightarrow> jobs \<Rightarrow> (err + job list \<times> string) \<times> jobs" where
  "ListJobs coll c flt rows =
     (if lf_cursor flt = '''' then exec c (list_page coll (list_limit (lf_limit flt)) (list_where flt)) rows
      else (case decodeCursor (lf_cursor flt) of
          Inl e \<Rightarrow> (Inl (Errorf ''store: invalid cursor'' [e]), rows)
        | Inr (ts, i) \<Rightarrow>
            exec c (list_page coll (list_limit (lf_limit flt)) (\<lambda>r. list_where flt r \<and> after_cursor coll (pg_ts ts) i r)) rows))"

section \<open>Cursors\<close>

lemma itoa_no_bar: "CHR ''|'' \<notin> set (itoa n)"
  using set_itoa [of "CHR ''|''" n] by (auto simp: is_digit_def)

lemma cursor_roundtrip:
  assumes "us_aligned t" "min_int64 \<le> t div 1000" "t div 1000 \<le> max_int64"
  shows "decodeCursor (encodeCursor t i) = Inr (t, i)"
proof -
  have "parse_int 64 (itoa (t div 1000)) = Some (t div 1000)"
    using assms(2,3) by (intro parse_int_itoa) (simp_all add: min_int64_def max_int64_def)
  moreover have "split2 (CHR ''|'') (itoa (t div 1000) @ ''|'' @ i) = [itoa (t div 1000), i]"
    using split2_append [OF itoa_no_bar] by simp
  moreover have "t div 1000 * 1000 = t" using assms(1) by (metis pg_ts_aligned pg_ts_def)
  ultimately show ?thesis by (simp add: decodeCursor_def encodeCursor_def base64_roundtrip)
qed

lemma encodeCursor_nonempty [simp]: "encodeCursor t i \<noteq> ''''"
  by (simp add: encodeCursor_def base64_encode_nonempty)

section \<open>Following the cursors\<close>

text \<open>A client that asks for page after page until the cursor is empty.\<close>

fun follow :: "nat \<Rightarrow> (string \<Rightarrow> 'k::linorder) \<Rightarrow> time \<Rightarrow> list_filter \<Rightarrow> jobs \<Rightarrow> job list option" where
  "follow 0 coll t flt rows = None"
| "follow (Suc n) coll t flt rows =
     (case ListJobs coll (quiet t) flt rows of
        (Inl e, s) \<Rightarrow> None
      | (Inr (jobs, next), s) \<Rightarrow>
          if next = '''' then Some jobs
          else map_option (\<lambda>rest. jobs @ rest) (follow n coll t (flt\<lparr>lf_cursor := next\<rparr>) s))"

lemma list_limit_pos: "0 < list_limit n"
  by (simp add: list_limit_def Let_def)

lemma after_cursor_key:
  "after_cursor coll (r_created_at x) (r_id x) r \<longleftrightarrow> list_key coll x < list_key coll r"
  by (auto simp: after_cursor_def list_key_def less_prod_def')

lemma sort_key_drop:
  fixes k :: "'a \<Rightarrow> 'k::linorder"
  assumes "distinct (map k xs)" "n < length xs"
  shows "sort_key k (filter (\<lambda>x. k (sort_key k xs ! n) < k x) xs) = drop (Suc n) (sort_key k xs)"
proof -
  let ?s = "sort_key k xs"
  have d: "distinct (map k ?s)" using assms(1) by (metis distinct_map distinct_sort set_sort)
  have ss: "sorted (map k ?s)" by simp
  have lt: "k (?s ! i) < k (?s ! j) \<longleftrightarrow> i < j" if "i < length xs" "j < length xs" for i j
  proof -
    have "map k ?s ! i = map k ?s ! j \<longleftrightarrow> i = j" using that by (intro nth_eq_iff_index_eq [OF d]) simp_all
    moreover have "i \<le> j \<Longrightarrow> map k ?s ! i \<le> map k ?s ! j" "j \<le> i \<Longrightarrow> map k ?s ! j \<le> map k ?s ! i"
      using that sorted_nth_mono [OF ss, of i j] sorted_nth_mono [OF ss, of j i] by simp_all
    ultimately show ?thesis using that by (metis le_less length_map length_sort linorder_not_less nth_map)
  qed
  have "sort_key k (filter (\<lambda>x. k (?s ! n) < k x) xs) = filter (\<lambda>x. k (?s ! n) < k x) ?s" by (simp add: filter_sort)
  also have "\<dots> = filter (\<lambda>x. k (?s ! n) < k x) (take (Suc n) ?s) @ filter (\<lambda>x. k (?s ! n) < k x) (drop (Suc n) ?s)"
    by (simp flip: filter_append)
  also have "filter (\<lambda>x. k (?s ! n) < k x) (take (Suc n) ?s) = []"
    using assms(2) lt by (auto simp: filter_empty_conv in_set_conv_nth)
  also have "filter (\<lambda>x. k (?s ! n) < k x) (drop (Suc n) ?s) = drop (Suc n) ?s"
    using assms(2) lt by (auto simp: filter_id_conv in_set_conv_nth)
  finally show ?thesis by simp
qed

text \<open>A table as the database holds it: unique ids, instants in microseconds that fit 64 bits.\<close>

definition listable :: "jobs \<Rightarrow> bool" where
  "listable rows \<longleftrightarrow> distinct (map r_id rows) \<and>
     (\<forall>r\<in>set rows. us_aligned (r_created_at r) \<and> min_int64 \<le> r_created_at r div 1000 \<and> r_created_at r div 1000 \<le> max_int64)"

definition listing :: "(string \<Rightarrow> 'k::linorder) \<Rightarrow> list_filter \<Rightarrow> jobs \<Rightarrow> jobs" where
  "listing coll flt rows = sort_key (list_key coll) (filter (list_where flt) rows)"

lemma listing_cursor [simp]: "listing coll (flt\<lparr>lf_cursor := c\<rparr>) rows = listing coll flt rows"
proof -
  have "list_where (flt\<lparr>lf_cursor := c\<rparr>) = list_where flt" by (intro ext) (simp add: list_where_def)
  then show ?thesis by (simp add: listing_def)
qed

definition cursor_at :: "jobs \<Rightarrow> nat \<Rightarrow> string" where
  "cursor_at xs m = (if m = 0 then '''' else encodeCursor (r_created_at (xs ! (m - 1))) (r_id (xs ! (m - 1))))"

lemma page_from_cursor:
  assumes "listable rows" "inj coll" "xs = listing coll flt rows" "m \<le> length xs" "lf_cursor flt = cursor_at xs m"
  shows "ListJobs coll (quiet t) flt rows =
    (Inr (if list_limit (lf_limit flt) < length (drop m xs)
          then (map scanJob (take (list_limit (lf_limit flt)) (drop m xs)), cursor_at xs (m + list_limit (lf_limit flt)))
          else (map scanJob (drop m xs), '''')), rows)"
proof -
  let ?k = "list_key coll" and ?w = "list_where flt" and ?l = "list_limit (lf_limit flt)"
  have dk: "distinct (map ?k (filter ?w rows))"
    using assms(1,2) by (auto simp: listable_def distinct_map inj_on_def list_key_def)
  have l: "0 < ?l" by (rule list_limit_pos)
  have page: "list_page coll ?l p rows =
      (Inr (if ?l < length (drop m xs) then (map scanJob (take ?l (drop m xs)), cursor_at xs (m + ?l))
            else (map scanJob (drop m xs), '''')), rows)"
    if s: "sort_key ?k (filter p rows) = drop m xs" for p
  proof (cases "?l < length (drop m xs)")
    case True
    have "drop m xs ! (?l - 1) = xs ! (m + ?l - 1)" using l assms(4) by simp
    with True l s show ?thesis
      by (simp add: list_page_def order_limit_def Let_def take_map scanJob_def cursor_at_def min_def)
  next
    case False
    with s show ?thesis by (simp add: list_page_def order_limit_def Let_def take_map)
  qed
  show ?thesis
  proof (cases "m = 0")
    case True
    with assms(3,5) page [of ?w] show ?thesis by (simp add: ListJobs_def cursor_at_def listing_def)
  next
    case False
    let ?x = "xs ! (m - 1)"
    have "?x \<in> set xs" using False assms(4) by (intro nth_mem) simp
    then have x: "?x \<in> set rows" unfolding assms(3) listing_def by simp
    have dec: "decodeCursor (lf_cursor flt) = Inr (r_created_at ?x, r_id ?x)"
      using assms(1,5) x False by (simp add: cursor_at_def listable_def cursor_roundtrip)
    have ts: "pg_ts (r_created_at ?x) = r_created_at ?x" using assms(1) x by (simp add: listable_def pg_ts_aligned)
    have len: "length xs = length (filter ?w rows)" by (simp add: assms(3) listing_def)
    then have "sort_key ?k (filter (\<lambda>r. ?k ?x < ?k r) (filter ?w rows)) = drop (Suc (m - 1)) xs"
      unfolding assms(3) listing_def using False assms(4) len by (intro sort_key_drop [OF dk]) linarith
    then have "sort_key ?k (filter (\<lambda>r. ?w r \<and> after_cursor coll (r_created_at ?x) (r_id ?x) r) rows) = drop m xs"
      using False by (simp add: after_cursor_key filter_filter conj_commute)
    from page [OF this] dec ts False assms(5) show ?thesis
      by (simp add: ListJobs_def cursor_at_def)
  qed
qed

lemma follow_pages:
  assumes "listable rows" "inj coll" "xs = listing coll flt rows"
  shows "m \<le> length xs \<Longrightarrow> lf_cursor flt = cursor_at xs m \<Longrightarrow> length xs - m < n \<Longrightarrow>
    follow n coll t flt rows = Some (map scanJob (drop m xs))"
  using assms(3)
proof (induction n arbitrary: m flt)
  case (Suc n)
  let ?l = "list_limit (lf_limit flt)"
  note P = page_from_cursor [OF assms(1,2) Suc.prems(4,1,2), of t]
  show ?case
  proof (cases "?l < length (drop m xs)")
    case True
    let ?flt = "flt\<lparr>lf_cursor := cursor_at xs (m + ?l)\<rparr>"
    have l: "0 < ?l" by (rule list_limit_pos)
    have "follow n coll t ?flt rows = Some (map scanJob (drop (m + ?l) xs))"
      using Suc.prems True l by (intro Suc.IH) auto
    moreover have "cursor_at xs (m + ?l) \<noteq> ''''" using l by (simp add: cursor_at_def)
    moreover have "take ?l (drop m xs) @ drop (m + ?l) xs = drop m xs"
      using append_take_drop_id [of ?l "drop m xs"] by (simp add: add.commute)
    ultimately show ?thesis using P True by (simp flip: map_append)
  next
    case False
    with P show ?thesis by simp
  qed
qed simp

text \<open>
  C24. Paging through the list misses nothing and repeats nothing. A client that starts without a cursor
  and passes each page's cursor on until it gets an empty one receives all the jobs that match its
  tenant and state, newest first and by id within an instant, each exactly once, whatever page size
  it asks for, and is done after at most one page per matching job. The listing is over a table
  nobody changes in between.
\<close>

lemma paging_complete:
  assumes "listable rows" "inj coll" "lf_cursor flt = ''''"
  shows "follow (Suc (length rows)) coll t flt rows = Some (map scanJob (listing coll flt rows)) \<and>
    set (listing coll flt rows) = {r \<in> set rows. list_where flt r} \<and> distinct (listing coll flt rows) \<and>
    sorted (map (list_key coll) (listing coll flt rows))"
proof -
  have "length (listing coll flt rows) \<le> length rows" by (simp add: listing_def)
  then have "follow (Suc (length rows)) coll t flt rows = Some (map scanJob (drop 0 (listing coll flt rows)))"
    using assms(3) by (intro follow_pages [OF assms(1,2) refl]) (simp_all add: cursor_at_def)
  then show ?thesis using assms(1) by (simp add: listing_def listable_def distinct_map)
qed

lemma paging_complete_witness:
  "follow 3 (map (of_char :: char \<Rightarrow> nat)) 0 \<lparr>lf_tenant = '''', lf_state = Unlisted '''', lf_limit = 1, lf_cursor = ''''\<rparr>
     [example_row ''a'' 0, example_row ''b'' 0] = Some [scanJob (example_row ''b'' 0), scanJob (example_row ''a'' 0)]"
proof -
  let ?flt = "\<lparr>lf_tenant = '''', lf_state = Unlisted '''', lf_limit = 1, lf_cursor = ''''\<rparr>"
  let ?rows = "[example_row ''a'' 0, example_row ''b'' 0]" and ?coll = "map (of_char :: char \<Rightarrow> nat)"
  have l: "listable ?rows" by (simp add: listable_def us_aligned_def min_int64_def max_int64_def)
  have i: "inj ?coll" by (simp add: inj_on_def inj_map_eq_map [OF inj_of_char])
  have "listing ?coll ?flt ?rows = [example_row ''b'' 0, example_row ''a'' 0]"
    by (simp add: listing_def list_where_def of_tenant_def list_key_def less_eq_prod_def)
  with paging_complete [OF l i, of ?flt 0] show ?thesis by (simp add: numeral_3_eq_3 numeral_2_eq_2)
qed

end
