(* ===== verification/Api.thy ===== *)
theory Api
  imports Scheduler Key_Store Job_List
begin

text \<open>
  \<^verbatim>\<open>internal/api\<close>: authentication and the request handlers. A handler is a function of the gin context (the
  tenant authentication has set and the request id), the bound request, one \<open>call\<close> per statement,
  clock readings and random bytes; it returns the response and the tables. Binding the JSON body is
  gin's, so a handler receives its result: the request, or the text of the error. Logging and
  counters are left out.

  Shown here: authentication fails closed; a request only sees and changes its own tenant's jobs, and
  only the default tenant can submit SQL tasks; the endpoints of the pull protocol answer by the
  lease alone; and a long poll ends.
\<close>

section \<open>Responses\<close>

datatype body =
    ErrorBody string string string
  | IdBody string
  | JobBody job
  | JobsBody "job list" string
  | StatusBody string
  | StateBody job_state
  | RequeuedBody job_state int
  | ClaimBody job string time
  | LeaseBody time
  | OutcomeBody job_state int "time option"
  | ScheduleBody schedule
  | SchedulesBody "schedule list"
  | NoBody

record response =
  http_status :: nat
  http_body :: body

record gin_context =
  ctx_tenant :: string
  ctx_request_id :: string

definition respond :: "nat \<Rightarrow> body \<Rightarrow> response" where
  "respond status b = \<lparr>http_status = status, http_body = b\<rparr>"

definition RespondError :: "gin_context \<Rightarrow> nat \<Rightarrow> string \<Rightarrow> string \<Rightarrow> response" where
  "RespondError c status code message = respond status (ErrorBody code message (ctx_request_id c))"

text \<open>The request id: the caller's, or eight random bytes, or the clock in base 36.\<close>

definition newRequestID :: "byte list option \<Rightarrow> string \<Rightarrow> string" where
  "newRequestID random clock36 = (case random of None \<Rightarrow> ''req-'' @ clock36 | Some b \<Rightarrow> hex_encode b)"

definition RequestID :: "string \<Rightarrow> byte list option \<Rightarrow> string \<Rightarrow> gin_context \<Rightarrow> gin_context" where
  "RequestID header random clock36 c = c\<lparr>ctx_request_id := (if header = '''' then newRequestID random clock36 else header)\<rparr>"

text \<open>The lease token is left out of a job's JSON (\<^verbatim>\<open>json:"-"\<close>).\<close>

definition public_job :: "job \<Rightarrow> job" where
  "public_job j = j\<lparr>j_lease_token := ''''\<rparr>"

section \<open>Authentication\<close>

definition bearer_prefix :: string where
  "bearer_prefix = ''Bearer ''"

definition bearerToken :: "string \<Rightarrow> string" where
  "bearerToken header =
     (if length header < length bearer_prefix \<or> \<not> equal_fold_ascii (take (length bearer_prefix) header) bearer_prefix
      then '''' else trim_space (drop (length bearer_prefix) header))"

datatype auth = Proceed gin_context | Abort response

text \<open>The tail of \<^verbatim>\<open>APIKeyAuth\<close>, reached by a request whose token is neither configured nor issued.\<close>

definition auth_failed :: "gin_context \<Rightarrow> auth" where
  "auth_failed c = Abort (RespondError c 500 ''internal_error'' ''failed to check api key'')"

definition auth_unknown :: "string list \<Rightarrow> bool \<Rightarrow> keys call \<Rightarrow> string \<Rightarrow> gin_context \<Rightarrow> keys \<Rightarrow> auth \<times> keys" where
  "auth_unknown expected lookup c2 presented c rows =
     (let open_or_refuse = (\<lambda>is_open.
        if is_open then Proceed (c\<lparr>ctx_tenant := DefaultTenant\<rparr>)
        else Abort (RespondError c 401 ''unauthorized''
          (if presented = '''' then ''missing bearer token'' else ''invalid bearer token'')))
      in if expected = [] \<and> lookup then
           (case HasActiveKeys c2 rows of
              (Inl e, s) \<Rightarrow> (auth_failed c, s)
            | (Inr active, s) \<Rightarrow> (open_or_refuse (\<not> active), s))
         else (open_or_refuse (expected = []), rows))"

definition APIKeyAuth :: "string list \<Rightarrow> bool \<Rightarrow> keys call \<Rightarrow> keys call \<Rightarrow> string \<Rightarrow> gin_context \<Rightarrow> keys \<Rightarrow> auth \<times> keys" where
  "APIKeyAuth expected lookup c1 c2 header c rows =
     (let presented = bearerToken header in
      if presented = '''' then auth_unknown expected lookup c2 presented c rows
      else if list_ex (\<lambda>want. presented = want) expected then (Proceed (c\<lparr>ctx_tenant := DefaultTenant\<rparr>), rows)
      else if lookup then
        (case TenantForKey c1 presented rows of
           (Inr tenant, s) \<Rightarrow> (Proceed (c\<lparr>ctx_tenant := tenant\<rparr>), s)
         | (Inl e, s) \<Rightarrow>
             if errors_is e ErrKeyNotFound then auth_unknown expected lookup c2 presented c s else (auth_failed c, s))
      else auth_unknown expected lookup c2 presented c rows)"

definition tenantOf :: "gin_context \<Rightarrow> string" where
  "tenantOf c = (if ctx_tenant c \<noteq> '''' then ctx_tenant c else DefaultTenant)"

definition TokenAuth :: "string \<Rightarrow> string \<Rightarrow> gin_context \<Rightarrow> auth" where
  "TokenAuth token header c =
     (if token \<noteq> '''' \<and> bearerToken header \<noteq> token
      then Abort (RespondError c 401 ''unauthorized'' ''invalid bearer token'') else Proceed c)"

definition etl_TaskName :: string where
  "etl_TaskName = ''sql.etl''"

definition taskAllowed :: "gin_context \<Rightarrow> string \<Rightarrow> response option" where
  "taskAllowed c name =
     (if name = etl_TaskName \<and> tenantOf c \<noteq> DefaultTenant
      then Some (RespondError c 403 ''forbidden'' (name @ '' is only available to the default tenant'')) else None)"

text \<open>\<^verbatim>\<open>RegisterRoutes\<close> mounts authentication on the group, so it runs ahead of every handler below.\<close>

definition with_auth :: "string list \<Rightarrow> bool \<Rightarrow> keys call \<Rightarrow> keys call \<Rightarrow> string \<Rightarrow> gin_context \<Rightarrow>
    (gin_context \<Rightarrow> 's \<Rightarrow> response \<times> 's) \<Rightarrow> keys \<Rightarrow> 's \<Rightarrow> response \<times> keys \<times> 's" where
  "with_auth expected lookup c1 c2 header c handle ks rows =
     (case APIKeyAuth expected lookup c1 c2 header c ks of
        (Abort resp, ks') \<Rightarrow> (resp, ks', rows)
      | (Proceed c', ks') \<Rightarrow> (case handle c' rows of (resp, rows') \<Rightarrow> (resp, ks', rows')))"

section \<open>Jobs\<close>

record enqueue_request =
  er_idempotency_key :: string
  er_task :: task
  er_scheduled_at :: "time option"
  er_metadata :: "string_map option"

definition request_job :: "gin_context \<Rightarrow> enqueue_request \<Rightarrow> job" where
  "request_job c req = zero_job\<lparr>j_tenant_id := tenantOf c, j_idempotency_key := er_idempotency_key req,
     j_task := er_task req, j_scheduled_at := er_scheduled_at req, j_metadata := er_metadata req\<rparr>"

definition EnqueueJob :: "(job \<Rightarrow> jobs \<Rightarrow> (err + string) \<times> jobs \<times> job option) \<Rightarrow> gin_context \<Rightarrow> string + enqueue_request \<Rightarrow> jobs \<Rightarrow>
    response \<times> jobs" where
  "EnqueueJob enqueue c bound rows =
     (case bound of
        Inl msg \<Rightarrow> (RespondError c 400 ''invalid_request'' msg, rows)
      | Inr req \<Rightarrow>
          if t_name (er_task req) = '''' then (RespondError c 400 ''invalid_request'' ''task.name is required'', rows)
          else (case taskAllowed c (t_name (er_task req)) of
              Some resp \<Rightarrow> (resp, rows)
            | None \<Rightarrow>
                (case enqueue (request_job c req) rows of
                   (Inl e, s, published) \<Rightarrow> (RespondError c 500 ''internal_error'' ''failed to enqueue job'', s)
                 | (Inr i, s, published) \<Rightarrow> (respond 201 (IdBody i), s))))"

definition not_found :: "gin_context \<Rightarrow> response" where
  "not_found c = RespondError c 404 ''not_found'' ''job not found''"

definition respond_job :: "gin_context \<Rightarrow> (err + job) \<times> jobs \<Rightarrow> response \<times> jobs" where
  "respond_job c res = (case res of
     (Inl e, s) \<Rightarrow> (if errors_is e ErrJobNotFound then not_found c
        else RespondError c 500 ''internal_error'' ''failed to retrieve job'', s)
   | (Inr job, s) \<Rightarrow> (respond 200 (JobBody (public_job job)), s))"

definition GetJobStatus :: "jobs call \<Rightarrow> gin_context \<Rightarrow> string \<Rightarrow> jobs \<Rightarrow> response \<times> jobs" where
  "GetJobStatus call c i rows = respond_job c (GetJob call (tenantOf c) i rows)"

definition GetJobByIdempotencyKey_handler :: "jobs call \<Rightarrow> gin_context \<Rightarrow> string \<Rightarrow> jobs \<Rightarrow> response \<times> jobs" where
  "GetJobByIdempotencyKey_handler call c key rows =
     (if key = '''' then (RespondError c 400 ''invalid_request'' ''idempotency key is required'', rows)
      else respond_job c (GetJobByIdempotencyKey call (tenantOf c) key rows))"

definition list_response :: "(string \<Rightarrow> 'k::linorder) \<Rightarrow> jobs call \<Rightarrow> gin_context \<Rightarrow> int \<Rightarrow> job_state \<Rightarrow> string \<Rightarrow> string \<Rightarrow>
    jobs \<Rightarrow> response \<times> jobs" where
  "list_response coll call c limit state cursor include rows =
     (case ListJobs coll call \<lparr>lf_tenant = tenantOf c, lf_state = state, lf_limit = limit, lf_cursor = cursor\<rparr> rows of
        (Inl e, s) \<Rightarrow> (RespondError c 500 ''internal_error'' ''failed to list jobs'', s)
      | (Inr (jobs, next), s) \<Rightarrow>
          (respond 200 (JobsBody (map public_job (if include \<noteq> ''payload''
             then map (\<lambda>j. j\<lparr>j_task := (j_task j)\<lparr>t_payload := ''''\<rparr>\<rparr>) jobs else jobs)) next), s))"

definition ListJobs_handler :: "(string \<Rightarrow> 'k::linorder) \<Rightarrow> jobs call \<Rightarrow> gin_context \<Rightarrow> string \<Rightarrow> string \<Rightarrow> string \<Rightarrow> string \<Rightarrow>
    jobs \<Rightarrow> response \<times> jobs" where
  "ListJobs_handler coll call c q_state q_cursor q_limit q_include rows =
     (case (if q_limit = '''' then Some 0 else case atoi q_limit of None \<Rightarrow> None | Some n \<Rightarrow> if n < 0 then None else Some n) of
        None \<Rightarrow> (RespondError c 400 ''invalid_request'' ''limit must be a non-negative integer'', rows)
      | Some n \<Rightarrow>
          if (case JobState q_state of Unlisted t \<Rightarrow> t \<noteq> '''' | _ \<Rightarrow> False)
          then (RespondError c 400 ''invalid_request'' ''state must be one of PENDING, RUNNING, COMPLETED, FAILED, DEAD'', rows)
          else list_response coll call c n (JobState q_state) q_cursor q_include rows)"

definition CancelJob_handler :: "jobs call \<Rightarrow> jobs call \<Rightarrow> jobs call \<Rightarrow> gin_context \<Rightarrow> string \<Rightarrow> jobs \<Rightarrow> response \<times> jobs" where
  "CancelJob_handler c1 c2 c3 c i rows =
     (case GetJob c1 (tenantOf c) i rows of
        (Inl e, s) \<Rightarrow> (if errors_is e ErrJobNotFound then not_found c
          else RespondError c 500 ''internal_error'' ''failed to cancel job'', s)
      | (Inr job, s) \<Rightarrow>
          (case Cancel c2 c3 (tenantOf c) i s of
             (Inl e, s') \<Rightarrow> (if errors_is e ErrJobNotFound then not_found c
               else if errors_is e ErrInvalidTransition
               then RespondError c 409 ''invalid_state'' ''job cannot be cancelled in its current state''
               else RespondError c 500 ''internal_error'' ''failed to cancel job'', s')
           | (Inr u, s') \<Rightarrow> (respond 200 (StatusBody ''cancelled''), s')))"

definition RequeueJob :: "jobs call \<Rightarrow> jobs call \<Rightarrow> gin_context \<Rightarrow> string \<Rightarrow> jobs \<Rightarrow> response \<times> jobs" where
  "RequeueJob c1 c2 c i rows =
     (case RequeueDeadJob c1 c2 (tenantOf c) i rows of
        (Inl e, s) \<Rightarrow> (if errors_is e ErrJobNotFound then not_found c
          else if errors_is e ErrInvalidTransition then RespondError c 409 ''invalid_state'' ''only a DEAD job can be requeued''
          else RespondError c 500 ''internal_error'' ''failed to requeue job'', s)
      | (Inr u, s) \<Rightarrow> (respond 200 (RequeuedBody JobStatePending 0), s))"

section \<open>The pull protocol\<close>

record claim_request =
  cr_queues :: "string list"
  cr_names :: "string list"
  cr_lease_seconds :: int
  cr_wait_seconds :: int

definition zero_claim_request :: claim_request where
  "zero_claim_request = \<lparr>cr_queues = [], cr_names = [], cr_lease_seconds = 0, cr_wait_seconds = 0\<rparr>"

definition claimRetryEvery :: duration where "claimRetryEvery = 2 * second"

definition derefTime :: "time option \<Rightarrow> time" where
  "derefTime t = (case t of None \<Rightarrow> zero_time | Some x \<Rightarrow> x)"

text \<open>
  One turn of the waiting loop: the claim, the clock \<^verbatim>\<open>time.Until\<close> reads, and the case the \<^verbatim>\<open>select\<close> takes: a
  wake-up, the timer of \<open>claim_timer\<close>, or the client having gone. The first two lead to the next turn.
\<close>

datatype select_case = Woken | Ticked | Gone

definition claim_timer :: "duration \<Rightarrow> duration" where
  "claim_timer left = min left claimRetryEvery"

record poll =
  pl_call :: "jobs call"
  pl_now :: time
  pl_random :: "byte list option"
  pl_until :: time
  pl_select :: select_case

datatype claim_outcome = Got job | Claim_error | Nothing_due | Client_gone

partial_function (option) claim_wait :: "service \<Rightarrow> claim_filter \<Rightarrow> duration \<Rightarrow> time \<Rightarrow> (nat \<Rightarrow> poll) \<Rightarrow> nat \<Rightarrow> jobs \<Rightarrow>
    (claim_outcome \<times> jobs) option" where
  "claim_wait svc flt lease deadline polls i rows =
     (case Claim svc (pl_call (polls i)) (pl_now (polls i)) (pl_random (polls i)) flt lease rows of
        (res, s) \<Rightarrow>
          (case res of
             Inr job \<Rightarrow> Some (Got job, s)
           | Inl e \<Rightarrow>
               if \<not> errors_is e ErrJobNotFound then Some (Claim_error, s)
               else if time_sub deadline (pl_until (polls i)) \<le> 0 then Some (Nothing_due, s)
               else if pl_select (polls i) = Gone then Some (Client_gone, s)
               else claim_wait svc flt lease deadline polls (i + 1) s))"

definition claim_deadline :: "duration \<Rightarrow> time \<Rightarrow> claim_request \<Rightarrow> time" where
  "claim_deadline maxClaimWait now req = now + min (wrap64 (cr_wait_seconds req * second)) maxClaimWait"

definition ClaimJob :: "service \<Rightarrow> duration \<Rightarrow> time \<Rightarrow> (nat \<Rightarrow> poll) \<Rightarrow> gin_context \<Rightarrow> int \<Rightarrow> string + claim_request \<Rightarrow> jobs \<Rightarrow>
    (response option \<times> jobs) option" where
  "ClaimJob svc maxClaimWait now polls c content_length bound rows =
     (case (if content_length > 0 then bound else Inr zero_claim_request) of
        Inl msg \<Rightarrow> Some (Some (RespondError c 400 ''invalid_request'' msg), rows)
      | Inr req \<Rightarrow>
          if cr_lease_seconds req < 0 \<or> cr_wait_seconds req < 0
          then Some (Some (RespondError c 400 ''invalid_request'' ''lease_seconds and wait_seconds must not be negative''), rows)
          else map_option (\<lambda>(out, s). (case out of
                 Got job \<Rightarrow> Some (respond 200 (ClaimBody (public_job job) (j_lease_token job) (derefTime (j_lease_expires_at job))))
               | Claim_error \<Rightarrow> Some (RespondError c 500 ''internal_error'' ''failed to claim a job'')
               | Nothing_due \<Rightarrow> Some (respond 204 NoBody)
               | Client_gone \<Rightarrow> None, s))
            (claim_wait svc \<lparr>cf_tenant = tenantOf c, cf_queues = cr_queues req, cf_names = cr_names req\<rparr>
               (wrap64 (cr_lease_seconds req * second))
               (claim_deadline maxClaimWait now req) polls 0 rows))"

definition respondLeaseLost :: "gin_context \<Rightarrow> err \<Rightarrow> response option" where
  "respondLeaseLost c e =
     (if \<not> errors_is e ErrLeaseLost then None
      else Some (RespondError c 409 ''lease_lost''
        ''the lease on this job is no longer held; stop working on it and claim another''))"

definition HeartbeatJob :: "service \<Rightarrow> jobs call \<Rightarrow> time \<Rightarrow> time \<Rightarrow> gin_context \<Rightarrow> string \<Rightarrow> string + string \<times> int \<Rightarrow> jobs \<Rightarrow>
    response \<times> jobs" where
  "HeartbeatJob svc call now now' c i bound rows =
     (case bound of
        Inl msg \<Rightarrow> (RespondError c 400 ''invalid_request'' msg, rows)
      | Inr (token, seconds) \<Rightarrow>
          if token = '''' then (RespondError c 400 ''invalid_request'' ''lease_token is required'', rows)
          else (case Heartbeat svc call now now' i token (wrap64 (seconds * second)) rows of
              (Inl e, s) \<Rightarrow> (case respondLeaseLost c e of Some r \<Rightarrow> r
                | None \<Rightarrow> RespondError c 500 ''internal_error'' ''failed to renew lease'', s)
            | (Inr expires, s) \<Rightarrow> (respond 200 (LeaseBody expires), s)))"

definition CompleteJob :: "jobs call \<Rightarrow> gin_context \<Rightarrow> string \<Rightarrow> string + string \<times> string_map option \<Rightarrow> jobs \<Rightarrow>
    response \<times> jobs" where
  "CompleteJob call c i bound rows =
     (case bound of
        Inl msg \<Rightarrow> (RespondError c 400 ''invalid_request'' msg, rows)
      | Inr (token, meta) \<Rightarrow>
          if token = '''' then (RespondError c 400 ''invalid_request'' ''lease_token is required'', rows)
          else (case Complete call i token meta rows of
              (Inl e, s) \<Rightarrow> (case respondLeaseLost c e of Some r \<Rightarrow> r
                | None \<Rightarrow> RespondError c 500 ''internal_error'' ''failed to complete job'', s)
            | (Inr job, s) \<Rightarrow> (respond 200 (StateBody JobStateCompleted), s)))"

record fail_request =
  fr_lease_token :: string
  fr_error :: string
  fr_retry :: bool

definition FailJob :: "service \<Rightarrow> jobs call \<Rightarrow> jobs call \<Rightarrow> time \<Rightarrow> rat \<Rightarrow> gin_context \<Rightarrow> string \<Rightarrow> string + fail_request \<Rightarrow> jobs \<Rightarrow>
    response \<times> jobs" where
  "FailJob svc c1 c2 now u c i bound rows =
     (case bound of
        Inl msg \<Rightarrow> (RespondError c 400 ''invalid_request'' msg, rows)
      | Inr req \<Rightarrow>
          if fr_lease_token req = '''' then (RespondError c 400 ''invalid_request'' ''lease_token is required'', rows)
          else (let msg = (if fr_error req = '''' then ''worker reported failure without a message'' else fr_error req) in
            case Fail svc c1 c2 now u i (fr_lease_token req) msg (\<not> fr_retry req) rows of
              (Inl e, s) \<Rightarrow> (case respondLeaseLost c e of Some r \<Rightarrow> r
                | None \<Rightarrow> if errors_is e ErrJobNotFound then not_found c
                    else RespondError c 500 ''internal_error'' ''failed to record job failure'', s)
            | (Inr job, s) \<Rightarrow> (respond 200 (OutcomeBody (j_state job) (j_attempt job) (j_scheduled_at job)), s)))"

section \<open>Schedules\<close>

record schedule_request =
  sq_name :: string
  sq_cron :: string
  sq_task :: task

definition CreateSchedule_handler :: "(err \<Rightarrow> string) \<Rightarrow> schedules call \<Rightarrow> time \<Rightarrow> time \<Rightarrow> byte list option \<Rightarrow> gin_context \<Rightarrow>
    string + schedule_request \<Rightarrow> schedules \<Rightarrow> response \<times> schedules" where
  "CreateSchedule_handler render call now now' random c bound rows =
     (case bound of
        Inl msg \<Rightarrow> (RespondError c 400 ''invalid_request'' msg, rows)
      | Inr req \<Rightarrow>
          if sq_name req = '''' then (RespondError c 400 ''invalid_request'' ''name is required'', rows)
          else if t_name (sq_task req) = '''' then (RespondError c 400 ''invalid_request'' ''task.name is required'', rows)
          else (case taskAllowed c (t_name (sq_task req)) of
              Some resp \<Rightarrow> (resp, rows)
            | None \<Rightarrow>
                (case Parse (sq_cron req) of
                   Inl e \<Rightarrow> (RespondError c 400 ''invalid_request'' (''cron: '' @ render e), rows)
                 | Inr cron \<Rightarrow>
                     let next = Next cron now in
                     if next = zero_time
                     then (RespondError c 400 ''invalid_request'' ''cron has no occurrence in the next four years'', rows)
                     else (case CreateSchedule call now' random (zero_schedule\<lparr>s_tenant_id := tenantOf c, s_name := sq_name req,
                               s_cron := sq_cron req, s_task := sq_task req, s_enabled := True, s_next_run_at := next\<rparr>) rows of
                         (Inl e, s) \<Rightarrow> (if errors_is e ErrDuplicateSchedule
                            then RespondError c 409 ''duplicate_name'' ''a schedule with that name already exists''
                            else RespondError c 500 ''internal_error'' ''failed to create schedule'', s)
                       | (Inr sched, s) \<Rightarrow> (respond 201 (ScheduleBody sched), s)))))"

definition ListSchedules_handler :: "(string \<Rightarrow> 'k::linorder) \<Rightarrow> schedules call \<Rightarrow> gin_context \<Rightarrow> schedules \<Rightarrow> response \<times> schedules" where
  "ListSchedules_handler coll call c rows =
     (case ListSchedules coll call (tenantOf c) rows of
        (Inl e, s) \<Rightarrow> (RespondError c 500 ''internal_error'' ''failed to list schedules'', s)
      | (Inr ss, s) \<Rightarrow> (respond 200 (SchedulesBody ss), s))"

definition DeleteSchedule_handler :: "schedules call \<Rightarrow> gin_context \<Rightarrow> string \<Rightarrow> schedules \<Rightarrow> response \<times> schedules" where
  "DeleteSchedule_handler call c i rows =
     (case DeleteSchedule call (tenantOf c) i rows of
        (Inl e, s) \<Rightarrow> (if errors_is e ErrScheduleNotFound then RespondError c 404 ''not_found'' ''schedule not found''
          else RespondError c 500 ''internal_error'' ''failed to delete schedule'', s)
      | (Inr u, s) \<Rightarrow> (respond 204 NoBody, s))"

section \<open>Authentication fails closed\<close>

lemma tenantOf_not_any [simp]: "tenantOf c \<noteq> AnyTenant" "tenantOf c \<noteq> ''''"
  by (simp_all add: tenantOf_def AnyTenant_def DefaultTenant_def)

lemma tenantOf_set [simp]: "t \<noteq> '''' \<Longrightarrow> tenantOf (c\<lparr>ctx_tenant := t\<rparr>) = t"
  by (simp add: tenantOf_def)

lemma TenantForKey_Inr:
  assumes "TenantForKey c key rows = (Inr t, s)"
  shows "\<exists>r\<in>set (rely c rows). k_hash r = hashKey key \<and> live r \<and> k_tenant_id r = t"
  using assms by (auto simp: TenantForKey_def split: prod.splits sum.splits option.splits dest!: exec_Inr find_SomeD)

lemma TenantForKey_state: "snd (TenantForKey c key rows) = rely c rows"
  using exec_state [of c "\<lambda>s. (case find (\<lambda>r. k_hash r = hashKey key \<and> live r) s of
             None \<Rightarrow> Inl (Sentinel ErrKeyNotFound) | Some r \<Rightarrow> Inr (k_tenant_id r), s)" rows]
  by (auto simp: TenantForKey_def split: prod.splits sum.splits)

lemma HasActiveKeys_Inr: "HasActiveKeys c rows = (Inr b, s) \<Longrightarrow> b = list_ex live (rely c rows) \<and> s = rely c rows"
  by (auto simp: HasActiveKeys_def dest!: exec_Inr)

lemma auth_unknown_result:
  "case auth_unknown expected lookup c2 presented c rows of
     (Proceed c', s) \<Rightarrow> c' = c\<lparr>ctx_tenant := DefaultTenant\<rparr> \<and> expected = [] \<and> (lookup \<longrightarrow> (\<forall>r\<in>set (rely c2 rows). \<not> live r))
   | (Abort resp, s) \<Rightarrow> http_status resp \<in> {401, 500}"
  by (auto simp: auth_unknown_def Let_def auth_failed_def RespondError_def respond_def list_ex_iff
      dest!: HasActiveKeys_Inr split: sum.split prod.split if_split)



section \<open>Requests are confined to their tenant\<close>

definition jobs_in :: "response \<Rightarrow> job set" where
  "jobs_in resp = (case http_body resp of JobBody j \<Rightarrow> {j} | JobsBody js next \<Rightarrow> set js | ClaimBody j token expires \<Rightarrow> {j} | _ \<Rightarrow> {})"

lemma jobs_in_simps [simp]:
  "jobs_in (RespondError c status code m) = {}" "jobs_in (respond 200 (JobBody j)) = {j}"
  "jobs_in (respond 200 (JobsBody js next)) = set js" "jobs_in (respond 200 (ClaimBody j t e)) = {j}"
  "jobs_in (respond 204 NoBody) = {}" "jobs_in (not_found c) = {}"
  by (simp_all add: jobs_in_def RespondError_def respond_def not_found_def)

lemma public_job_simps [simp]: "j_tenant_id (public_job j) = j_tenant_id j" "j_lease_token (public_job j) = ''''"
  by (simp_all add: public_job_def)

lemma respond_job_tenant:
  assumes "\<And>job s. res = (Inr job, s) \<Longrightarrow> j_tenant_id job = t"
  shows "\<forall>j\<in>jobs_in (fst (respond_job c res)). j_tenant_id j = t"
  using assms by (auto simp: respond_job_def split: prod.splits sum.splits if_splits)

lemma ListJobs_tenant:
  assumes "ListJobs coll call flt rows = (Inr (jobs, next), s)" "lf_tenant flt \<noteq> ''''" "j \<in> set jobs"
  shows "j_tenant_id j = lf_tenant flt"
proof -
  obtain p where p: "\<forall>r. p r \<longrightarrow> list_where flt r"
    "list_page coll (list_limit (lf_limit flt)) p (rely call rows) = (Inr (jobs, next), s)"
  proof (cases "lf_cursor flt = ''''")
    case True
    with assms(1) have "exec call (list_page coll (list_limit (lf_limit flt)) (list_where flt)) rows = (Inr (jobs, next), s)"
      by (simp add: ListJobs_def)
    from exec_Inr [OF this] that [of "list_where flt"] show ?thesis by simp
  next
    case False
    with assms(1) obtain ts i where
      "exec call (list_page coll (list_limit (lf_limit flt)) (\<lambda>r. list_where flt r \<and> after_cursor coll (pg_ts ts) i r)) rows =
         (Inr (jobs, next), s)"
      by (auto simp: ListJobs_def split: sum.splits)
    from exec_Inr [OF this] that [of "\<lambda>r. list_where flt r \<and> after_cursor coll (pg_ts ts) i r"] show ?thesis by simp
  qed
  from p(2) assms(3) have "j \<in> scanJob ` set (order_limit (list_key coll) (list_limit (lf_limit flt) + 1) (filter p (rely call rows)))"
    by (auto simp: list_page_def Let_def split: if_splits dest: in_set_takeD)
  with p(1) assms(2) show ?thesis by (auto simp: list_where_def of_tenant_def scanJob_def dest!: in_order_limitD)
qed

lemma list_response_tenant:
  "\<forall>j\<in>jobs_in (fst (list_response coll call c n st cur inc rows)). j_tenant_id j = tenantOf c"
  by (auto simp: list_response_def dest: ListJobs_tenant split: prod.splits sum.splits)

lemma ListJobs_handler_tenant:
  "\<forall>j\<in>jobs_in (fst (ListJobs_handler coll call c st cur limit inc rows)). j_tenant_id j = tenantOf c"
  unfolding ListJobs_handler_def
  by (split option.split, intro conjI allI impI) (auto simp: list_response_tenant [rule_format])

lemma Claim_tenant:
  assumes "Claim svc c now random flt lease rows = (Inr job, s)" "cf_tenant flt \<noteq> ''''"
  shows "j_tenant_id job = cf_tenant flt"
proof -
  from assms(1) have "ClaimNextJob c now random (clampLease svc lease) flt rows = (Inr job, s)"
    by (auto simp: Claim_def wrap_unless_def split: prod.splits sum.splits)
  then obtain tok where "claim_stmt (pgnow c) (locked c) now (clampLease svc lease) tok flt (rely c rows) = (Inr job, s)"
    by (auto simp: ClaimNextJob_def split: sum.splits dest!: exec_Inr)
  then obtain x where "x \<in> set (rely c rows)" "claimable (pgnow c) flt x" "job = scanJob (claim_set now (now + clampLease svc lease) tok x)"
    by (auto simp: claim_stmt_def split: option.splits if_splits dest!: first_by_Some(1))
  then show ?thesis using assms(2) by (auto simp: claimable_def of_tenant_def scanJob_def claim_set_def)
qed

lemma Claim_state: "snd (Claim svc c now random flt lease rows) = snd (ClaimNextJob c now random (clampLease svc lease) flt rows)"
  by (auto simp: Claim_def wrap_unless_def split: prod.splits sum.splits)

text \<open>What holds of the loop holds of it by induction over its turns.\<close>

lemma claim_wait_confined:
  assumes "claim_wait svc flt lease deadline polls i rows = Some res"
  shows "cf_tenant flt \<noteq> '''' \<and> r \<in> set rows \<and> distinct (map r_id rows) \<and> \<not> of_tenant (cf_tenant flt) r \<and>
     (\<forall>k. leaves_alone r (pl_call (polls k))) \<longrightarrow>
     r \<in> set (snd res) \<and> (\<forall>job. fst res = Got job \<longrightarrow> j_tenant_id job = cf_tenant flt)"
  using assms
proof (induction rule: claim_wait.raw_induct [rotated, consumes 1, case_names turn])
  case (turn go svc flt lease deadline polls i rows res)
  obtain out s where claim: "Claim svc (pl_call (polls i)) (pl_now (polls i)) (pl_random (polls i)) flt lease rows = (out, s)"
    by fastforce
  show ?case
  proof
    assume H: "cf_tenant flt \<noteq> '''' \<and> r \<in> set rows \<and> distinct (map r_id rows) \<and> \<not> of_tenant (cf_tenant flt) r \<and>
      (\<forall>k. leaves_alone r (pl_call (polls k)))"
    then have s: "r \<in> set s" "distinct (map r_id s)"
      using claim_survives [of r rows "pl_call (polls i)" flt "pl_now (polls i)" "pl_random (polls i)" "clampLease svc lease"]
        claim_keeps_ids [of r rows "pl_call (polls i)" "pl_now (polls i)" "pl_random (polls i)" "clampLease svc lease" flt]
        Claim_state [of svc "pl_call (polls i)" "pl_now (polls i)" "pl_random (polls i)" flt lease rows] claim by auto
    show "r \<in> set (snd res) \<and> (\<forall>job. fst res = Got job \<longrightarrow> j_tenant_id job = cf_tenant flt)"
    proof (cases out)
      case (Inl e)
      with turn.hyps claim have "res \<in> {(Claim_error, s), (Nothing_due, s), (Client_gone, s)} \<or>
          go svc flt lease deadline polls (i + 1) s = Some res"
        by (auto split: if_splits)
      with turn.IH [of svc flt lease deadline polls "i + 1" s res] H s show ?thesis by auto
    next
      case (Inr job)
      with turn.hyps claim Claim_tenant [of svc "pl_call (polls i)"] H s show ?thesis by auto
    qed
  qed
qed

lemma wrap_err_state [simp]: "snd (wrap_err m res) = snd res"
  by (simp add: wrap_err_def split: prod.splits sum.splits)

lemma cancel_handler_survives:
  assumes "r \<in> set rows" "distinct (map r_id rows)" "r_tenant_id r \<noteq> tenantOf c"
    "leaves_alone r c1" "leaves_alone r c2" "leaves_alone r c3"
  shows "r \<in> set (snd (CancelJob_handler c1 c2 c3 c i rows))"
proof -
  obtain res s where g: "GetJob c1 (tenantOf c) i rows = (res, s)" by fastforce
  then have "s = rely c1 rows" using GetJob_state [of c1 "tenantOf c" i rows] by simp
  then have s: "r \<in> set s" "distinct (map r_id s)" using assms by (simp_all add: leaves_alone_def)
  have "r \<in> set (snd (Cancel c2 c3 (tenantOf c) i s))"
    using cancel_survives [OF s assms(5,6), of "tenantOf c" i] assms(3) by (simp add: Cancel_def of_tenant_def)
  then show ?thesis using g s by (auto simp: CancelJob_handler_def split: sum.split prod.split)
qed

lemma requeue_handler_survives:
  assumes "r \<in> set rows" "distinct (map r_id rows)" "r_tenant_id r \<noteq> tenantOf c" "leaves_alone r c1" "leaves_alone r c2"
  shows "r \<in> set (snd (RequeueJob c1 c2 c i rows))"
  using requeue_survives [OF assms(1,2,4,5), of "tenantOf c" i] assms(3)
  by (auto simp: RequeueJob_def of_tenant_def split: sum.split prod.split)

lemma claim_handler_confined:
  assumes "ClaimJob svc maxw now polls c len bound rows = Some (resp, s)"
    and "r \<in> set rows" "distinct (map r_id rows)" "r_tenant_id r \<noteq> tenantOf c" "\<forall>k. leaves_alone r (pl_call (polls k))"
  shows "r \<in> set s \<and> (\<forall>rp. resp = Some rp \<longrightarrow> (\<forall>j\<in>jobs_in rp. j_tenant_id j = tenantOf c))"
proof (cases "if 0 < len then bound else Inr zero_claim_request")
  case (Inl m)
  with assms(1,2) show ?thesis by (auto simp: ClaimJob_def)
next
  case (Inr req)
  show ?thesis
  proof (cases "cr_lease_seconds req < 0 \<or> cr_wait_seconds req < 0")
    case True
    with assms(1,2) Inr show ?thesis by (auto simp: ClaimJob_def)
  next
    case False
    let ?flt = "\<lparr>cf_tenant = tenantOf c, cf_queues = cr_queues req, cf_names = cr_names req\<rparr>"
    from False assms(1) Inr obtain out where
      w: "claim_wait svc ?flt (wrap64 (cr_lease_seconds req * second))
            (claim_deadline maxw now req) polls 0 rows = Some (out, s)"
      and resp: "resp = (case out of
                 Got job \<Rightarrow> Some (respond 200 (ClaimBody (public_job job) (j_lease_token job) (derefTime (j_lease_expires_at job))))
               | Claim_error \<Rightarrow> Some (RespondError c 500 ''internal_error'' ''failed to claim a job'')
               | Nothing_due \<Rightarrow> Some (respond 204 NoBody)
               | Client_gone \<Rightarrow> None)"
      by (auto simp: ClaimJob_def)
    from claim_wait_confined [OF w, of r] assms(2-5) have "r \<in> set s" "\<forall>job. out = Got job \<longrightarrow> j_tenant_id job = tenantOf c"
      by (auto simp: of_tenant_def)
    then show ?thesis unfolding resp by (auto split: claim_outcome.splits)
  qed
qed

lemma jobs_in_no_token:
  "\<forall>j\<in>jobs_in (fst (respond_job c res)). j_lease_token j = ''''"
  "\<forall>j\<in>jobs_in (fst (ListJobs_handler coll call c st cur limit inc rows)). j_lease_token j = ''''"
proof -
  show "\<forall>j\<in>jobs_in (fst (respond_job c res)). j_lease_token j = ''''"
    by (auto simp: respond_job_def split: prod.splits sum.splits if_splits)
  have "\<forall>j\<in>jobs_in (fst (list_response coll call c n st' cur inc rows)). j_lease_token j = ''''" for n st'
    by (auto simp: list_response_def split: prod.splits sum.splits)
  then show "\<forall>j\<in>jobs_in (fst (ListJobs_handler coll call c st cur limit inc rows)). j_lease_token j = ''''"
    unfolding ListJobs_handler_def by (split option.split, intro conjI allI impI) auto
qed

lemma reads_tenant:
  "\<forall>j\<in>jobs_in (fst (GetJobStatus call c i rows)). j_tenant_id j = tenantOf c"
  "\<forall>j\<in>jobs_in (fst (GetJobByIdempotencyKey_handler call c key rows)). j_tenant_id j = tenantOf c"
  using respond_job_tenant [of "GetJob call (tenantOf c) i rows" "tenantOf c" c]
    respond_job_tenant [of "GetJobByIdempotencyKey call (tenantOf c) key rows" "tenantOf c" c]
    GetJob_tenant [of "tenantOf c" call i rows] GetJobByIdempotencyKey_tenant [of "tenantOf c" call key rows]
  by (auto simp: GetJobStatus_def GetJobByIdempotencyKey_handler_def)


definition example_poll :: "time \<Rightarrow> select_case \<Rightarrow> poll" where
  "example_poll t sel = \<lparr>pl_call = quiet t, pl_now = t, pl_random = Some [1], pl_until = t, pl_select = sel\<rparr>"


section \<open>SQL tasks belong to the default tenant\<close>

definition etl_safe :: "jobs \<Rightarrow> bool" where
  "etl_safe rows \<longleftrightarrow> (\<forall>r\<in>set rows. r_task_name r = etl_TaskName \<longrightarrow> r_tenant_id r = DefaultTenant)"

definition etl_safe_schedules :: "schedules \<Rightarrow> bool" where
  "etl_safe_schedules rows \<longleftrightarrow> (\<forall>r\<in>set rows. sr_task_name r = etl_TaskName \<longrightarrow> sr_tenant_id r = DefaultTenant)"

lemma Enqueue_etl_safe:
  assumes "etl_safe rows" "\<forall>c\<in>{c1, c2, c3}. \<forall>s. etl_safe s \<longrightarrow> etl_safe (rely c s)"
    and "t_name (j_task job) = etl_TaskName \<longrightarrow> j_tenant_id (default_tenant job) = DefaultTenant"
  shows "etl_safe (fst (snd (Enqueue svc c1 c2 c3 now now' random job rows)))"
proof (rule Enqueue_invariant)
  show "etl_safe (snd (insert_job (row_of_job now' (normalise svc now ((default_tenant job)\<lparr>j_id := i\<rparr>))) s))" if "etl_safe s" for i s
    using that assms(3) by (auto simp: etl_safe_def insert_job_def row_of_job_def default_tenant_def)
qed (use assms in auto)

lemma taskAllowed_None: "taskAllowed c name = None \<Longrightarrow> name = etl_TaskName \<Longrightarrow> tenantOf c = DefaultTenant"
  by (auto simp: taskAllowed_def split: if_splits)

lemma EnqueueJob_etl_safe:
  assumes "etl_safe rows" "\<forall>c\<in>{c1, c2, c3}. \<forall>s. etl_safe s \<longrightarrow> etl_safe (rely c s)"
  shows "etl_safe (snd (EnqueueJob (Enqueue svc c1 c2 c3 now now' random) c bound rows))"
proof (cases "\<exists>req. bound = Inr req \<and> t_name (er_task req) \<noteq> '''' \<and> taskAllowed c (t_name (er_task req)) = None")
  case True
  then obtain req where req: "bound = Inr req" "t_name (er_task req) \<noteq> ''''" "taskAllowed c (t_name (er_task req)) = None" by blast
  let ?job = "request_job c req"
  have "t_name (j_task ?job) = etl_TaskName \<longrightarrow> j_tenant_id (default_tenant ?job) = DefaultTenant"
    using taskAllowed_None [OF req(3)] by (auto simp: request_job_def default_tenant_def)
  from Enqueue_etl_safe [OF assms this] have "etl_safe (fst (snd (Enqueue svc c1 c2 c3 now now' random ?job rows)))" .
  with req show ?thesis by (auto simp: EnqueueJob_def split: sum.split prod.split)
next
  case False
  with assms(1) show ?thesis by (auto simp: EnqueueJob_def split: sum.splits option.splits)
qed

lemma CreateSchedule_handler_etl_safe:
  assumes "etl_safe_schedules rows" "\<forall>s. etl_safe_schedules s \<longrightarrow> etl_safe_schedules (rely call s)"
  shows "etl_safe_schedules (snd (CreateSchedule_handler render call now now' random c bound rows))"
proof -
  have create: "etl_safe_schedules (snd (CreateSchedule call now' random sched rows))"
    if "t_name (s_task sched) = etl_TaskName \<Longrightarrow> s_tenant_id sched = DefaultTenant" for sched
  proof -
    have ins: "etl_safe_schedules (snd (insert_schedule (row_of_schedule (schedule_defaults now' (sched\<lparr>s_id := i\<rparr>))) s))"
      if "etl_safe_schedules s" for i s
      using that \<open>t_name (s_task sched) = etl_TaskName \<Longrightarrow> s_tenant_id sched = DefaultTenant\<close>
      by (auto simp: etl_safe_schedules_def insert_schedule_def row_of_schedule_def schedule_defaults_def Let_def)
    have ex: "etl_safe_schedules (snd (exec call (insert_schedule (row_of_schedule (schedule_defaults now' (sched\<lparr>s_id := i\<rparr>)))) rows))" for i
      by (rule exec_invariant) (use assms ins in auto)
    show ?thesis
    proof (cases "if s_id sched = '''' then newID random else Inr (s_id sched)")
      case (Inr i)
      obtain res s' where "exec call (insert_schedule (row_of_schedule (schedule_defaults now' (sched\<lparr>s_id := i\<rparr>)))) rows = (res, s')"
        by fastforce
      with ex [of i] show ?thesis by (auto simp: CreateSchedule_def Inr Let_def simp del: if_split split: sum.split)
    qed (simp add: CreateSchedule_def assms(1))
  qed
  have sched: "etl_safe_schedules s'"
    if "taskAllowed c (t_name (sq_task req)) = None" "CreateSchedule call now' random (zero_schedule\<lparr>s_tenant_id := tenantOf c, s_name := sq_name req,
        s_cron := sq_cron req, s_task := sq_task req, s_enabled := True, s_next_run_at := n\<rparr>) rows = (res, s')" for req n res s'
  proof -
    have "etl_safe_schedules (snd (CreateSchedule call now' random (zero_schedule\<lparr>s_tenant_id := tenantOf c, s_name := sq_name req,
        s_cron := sq_cron req, s_task := sq_task req, s_enabled := True, s_next_run_at := n\<rparr>) rows))"
      by (rule create) (use taskAllowed_None [OF that(1)] in simp)
    with that(2) show ?thesis by simp
  qed
  show ?thesis
    using assms(1)
    by (auto simp: CreateSchedule_handler_def Let_def dest: sched split: sum.splits option.splits prod.splits)
qed

lemma fire_jobs:
  assumes "fire enq c sched now (jobs, scheds) = (out, jobs', scheds')"
  shows "jobs' = jobs \<or> jobs' = fst (snd (enq (fire_job sched) jobs))"
proof (cases "Parse (s_cron sched)")
  case (Inr cron)
  obtain "next" k where n: "nextAfter cron (s_next_run_at sched) now = (next, k)" by fastforce
  obtain r j p where e: "enq (fire_job sched) jobs = (r, j, p)" by (metis prod_cases3)
  obtain res s where a: "AdvanceSchedule c (s_id sched) (s_next_run_at sched) next (projr r) scheds = (res, s)" by fastforce
  show ?thesis
    using assms Inr n e a by (cases "next = zero_time"; cases r; cases res) (auto simp: fire_def)
qed (use assms in \<open>simp add: fire_def\<close>)

lemma AdvanceSchedule_etl_safe:
  assumes "etl_safe_schedules scheds" "\<forall>s. etl_safe_schedules s \<longrightarrow> etl_safe_schedules (rely c s)"
  shows "etl_safe_schedules (snd (AdvanceSchedule c i a b j scheds))"
proof -
  have upd: "etl_safe_schedules (snd (sql_update p (advance_set t b j) s))" if "etl_safe_schedules s" for p t s
    using that by (auto simp: etl_safe_schedules_def in_set_sql_update advance_set_def split: if_splits)
  show ?thesis
    unfolding AdvanceSchedule_def
    by (rule exec_invariant [of etl_safe_schedules]) (simp_all add: case_prod_beta Let_def assms upd)
qed

lemma fire_etl_safe:
  assumes "etl_safe rows" "\<forall>c\<in>{c1, c2, c3}. \<forall>s. etl_safe s \<longrightarrow> etl_safe (rely c s)"
    and "etl_safe_schedules scheds" "\<forall>s. etl_safe_schedules s \<longrightarrow> etl_safe_schedules (rely c5 s)" "r \<in> set scheds"
    and f: "fire (Enqueue svc c1 c2 c3 now now' random) c5 (scanSchedule r) now (rows, scheds) = (out, rows', scheds')"
  shows "etl_safe rows' \<and> etl_safe_schedules scheds'"
proof -
  have "t_name (j_task (fire_job (scanSchedule r))) = etl_TaskName \<longrightarrow>
      j_tenant_id (default_tenant (fire_job (scanSchedule r))) = DefaultTenant"
    using assms(3,5) by (auto simp: fire_job_def scanSchedule_def default_tenant_def etl_safe_schedules_def)
  from Enqueue_etl_safe [OF assms(1,2) this] fire_jobs [OF f] assms(1) have "etl_safe rows'" by auto
  moreover have "etl_safe_schedules scheds'"
    using fire_cases [OF f] assms(3) AdvanceSchedule_etl_safe [OF assms(3,4)] by (metis snd_conv)
  ultimately show ?thesis ..
qed

text \<open>
  C23. SQL tasks stay with the default tenant. If every \<^verbatim>\<open>sql.etl\<close> job and schedule in the tables belongs to
  the default tenant, and other sessions keep it so, then it is still so after an enqueue request,
  after a request to create a schedule and after a fire of any schedule of the table, on all their
  branches and whoever sends the request.
\<close>

theorem etl_only_default:
  assumes "etl_safe rows" "\<forall>c\<in>{c1, c2, c3}. \<forall>s. etl_safe s \<longrightarrow> etl_safe (rely c s)"
    and "etl_safe_schedules scheds" "\<forall>c\<in>{c4, c5}. \<forall>s. etl_safe_schedules s \<longrightarrow> etl_safe_schedules (rely c s)"
  shows "etl_safe (snd (EnqueueJob (Enqueue svc c1 c2 c3 now now' random) c bound rows)) \<and>
    etl_safe_schedules (snd (CreateSchedule_handler render c4 now now' random c sbound scheds)) \<and>
    (\<forall>r\<in>set scheds. \<forall>out rows' scheds'.
       fire (Enqueue svc c1 c2 c3 now now' random) c5 (scanSchedule r) now (rows, scheds) = (out, rows', scheds') \<longrightarrow>
       etl_safe rows' \<and> etl_safe_schedules scheds')"
proof (intro conjI ballI allI impI)
  show "etl_safe (snd (EnqueueJob (Enqueue svc c1 c2 c3 now now' random) c bound rows))"
    by (rule EnqueueJob_etl_safe [OF assms(1,2)])
  show "etl_safe_schedules (snd (CreateSchedule_handler render c4 now now' random c sbound scheds))"
    by (rule CreateSchedule_handler_etl_safe [OF assms(3)]) (use assms(4) in simp)
  have c5: "\<forall>s. etl_safe_schedules s \<longrightarrow> etl_safe_schedules (rely c5 s)" using assms(4) by simp
  fix r out rows' scheds'
  assume "r \<in> set scheds" "fire (Enqueue svc c1 c2 c3 now now' random) c5 (scanSchedule r) now (rows, scheds) = (out, rows', scheds')"
  from fire_etl_safe [OF assms(1-3) c5 this] show "etl_safe rows'" "etl_safe_schedules scheds'" by simp_all
qed

theorem etl_only_default_witness:
  "etl_safe (snd (EnqueueJob (Enqueue (NewJobService server_retry_config ''q'' second)
     (quiet 1) (quiet 2) (quiet 3) 4 5 (Some (replicate 16 1))) \<lparr>ctx_tenant = ''acme'', ctx_request_id = ''''\<rparr> (Inr \<lparr>er_idempotency_key = '''', er_task = zero_task\<lparr>t_name := etl_TaskName\<rparr>, er_scheduled_at = None, er_metadata = None\<rparr>) [example_row ''a'' 0]))"
  by (rule etl_only_default [where scheds = "[]" and ?c4.0 = "quiet 1" and ?c5.0 = "quiet 1", THEN conjunct1])
    (simp_all add: etl_safe_def etl_safe_schedules_def etl_TaskName_def)

section \<open>The pull protocol answers by the lease alone\<close>

lemma exec_Done: "io c = Done \<Longrightarrow> exec c f s = f (rely c s)"
  by (simp add: exec_def Let_def split: prod.splits)

lemma status_simps [simp]:
  "http_status (RespondError c n code m) = n" "http_status (respond n b) = n" "http_status (not_found c) = 404"
  by (simp_all add: RespondError_def respond_def not_found_def)

definition held :: "jobs call \<Rightarrow> string \<Rightarrow> string \<Rightarrow> jobs \<Rightarrow> bool" where
  "held call i token rows \<longleftrightarrow> list_ex (holds_lease i token) (rely call rows)"

lemma update_or_cases:
  "update_or e p f rows = (if list_ex p rows then (Inr (), snd (sql_update p f rows)) else (Inl (Sentinel e), rows))"
  using sql_update_count_0 [of p f rows] sql_update_none [of rows p f]
  by (auto simp: update_or_def list_ex_iff split: prod.splits)

lemma heartbeat_answer:
  assumes "token \<noteq> ''''" "io call = Done"
  shows "http_status (fst (HeartbeatJob svc call now now' c i (Inr (token, n)) rows)) = (if held call i token rows then 200 else 409)"
    and "\<not> held call i token rows \<Longrightarrow> snd (HeartbeatJob svc call now now' c i (Inr (token, n)) rows) = rely call rows"
  using assms by (simp_all add: HeartbeatJob_def Heartbeat_def Let_def RenewLease_def exec_Done update_or_cases held_def respondLeaseLost_def)

lemma complete_answer:
  assumes "token \<noteq> ''''" "io call = Done"
  shows "http_status (fst (CompleteJob call c i (Inr (token, meta)) rows)) = (if held call i token rows then 200 else 409)"
    and "\<not> held call i token rows \<Longrightarrow> snd (CompleteJob call c i (Inr (token, meta)) rows) = rely call rows"
proof -
  have f: "find (holds_lease i token) (rely call rows) = None \<longleftrightarrow> \<not> held call i token rows"
    by (auto simp: held_def find_None_ball list_ex_iff)
  show "http_status (fst (CompleteJob call c i (Inr (token, meta)) rows)) = (if held call i token rows then 200 else 409)"
    using assms f by (cases "find (holds_lease i token) (rely call rows)")
      (simp_all add: CompleteJob_def Complete_def wrap_unless_def CompleteClaimedJob_def exec_Done complete_stmt_def respondLeaseLost_def)
  show "snd (CompleteJob call c i (Inr (token, meta)) rows) = rely call rows" if "\<not> held call i token rows"
    using assms f that by (simp add: CompleteJob_def Complete_def wrap_unless_def CompleteClaimedJob_def exec_Done complete_stmt_def respondLeaseLost_def)
qed

lemma fail_answer:
  assumes "fr_lease_token req \<noteq> ''''" "io c1 = Done" "io c2 = Done" "\<exists>r\<in>set (rely c1 rows). r_id r = i"
  shows "http_status (fst (FailJob svc c1 c2 now u c i (Inr req) rows)) = (if held c2 i (fr_lease_token req) (rely c1 rows) then 200 else 409)"
    and "\<not> held c2 i (fr_lease_token req) (rely c1 rows) \<Longrightarrow> snd (FailJob svc c1 c2 now u c i (Inr req) rows) = rely c2 (rely c1 rows)"
proof -
  obtain x where "find (\<lambda>r. r_id r = i \<and> of_tenant AnyTenant r) (rely c1 rows) = Some x"
    using assms(4) by (cases "find (\<lambda>r. r_id r = i \<and> of_tenant AnyTenant r) (rely c1 rows)")
      (auto simp: find_None_ball of_tenant_def AnyTenant_def)
  then have g: "GetJob c1 AnyTenant i rows = (Inr (scanJob x), rely c1 rows)"
    using assms(2) by (simp add: GetJob_def exec_Done select_one_def)
  show "http_status (fst (FailJob svc c1 c2 now u c i (Inr req) rows)) = (if held c2 i (fr_lease_token req) (rely c1 rows) then 200 else 409)"
    "\<not> held c2 i (fr_lease_token req) (rely c1 rows) \<Longrightarrow> snd (FailJob svc c1 c2 now u c i (Inr req) rows) = rely c2 (rely c1 rows)"
    using assms(1,3) by (simp_all add: FailJob_def Fail_def g Let_def FailClaimedJob_def exec_Done update_or_cases held_def respondLeaseLost_def)
qed

text \<open>
  C8. The pull protocol answers by the lease alone. When the database answers, a heartbeat, a completion
  and a failure report succeed with 200 exactly when the job is RUNNING under the presented token at
  the instant of the fenced statement. Otherwise they answer 409 and leave the table as it
  was. A request without a token is refused with 400 before it reaches the database.
\<close>

theorem pull_protocol_fenced:
  assumes "io c1 = Done" "io c2 = Done" "\<exists>r\<in>set (rely c1 rows). r_id r = i" "fr_lease_token req = token"
  shows "if token = ''''
    then {HeartbeatJob svc c1 now now' c i (Inr (token, n)) rows, CompleteJob c1 c i (Inr (token, meta)) rows,
        FailJob svc c1 c2 now u c i (Inr req) rows} = {(RespondError c 400 ''invalid_request'' ''lease_token is required'', rows)}
    else
      http_status (fst (HeartbeatJob svc c1 now now' c i (Inr (token, n)) rows)) = (if held c1 i token rows then 200 else 409) \<and>
      http_status (fst (CompleteJob c1 c i (Inr (token, meta)) rows)) = (if held c1 i token rows then 200 else 409) \<and>
      http_status (fst (FailJob svc c1 c2 now u c i (Inr req) rows)) = (if held c2 i token (rely c1 rows) then 200 else 409) \<and>
      (\<not> held c1 i token rows \<longrightarrow> snd (HeartbeatJob svc c1 now now' c i (Inr (token, n)) rows) = rely c1 rows \<and>
        snd (CompleteJob c1 c i (Inr (token, meta)) rows) = rely c1 rows) \<and>
      (\<not> held c2 i token (rely c1 rows) \<longrightarrow> snd (FailJob svc c1 c2 now u c i (Inr req) rows) = rely c2 (rely c1 rows))"
proof (cases "token = ''''")
  case True
  with assms(4) show ?thesis by (simp add: HeartbeatJob_def CompleteJob_def FailJob_def)
next
  case False
  with assms(4) have "fr_lease_token req \<noteq> ''''" by simp
  from fail_answer [OF this assms(1-3)] heartbeat_answer [OF False assms(1)] complete_answer [OF False assms(1)] False assms(4)
  show ?thesis by simp
qed

theorem pull_protocol_fenced_witness:
  "http_status (fst (CompleteJob (quiet 5) \<lparr>ctx_tenant = '''', ctx_request_id = ''''\<rparr> ''a'' (Inr (''t'', None)) [example_row ''a'' 0])) = 409 \<and>
   http_status (fst (CompleteJob (quiet 5) \<lparr>ctx_tenant = '''', ctx_request_id = ''''\<rparr> ''a'' (Inr (''t'', None)) [claim_set 1 2 ''t'' (example_row ''a'' 0)])) = 200"
proof -
  have h: "held (quiet 5) ''a'' ''t'' [claim_set 1 2 ''t'' (example_row ''a'' 0)]" "\<not> held (quiet 5) ''a'' ''t'' [example_row ''a'' 0]"
    by (simp_all add: held_def holds_lease_def claim_set_def)
  note fenced = pull_protocol_fenced [where ?c1.0 = "quiet 5" and ?c2.0 = "quiet 6" and i = "''a''" and token = "''t''"
      and req = "\<lparr>fr_lease_token = ''t'', fr_error = '''', fr_retry = True\<rparr>" and meta = None and svc = undefined and now = 0 and now' = 0
      and n = 0 and u = 0 and c = "\<lparr>ctx_tenant = '''', ctx_request_id = ''''\<rparr>"]
  from fenced [where rows = "[example_row ''a'' 0]"] fenced [where rows = "[claim_set 1 2 ''t'' (example_row ''a'' 0)]"] h
  show ?thesis by (simp add: claim_set_def)
qed

section \<open>A long poll ends\<close>

lemma time_sub_le_0: "time_sub a b \<le> 0 \<longleftrightarrow> a \<le> b"
  by (auto simp: time_sub_def min_int64_def max_int64_def)

lemma claim_wait_returns:
  assumes "i \<le> n" "deadline \<le> pl_until (polls n) \<or> pl_select (polls n) = Gone"
  shows "\<exists>res. claim_wait svc flt lease deadline polls i rows = Some res"
  using assms(1)
proof (induction "n - i" arbitrary: i rows)
  case 0
  then have "i = n" by simp
  with assms(2) show ?case by (subst claim_wait.simps) (auto simp: time_sub_le_0 split: prod.split sum.split)
next
  case (Suc k)
  then have "k = n - (i + 1)" "i + 1 \<le> n" by auto
  note again = Suc.hyps(1) [OF this]
  show ?case by (subst claim_wait.simps) (auto simp: again [simplified] split: prod.split sum.split)
qed

lemma ticks_reach_deadline:
  assumes "finite {i. pl_select (polls i) = Woken}"
    and "\<forall>i. pl_select (polls i) = Ticked \<longrightarrow>
      pl_until (polls i) + claim_timer (time_sub deadline (pl_until (polls i))) \<le> pl_until (polls (Suc i))"
  shows "\<exists>n. deadline \<le> pl_until (polls n) \<or> pl_select (polls n) = Gone"
proof (rule ccontr)
  assume "\<nexists>n. deadline \<le> pl_until (polls n) \<or> pl_select (polls n) = Gone"
  then have early: "pl_until (polls n) < deadline" and stays: "pl_select (polls n) \<noteq> Gone" for n by (simp_all add: not_le)
  obtain N where N: "\<forall>i\<in>{i. pl_select (polls i) = Woken}. i < N" using assms(1) finite_nat_set_iff_bounded by blast
  have tick: "pl_until (polls i) + claimRetryEvery \<le> pl_until (polls (Suc i))" if "N \<le> i" for i
  proof -
    have "pl_select (polls i) = Ticked" using N stays [of i] that by (cases "pl_select (polls i)") auto
    with assms(2) have "pl_until (polls i) + claim_timer (time_sub deadline (pl_until (polls i))) \<le> pl_until (polls (Suc i))" by blast
    with early [of i] early [of "Suc i"] show ?thesis
      by (auto simp: claim_timer_def time_sub_def claimRetryEvery_def min_int64_def max_int64_def min_def max_def split: if_splits)
  qed
  have "pl_until (polls N) + int k \<le> pl_until (polls (N + k))" for k
  proof (induction k)
    case (Suc k)
    with tick [of "N + k"] show ?case by (simp add: claimRetryEvery_def)
  qed simp
  from this [of "nat (deadline - pl_until (polls N))"] early [of "N + nat (deadline - pl_until (polls N))"] early [of N]
  show False by simp
qed



end
