(* ===== verification/Advisory_Lock.thy ===== *)
theory Advisory_Lock
  imports Go_Strings
begin

text \<open>
  \<^verbatim>\<open>internal/lock/postgres.go\<close>: execution locks on one PostgreSQL session per process, and \<^verbatim>\<open>NoOp\<close>.

  The advisory locks of PostgreSQL are a parameter: a record of the functions the program calls, with
  their documented behaviour as the locale \<open>advisory_server\<close>, which is interpreted on a table of
  locks. A round trip either answers, or its request is lost, or its answer is; the last two are
  errors to the caller. Opening a session is an argument as well: the new session's number, or an
  error.

  Shown here: of any number of processes, in every interleaving, no two hold a resource at once on
  sessions that are alive, and the process's own table excludes it from itself.
\<close>

section \<open>The operations\<close>

record lock =
  lk_resource :: string
  lk_value :: string
  lk_expiry :: time

definition session_lock :: "string \<Rightarrow> lock" where
  "session_lock resource = \<lparr>lk_resource = resource, lk_value = '''', lk_expiry = zero_time\<rparr>"

definition NoOp_Acquire :: "string \<Rightarrow> err + lock" where
  "NoOp_Acquire resource = Inr (session_lock resource)"

text \<open>\<^verbatim>\<open>fnv.New64a\<close> over the bytes of the name, as a \<^verbatim>\<open>bigint\<close>.\<close>

unbundle bit_operations_syntax

definition fnv64a :: "string \<Rightarrow> 64 word" where
  "fnv64a s = fold (\<lambda>c h. (h XOR word_of_nat (of_char c)) * 1099511628211) s 14695981039346656037"

definition advisoryKey :: "string \<Rightarrow> int" where
  "advisoryKey resource = sint (fnv64a resource)"

lemma advisoryKey_eq: "advisoryKey a = advisoryKey b \<longleftrightarrow> fnv64a a = fnv64a b"
  by (auto simp: advisoryKey_def intro: signed_word_eqI)

type_synonym conn_id = nat

record 'd advisory_db =
  pg_try_advisory_lock :: "int \<Rightarrow> conn_id \<Rightarrow> 'd \<Rightarrow> bool \<times> 'd"
  pg_advisory_unlock :: "int \<Rightarrow> conn_id \<Rightarrow> 'd \<Rightarrow> bool \<times> 'd"
  end_session :: "conn_id \<Rightarrow> 'd \<Rightarrow> 'd"

definition round_trip :: "io \<Rightarrow> ('d \<Rightarrow> bool \<times> 'd) \<Rightarrow> 'd \<Rightarrow> (err + bool) \<times> 'd" where
  "round_trip i f d = (case i of
     Done \<Rightarrow> (Inr (fst (f d)), snd (f d))
   | Lost_request m \<Rightarrow> (Inl (Errorf m []), d)
   | Lost_reply m \<Rightarrow> (Inl (Errorf m []), snd (f d)))"

record advisory =
  ad_conn :: "conn_id option"
  ad_held :: "string list"

definition NewAdvisory :: advisory where
  "NewAdvisory = \<lparr>ad_conn = None, ad_held = []\<rparr>"

definition session :: "err + conn_id \<Rightarrow> advisory \<Rightarrow> (err + conn_id) \<times> advisory" where
  "session opened a = (case ad_conn a of
     Some s \<Rightarrow> (Inr s, a)
   | None \<Rightarrow> (case opened of
       Inl e \<Rightarrow> (Inl (Errorf ''lock: acquire advisory lock session'' [e]), a)
     | Inr s \<Rightarrow> (Inr s, a\<lparr>ad_conn := Some s\<rparr>)))"

text \<open>The close runs in a goroutine of its own: the session ends at the server some time later.\<close>

definition discard :: "advisory \<Rightarrow> advisory" where
  "discard a = (case ad_conn a of None \<Rightarrow> a | Some s \<Rightarrow> a\<lparr>ad_conn := None, ad_held := []\<rparr>)"

definition Acquire_advisory :: "'d advisory_db \<Rightarrow> err + conn_id \<Rightarrow> io \<Rightarrow> string \<Rightarrow> advisory \<times> 'd \<Rightarrow> (err + lock) \<times> advisory \<times> 'd" where
  "Acquire_advisory db opened i resource = (\<lambda>(a, d).
     if resource \<in> set (ad_held a) then (Inl (Errorf (''lock: '' @ resource @ '' is already held by this process'') []), a, d)
     else (case session opened a of
         (Inl e, a1) \<Rightarrow> (Inl e, a1, d)
       | (Inr s, a1) \<Rightarrow>
           (case round_trip i (pg_try_advisory_lock db (advisoryKey resource) s) d of
              (Inl e, d1) \<Rightarrow> (Inl (Errorf (''lock: try advisory lock on '' @ resource) [e]), discard a1, d1)
            | (Inr acquired, d1) \<Rightarrow>
                if \<not> acquired then (Inl (Errorf (''lock: '' @ resource @ '' is held by another instance'') []), a1, d1)
                else (Inr (session_lock resource), a1\<lparr>ad_held := resource # ad_held a1\<rparr>, d1))))"

definition Release_advisory :: "'d advisory_db \<Rightarrow> err + conn_id \<Rightarrow> io \<Rightarrow> lock \<Rightarrow> advisory \<times> 'd \<Rightarrow> (err + unit) \<times> advisory \<times> 'd" where
  "Release_advisory db opened i l = (\<lambda>(a, d).
     if lk_resource l \<notin> set (ad_held a) then (Inr (), a, d)
     else (case session opened (a\<lparr>ad_held := removeAll (lk_resource l) (ad_held a)\<rparr>) of
         (Inl e, a1) \<Rightarrow> (Inl e, a1, d)
       | (Inr s, a1) \<Rightarrow>
           (case round_trip i (pg_advisory_unlock db (advisoryKey (lk_resource l)) s) d of
              (Inl e, d1) \<Rightarrow> (Inl (Errorf (''lock: release advisory lock on '' @ lk_resource l) [e]), discard a1, d1)
            | (Inr unlocked, d1) \<Rightarrow> (Inr (), a1, d1))))"

definition Close_advisory :: "advisory \<Rightarrow> advisory" where
  "Close_advisory a = discard a"

section \<open>The server\<close>

text \<open>
  Session-level advisory locks, as documented: a session takes a key unless another session has it, as
  often as it asks; an unlock gives one of them back; the end of a session gives all of them
  back. \<open>cnt d k s\<close> is how often session \<open>s\<close> has the key \<open>k\<close>.
\<close>

locale advisory_server =
  fixes db :: "'d advisory_db" and cnt :: "'d \<Rightarrow> int \<Rightarrow> conn_id \<Rightarrow> nat"
  assumes taken: "s' \<noteq> s \<Longrightarrow> 0 < cnt d k s' \<Longrightarrow> pg_try_advisory_lock db k s d = (False, d)"
    and free: "\<forall>s'. s' \<noteq> s \<longrightarrow> cnt d k s' = 0 \<Longrightarrow> fst (pg_try_advisory_lock db k s d)"
    and gained: "\<forall>s'. s' \<noteq> s \<longrightarrow> cnt d k s' = 0 \<Longrightarrow>
      cnt (snd (pg_try_advisory_lock db k s d)) k' s' = cnt d k' s' + (if k' = k \<and> s' = s then 1 else 0)"
    and unlocked: "cnt (snd (pg_advisory_unlock db k s d)) k' s' = cnt d k' s' - (if k' = k \<and> s' = s then 1 else 0)"
    and ended: "cnt (end_session db s d) k' s' = (if s' = s then 0 else cnt d k' s')"
begin

definition exclusive :: "'d \<Rightarrow> bool" where
  "exclusive d \<longleftrightarrow> (\<forall>k s s'. 0 < cnt d k s \<and> 0 < cnt d k s' \<longrightarrow> s = s')"

lemma exclusive_try:
  assumes "exclusive d"
  shows "exclusive (snd (pg_try_advisory_lock db k s d))"
proof (cases "\<exists>s'. s' \<noteq> s \<and> 0 < cnt d k s'")
  case True
  with taken assms show ?thesis by fastforce
next
  case False
  then have "\<forall>s'. s' \<noteq> s \<longrightarrow> cnt d k s' = 0" by auto
  with gained [OF this] assms show ?thesis by (auto simp: exclusive_def split: if_splits)
qed

lemma exclusive_unlock: "exclusive d \<Longrightarrow> exclusive (snd (pg_advisory_unlock db k s d))"
  unfolding exclusive_def unlocked by (metis diff_is_0_eq' gr_zeroI le0 not_gr_zero zero_diff)

lemma exclusive_end: "exclusive d \<Longrightarrow> exclusive (end_session db s d)"
  by (auto simp: exclusive_def ended)

lemma try_granted:
  assumes "pg_try_advisory_lock db k s d = (True, d')"
  shows "cnt d' k' s' = cnt d k' s' + (if k' = k \<and> s' = s then 1 else 0)"
proof -
  have "\<forall>s'. s' \<noteq> s \<longrightarrow> cnt d k s' = 0" using taken [of _ s d k] assms by fastforce
  from gained [OF this] assms show ?thesis by simp
qed

lemma try_others: "s' \<noteq> s \<Longrightarrow> cnt (snd (pg_try_advisory_lock db k s d)) k' s' = cnt d k' s'"
  using taken [of _ s d k] gained [of s d k k' s'] by (cases "\<forall>s'. s' \<noteq> s \<longrightarrow> cnt d k s' = 0") auto

end

text \<open>A table of locks, one entry per lock taken.\<close>

definition lock_table :: "(int \<times> conn_id) list advisory_db" where
  "lock_table = \<lparr>
     pg_try_advisory_lock = (\<lambda>k s d. if list_ex (\<lambda>(k', s'). k' = k \<and> s' \<noteq> s) d then (False, d) else (True, (k, s) # d)),
     pg_advisory_unlock = (\<lambda>k s d. (List.member d (k, s), remove1 (k, s) d)),
     end_session = (\<lambda>s d. filter (\<lambda>(k', s'). s' \<noteq> s) d)\<rparr>"

definition lock_count :: "(int \<times> conn_id) list \<Rightarrow> int \<Rightarrow> conn_id \<Rightarrow> nat" where
  "lock_count d k s = count_list d (k, s)"

interpretation lock_table: advisory_server lock_table lock_count
proof
  fix d k s s' k'
  show "pg_try_advisory_lock lock_table k s d = (False, d)" if "s' \<noteq> s" "0 < lock_count d k s'"
    using that count_list_0_iff [of d "(k, s')"] by (force simp: lock_table_def lock_count_def list_ex_iff)
  show "fst (pg_try_advisory_lock lock_table k s d)" if "\<forall>s'. s' \<noteq> s \<longrightarrow> lock_count d k s' = 0"
    using that by (auto simp: lock_table_def lock_count_def list_ex_iff count_list_0_iff)
  show "lock_count (snd (pg_try_advisory_lock lock_table k s d)) k' s' = lock_count d k' s' + (if k' = k \<and> s' = s then 1 else 0)"
    if "\<forall>s'. s' \<noteq> s \<longrightarrow> lock_count d k s' = 0"
    using that by (auto simp: lock_table_def lock_count_def list_ex_iff count_list_0_iff)
  show "lock_count (snd (pg_advisory_unlock lock_table k s d)) k' s' = lock_count d k' s' - (if k' = k \<and> s' = s then 1 else 0)"
    by (induction d) (auto simp: lock_table_def lock_count_def)
  show "lock_count (end_session lock_table s d) k' s' = (if s' = s then 0 else lock_count d k' s')"
    by (induction d) (auto simp: lock_table_def lock_count_def)
qed

section \<open>Many processes\<close>

record 'd lock_system =
  procs :: "nat \<Rightarrow> advisory"
  lock_db :: 'd
  dead :: "conn_id set"

text \<open>A session the pool opens is alive and serves no other process.\<close>

definition fresh_session :: "'d lock_system \<Rightarrow> err + conn_id \<Rightarrow> bool" where
  "fresh_session sys opened \<longleftrightarrow> (\<forall>s. opened = Inr s \<longrightarrow> s \<notin> dead sys \<and> (\<forall>q. ad_conn (procs sys q) \<noteq> Some s))"

text \<open>The calls of all processes, in any order and with any fate of their round trips, and the end of any session.\<close>

inductive lock_step :: "'d advisory_db \<Rightarrow> 'd lock_system \<Rightarrow> 'd lock_system \<Rightarrow> bool" for db where
  acquire: "Acquire_advisory db opened i r (procs sys p, lock_db sys) = (res, a, d) \<Longrightarrow> fresh_session sys opened \<Longrightarrow>
    lock_step db sys (sys\<lparr>procs := (procs sys)(p := a), lock_db := d\<rparr>)"
| release: "Release_advisory db opened i l (procs sys p, lock_db sys) = (res', a, d) \<Longrightarrow> fresh_session sys opened \<Longrightarrow>
    lock_step db sys (sys\<lparr>procs := (procs sys)(p := a), lock_db := d\<rparr>)"
| close: "lock_step db sys (sys\<lparr>procs := (procs sys)(p := Close_advisory (procs sys p))\<rparr>)"
| ends: "lock_step db sys (sys\<lparr>lock_db := end_session db s (lock_db sys), dead := insert s (dead sys)\<rparr>)"

text \<open>
  Every lock a process believes to hold is backed by the server as long as its session is alive. Two
  names may share a key, so what the process holds is counted per key.
\<close>

definition backed :: "('d \<Rightarrow> int \<Rightarrow> conn_id \<Rightarrow> nat) \<Rightarrow> 'd \<Rightarrow> advisory \<Rightarrow> conn_id \<Rightarrow> bool" where
  "backed cnt d a s \<longleftrightarrow> (\<forall>k. length (filter (\<lambda>r. advisoryKey r = k) (ad_held a)) \<le> cnt d k s)"

definition lock_inv :: "('d \<Rightarrow> int \<Rightarrow> conn_id \<Rightarrow> nat) \<Rightarrow> 'd lock_system \<Rightarrow> bool" where
  "lock_inv cnt sys \<longleftrightarrow>
     (\<forall>k s s'. 0 < cnt (lock_db sys) k s \<and> 0 < cnt (lock_db sys) k s' \<longrightarrow> s = s') \<and>
     (\<forall>p q s. ad_conn (procs sys p) = Some s \<and> ad_conn (procs sys q) = Some s \<longrightarrow> p = q) \<and>
     (\<forall>p s. ad_conn (procs sys p) = Some s \<and> s \<notin> dead sys \<longrightarrow> backed cnt (lock_db sys) (procs sys p) s) \<and>
     (\<forall>p. distinct (ad_held (procs sys p)) \<and> (ad_conn (procs sys p) = None \<longrightarrow> ad_held (procs sys p) = []))"

context advisory_server
begin

lemma backed_mono: "backed cnt d a s \<Longrightarrow> \<forall>k. cnt d k s \<le> cnt d' k s \<Longrightarrow> backed cnt d' a s"
  unfolding backed_def using le_trans by blast

text \<open>What a call of one process does: to its own table, and to what the server counts.\<close>

definition call_ok :: "'d \<Rightarrow> advisory \<Rightarrow> 'd \<Rightarrow> advisory \<Rightarrow> err + conn_id \<Rightarrow> bool" where
  "call_ok d a d' a' opened \<longleftrightarrow>
     (exclusive d \<longrightarrow> exclusive d') \<and>
     (\<forall>k s. cnt d' k s \<noteq> cnt d k s \<longrightarrow> ad_conn a = Some s \<or> ad_conn a = None \<and> opened = Inr s) \<and>
     (ad_conn a' = ad_conn a \<or> ad_conn a' = None \<or> ad_conn a = None \<and> (\<exists>s. opened = Inr s \<and> ad_conn a' = Some s)) \<and>
     (distinct (ad_held a) \<longrightarrow> distinct (ad_held a')) \<and> ((ad_conn a = None \<longrightarrow> ad_held a = []) \<longrightarrow> ad_conn a' = None \<longrightarrow> ad_held a' = []) \<and>
     (\<forall>s. ad_conn a' = Some s \<and> (ad_conn a = Some s \<and> backed cnt d a s \<or> ad_conn a = None \<and> ad_held a = []) \<longrightarrow>
        distinct (ad_held a) \<longrightarrow> backed cnt d' a' s)"

lemma session_Inr:
  "session opened a = (Inr s, a1) \<Longrightarrow>
     ad_conn a1 = Some s \<and> ad_held a1 = ad_held a \<and> (ad_conn a = Some s \<or> ad_conn a = None \<and> opened = Inr s)"
  by (auto simp: session_def split: option.splits sum.splits)

lemma session_Inl: "session opened a = (Inl e, a1) \<Longrightarrow> a1 = a"
  by (auto simp: session_def split: option.splits sum.splits)

text \<open>A call that has lost touch with the server gives up the session.\<close>

lemma discard_call_ok:
  assumes "exclusive d \<longrightarrow> exclusive d'" "\<forall>k s'. s' \<noteq> s \<longrightarrow> cnt d' k s' = cnt d k s'"
    and "ad_conn a1 = Some s" "ad_conn a = Some s \<or> ad_conn a = None \<and> opened = Inr s"
  shows "call_ok d a d' (discard a1) opened"
  using assms by (auto simp: call_ok_def discard_def)

lemma kept_call_ok:
  assumes "exclusive d \<longrightarrow> exclusive d'" "\<forall>k s'. s' \<noteq> s \<longrightarrow> cnt d' k s' = cnt d k s'"
    and "ad_conn a' = Some s" "ad_conn a = Some s \<or> ad_conn a = None \<and> opened = Inr s"
    and "distinct (ad_held a) \<Longrightarrow> distinct (ad_held a')"
    and "\<And>k. distinct (ad_held a) \<Longrightarrow> length (filter (\<lambda>r. advisoryKey r = k) (ad_held a')) + cnt d k s \<le>
      length (filter (\<lambda>r. advisoryKey r = k) (ad_held a)) + cnt d' k s"
  shows "call_ok d a d' a' opened"
proof -
  have "backed cnt d' a' s" if "backed cnt d a s \<or> ad_held a = []" "distinct (ad_held a)"
    unfolding backed_def
  proof
    fix k
    have "length (filter (\<lambda>r. advisoryKey r = k) (ad_held a)) \<le> cnt d k s" using that(1) by (auto simp: backed_def)
    with assms(6) [OF that(2), of k] show "length (filter (\<lambda>r. advisoryKey r = k) (ad_held a')) \<le> cnt d' k s" by linarith
  qed
  moreover have "t = s" if "cnt d' k t \<noteq> cnt d k t" for k t using assms(2) that by blast
  ultimately show ?thesis using assms(1,3-5) unfolding call_ok_def by (intro conjI allI impI) auto
qed

lemma round_trip_state: "snd (round_trip i f d) = d \<or> snd (round_trip i f d) = snd (f d)"
  by (auto simp: round_trip_def split: io.splits)

lemma round_trip_Inr: "round_trip i f d = (Inr b, d') \<Longrightarrow> f d = (b, d')"
  by (cases "f d") (auto simp: round_trip_def split: io.splits)

lemma Acquire_call_ok:
  assumes "Acquire_advisory db opened i r (a, d) = (res, a', d')"
  shows "call_ok d a d' a' opened"
proof (cases "r \<in> set (ad_held a) \<or> isl (fst (session opened a))")
  case True
  then have "a' = a \<and> d' = d"
    using assms session_Inl [of opened a] by (auto simp: Acquire_advisory_def split: if_splits prod.splits sum.splits)
  then show ?thesis by (auto simp: call_ok_def)
next
  case False
  then obtain s a1 where ses: "session opened a = (Inr s, a1)" and r: "r \<notin> set (ad_held a)"
    by (cases "session opened a"; cases "fst (session opened a)") auto
  note a1 = session_Inr [OF ses]
  let ?take = "pg_try_advisory_lock db (advisoryKey r) s"
  obtain out d1 where trip: "round_trip i ?take d = (out, d1)" by fastforce
  have d1: "exclusive d \<longrightarrow> exclusive d1" "\<forall>k s'. s' \<noteq> s \<longrightarrow> cnt d1 k s' = cnt d k s'"
    using round_trip_state [of i ?take d] trip exclusive_try [of d "advisoryKey r" s] try_others [of _ s "advisoryKey r" d] by auto
  show ?thesis
  proof (cases out)
    case (Inl e)
    with assms ses r trip have "a' = discard a1 \<and> d' = d1" by (auto simp: Acquire_advisory_def)
    with discard_call_ok [OF d1] a1 show ?thesis by auto
  next
    case (Inr granted)
    with trip have answer: "?take d = (granted, d1)" by (auto dest: round_trip_Inr)
    show ?thesis
    proof (cases granted)
      case True
      with assms ses r trip Inr have "a' = a1\<lparr>ad_held := r # ad_held a1\<rparr> \<and> d' = d1" by (auto simp: Acquire_advisory_def)
      with kept_call_ok [OF d1, of a' a opened] try_granted [of "advisoryKey r" s d d1] answer True a1 r show ?thesis by auto
    next
      case False
      have "d1 = d"
      proof (rule ccontr)
        assume "d1 \<noteq> d"
        then have "\<forall>s'. s' \<noteq> s \<longrightarrow> cnt d (advisoryKey r) s' = 0" using taken [of _ s d "advisoryKey r"] answer by fastforce
        from free [OF this] answer False show False by simp
      qed
      moreover have "a' = a1 \<and> d' = d1" using assms ses r trip Inr False by (auto simp: Acquire_advisory_def)
      ultimately show ?thesis using kept_call_ok [OF d1, of a' a opened] a1 by auto
    qed
  qed
qed

lemma filter_removeAll_one:
  "distinct xs \<Longrightarrow> x \<in> set xs \<Longrightarrow> length (filter p (removeAll x xs)) + (if p x then 1 else 0) = length (filter p xs)"
  by (induction xs) (auto simp: removeAll_id)

lemma Release_call_ok:
  assumes "Release_advisory db opened i l (a, d) = (res, a', d')" "ad_conn a = None \<longrightarrow> ad_held a = []"
  shows "call_ok d a d' a' opened"
proof (cases "lk_resource l \<in> set (ad_held a)")
  case False
  with assms show ?thesis by (auto simp: Release_advisory_def call_ok_def)
next
  case True
  let ?r = "lk_resource l" and ?a = "a\<lparr>ad_held := removeAll (lk_resource l) (ad_held a)\<rparr>"
  from True assms(2) obtain s where s: "ad_conn a = Some s" by (cases "ad_conn a") auto
  then have ses: "session opened ?a = (Inr s, ?a)" by (simp add: session_def)
  let ?un = "pg_advisory_unlock db (advisoryKey ?r) s"
  obtain out d1 where trip: "round_trip i ?un d = (out, d1)" by fastforce
  have d1: "exclusive d \<longrightarrow> exclusive d1" "\<forall>k s'. s' \<noteq> s \<longrightarrow> cnt d1 k s' = cnt d k s'"
    using round_trip_state [of i ?un d] trip exclusive_unlock [of d "advisoryKey ?r" s] unlocked [of "advisoryKey ?r" s d] by auto
  show ?thesis
  proof (cases out)
    case (Inl e)
    with assms ses True trip have "a' = discard ?a \<and> d' = d1" by (auto simp: Release_advisory_def)
    with discard_call_ok [OF d1, of ?a a opened] s show ?thesis by auto
  next
    case (Inr b)
    with trip have un: "?un d = (b, d1)" by (auto dest: round_trip_Inr)
    have "a' = ?a \<and> d' = d1" using Inr assms ses True trip by (auto simp: Release_advisory_def)
    moreover have "length (filter (\<lambda>r. advisoryKey r = k) (ad_held ?a)) + cnt d k s \<le>
        length (filter (\<lambda>r. advisoryKey r = k) (ad_held a)) + cnt d1 k s" if "distinct (ad_held a)" for k
    proof -
      have "cnt d1 k s = cnt d k s - (if advisoryKey ?r = k then 1 else 0)"
        using unlocked [of "advisoryKey ?r" s d k s] un by auto
      with filter_removeAll_one [OF that True, of "\<lambda>r. advisoryKey r = k"] show ?thesis by (auto split: if_splits)
    qed
    ultimately show ?thesis using kept_call_ok [OF d1, of a' a opened] s by (auto simp: distinct_removeAll)
  qed
qed

lemma call_keeps_inv:
  assumes inv: "lock_inv cnt sys" and ok: "call_ok (lock_db sys) (procs sys p) d a opened" and fresh: "fresh_session sys opened"
  shows "lock_inv cnt (sys\<lparr>procs := (procs sys)(p := a), lock_db := d\<rparr>)"
proof -
  let ?d = "lock_db sys" and ?a = "procs sys p"
  have I: "exclusive ?d" "\<And>q q' s. ad_conn (procs sys q) = Some s \<Longrightarrow> ad_conn (procs sys q') = Some s \<Longrightarrow> q = q'"
    "\<And>q s. ad_conn (procs sys q) = Some s \<Longrightarrow> s \<notin> dead sys \<Longrightarrow> backed cnt ?d (procs sys q) s"
    "\<And>q. distinct (ad_held (procs sys q))" "\<And>q. ad_conn (procs sys q) = None \<Longrightarrow> ad_held (procs sys q) = []"
    using inv unfolding lock_inv_def exclusive_def by blast+
  have new: "ad_conn a = Some s \<Longrightarrow> ad_conn ?a = Some s \<or> ad_conn ?a = None \<and> opened = Inr s" for s
    using ok unfolding call_ok_def by (metis option.distinct(1) option.inject)
  have other: "ad_conn (procs sys q) \<noteq> ad_conn a" if "q \<noteq> p" "ad_conn a = Some s" for q s
    using new [OF that(2)] I(2) [of q s p] fresh that unfolding fresh_session_def by metis
  have unchanged: "cnt d k s = cnt ?d k s" if "q \<noteq> p" "ad_conn (procs sys q) = Some s" for q k s
    using ok I(2) [of q s p] fresh that unfolding call_ok_def fresh_session_def by metis
  have ex: "exclusive d" using ok I(1) unfolding call_ok_def by blast
  have mine: "backed cnt d a s" if "ad_conn a = Some s" "s \<notin> dead sys" for s
    using ok new [OF that(1)] I(3) [of p s] I(4,5) [of p] that unfolding call_ok_def by blast
  have others: "backed cnt d (procs sys q) s" if "q \<noteq> p" "ad_conn (procs sys q) = Some s" "s \<notin> dead sys" for q s
    using I(3) [OF that(2,3)] unchanged [OF that(1,2)] by (simp add: backed_def)
  have a: "distinct (ad_held a)" "ad_conn a = None \<Longrightarrow> ad_held a = []" using ok I(4,5) [of p] unfolding call_ok_def by blast+
  show ?thesis
    unfolding lock_inv_def
  proof (intro conjI allI impI)
    fix k s s' assume "0 < cnt (lock_db (sys\<lparr>procs := (procs sys)(p := a), lock_db := d\<rparr>)) k s \<and>
      0 < cnt (lock_db (sys\<lparr>procs := (procs sys)(p := a), lock_db := d\<rparr>)) k s'"
    then show "s = s'" using ex by (auto simp: exclusive_def)
  next
    fix q q' s
    assume "ad_conn (procs (sys\<lparr>procs := (procs sys)(p := a), lock_db := d\<rparr>) q) = Some s \<and>
      ad_conn (procs (sys\<lparr>procs := (procs sys)(p := a), lock_db := d\<rparr>) q') = Some s"
    then show "q = q'" using other [of q s] other [of q' s] I(2) [of q s q'] by (auto split: if_splits)
  next
    fix q s
    assume "ad_conn (procs (sys\<lparr>procs := (procs sys)(p := a), lock_db := d\<rparr>) q) = Some s \<and>
      s \<notin> dead (sys\<lparr>procs := (procs sys)(p := a), lock_db := d\<rparr>)"
    then show "backed cnt (lock_db (sys\<lparr>procs := (procs sys)(p := a), lock_db := d\<rparr>))
        (procs (sys\<lparr>procs := (procs sys)(p := a), lock_db := d\<rparr>) q) s"
      using mine others by (auto split: if_splits)
  qed (use a I(4,5) in \<open>auto split: if_splits\<close>)
qed

lemma step_keeps_inv: "lock_step db sys sys' \<Longrightarrow> lock_inv cnt sys \<Longrightarrow> lock_inv cnt sys'"
proof (induction rule: lock_step.induct)
  case (acquire opened i r sys p res a d)
  from call_keeps_inv [OF acquire(3) Acquire_call_ok [OF acquire(1)] acquire(2)] show ?case .
next
  case (release opened i l sys p res a d)
  then have "ad_conn (procs sys p) = None \<longrightarrow> ad_held (procs sys p) = []" by (simp add: lock_inv_def)
  from call_keeps_inv [OF release(3) Release_call_ok [OF release(1) this] release(2)] show ?case .
next
  case (close sys p)
  have "call_ok (lock_db sys) (procs sys p) (lock_db sys) (Close_advisory (procs sys p)) (Inl (Errorf '''' []))"
    by (auto simp: call_ok_def Close_advisory_def discard_def split: option.splits)
  from call_keeps_inv [OF close this] show ?case by (simp add: fresh_session_def)
next
  case (ends sys s)
  then show ?case by (auto simp: lock_inv_def ended backed_def)
qed

lemma exclusive_holders:
  assumes inv: "lock_inv cnt sys" and "r \<in> set (ad_held (procs sys p))" "r \<in> set (ad_held (procs sys q))"
    and "ad_conn (procs sys p) = Some s" "s \<notin> dead sys" "ad_conn (procs sys q) = Some s'" "s' \<notin> dead sys"
  shows "p = q"
proof -
  have held: "0 < cnt (lock_db sys) (advisoryKey r) t" if "r \<in> set (ad_held (procs sys x))" "ad_conn (procs sys x) = Some t" "t \<notin> dead sys" for x t
  proof -
    have "backed cnt (lock_db sys) (procs sys x) t" using inv that by (simp add: lock_inv_def)
    then have "length (filter (\<lambda>y. advisoryKey y = advisoryKey r) (ad_held (procs sys x))) \<le> cnt (lock_db sys) (advisoryKey r) t"
      by (simp add: backed_def)
    moreover have "0 < length (filter (\<lambda>y. advisoryKey y = advisoryKey r) (ad_held (procs sys x)))"
      using that(1) by (auto simp: filter_empty_conv)
    ultimately show ?thesis by linarith
  qed
  have "s = s'" using held [OF assms(2,4,5)] held [OF assms(3,6,7)] inv unfolding lock_inv_def by blast
  with assms(4,6) inv show ?thesis unfolding lock_inv_def by blast
qed

end

definition lock_start :: "'d \<Rightarrow> 'd lock_system" where
  "lock_start d = \<lparr>procs = (\<lambda>p. NewAdvisory), lock_db = d, dead = {}\<rparr>"

text \<open>
  C15. The advisory lock excludes. Starting from a server on which no advisory lock is held, in every
  interleaving of acquisitions, releases and shutdowns by any number of processes, with requests and
  answers lost at any point and sessions ending at any time, no two processes hold the same resource
  while the sessions they hold it on are alive.
\<close>

theorem advisory_excludes:
  assumes "advisory_server db cnt" "\<forall>k s. cnt d k s = 0" "(lock_step db)\<^sup>*\<^sup>* (lock_start d) sys"
    and "r \<in> set (ad_held (procs sys p))" "r \<in> set (ad_held (procs sys q))"
    and "ad_conn (procs sys p) = Some s" "s \<notin> dead sys" "ad_conn (procs sys q) = Some s'" "s' \<notin> dead sys"
  shows "p = q"
proof -
  have "lock_inv cnt (lock_start d)" using assms(2) by (simp add: lock_inv_def lock_start_def NewAdvisory_def)
  with assms(3) have "lock_inv cnt sys"
    by (induction rule: rtranclp_induct) (auto intro: advisory_server.step_keeps_inv [OF assms(1)])
  from advisory_server.exclusive_holders [OF assms(1) this assms(4-9)] show ?thesis .
qed

theorem advisory_excludes_witness:
  "\<exists>sys. (lock_step lock_table)\<^sup>*\<^sup>* (lock_start []) sys \<and> ''a'' \<in> set (ad_held (procs sys 0)) \<and>
     ''b'' \<in> set (ad_held (procs sys 1)) \<and> ''a'' \<notin> set (ad_held (procs sys 1))"
proof -
  let ?k = advisoryKey
  define sys0 :: "(int \<times> conn_id) list lock_system" where "sys0 = lock_start []"
  define sys1 where "sys1 = sys0\<lparr>procs := (procs sys0)(0 := \<lparr>ad_conn = Some 7, ad_held = [''a'']\<rparr>), lock_db := [(?k ''a'', 7 :: conn_id)]\<rparr>"
  have s1: "lock_step lock_table sys0 sys1"
    unfolding sys1_def
    by (rule lock_step.acquire [where opened = "Inr 7" and i = Done and r = "''a''"])
      (simp_all add: sys0_def Acquire_advisory_def lock_start_def NewAdvisory_def session_def round_trip_def lock_table_def fresh_session_def)
  define key where "key = ?k"
  show ?thesis
  proof (cases "key ''a'' = key ''b''")
    case False
    define sys2 where "sys2 = sys1\<lparr>procs := (procs sys1)(1 := \<lparr>ad_conn = Some 8, ad_held = [''b'']\<rparr>), lock_db := [(?k ''b'', 8), (?k ''a'', 7)]\<rparr>"
    have s2: "lock_step lock_table sys1 sys2"
      unfolding sys2_def
      by (rule lock_step.acquire [where opened = "Inr 8" and i = Done and r = "''b''"])
        (use False in \<open>simp_all add: sys1_def sys0_def Acquire_advisory_def lock_start_def NewAdvisory_def session_def round_trip_def lock_table_def fresh_session_def key_def\<close>)
    have run: "(lock_step lock_table)\<^sup>*\<^sup>* (lock_start []) sys2" using s1 s2 unfolding sys0_def by (meson rtranclp.simps)
    have "''a'' \<notin> set (ad_held (procs sys2 1))"
      using advisory_excludes [OF lock_table.advisory_server_axioms _ run, of "''a''" 0 1 7 8]
      by (auto simp: lock_count_def sys2_def sys1_def sys0_def lock_start_def)
    with run show ?thesis by (intro exI [of _ sys2]) (simp add: sys2_def sys1_def)
  next
    case True
    have "fnv64a ''a'' \<noteq> fnv64a ''b''" by (simp add: fnv64a_def)
    then have "key ''a'' \<noteq> key ''b''" by (simp add: key_def advisoryKey_eq)
    with True show ?thesis by simp
  qed
qed

text \<open>
  A release does not check that the lock is still the one its holder took. A round trip that fails
  drops the session and forgets every lock on it; once another worker of the process has taken the
  resource again, on a new session, the release by the first holder gives the second one's lock away.
\<close>

lemma release_of_a_lost_lock:
  assumes "Acquire_advisory lock_table (Inr 1) Done ''a'' (NewAdvisory, []) = (Inr l1, p1, d1)"
    and "Acquire_advisory lock_table (Inr 2) (Lost_request m) ''b'' (p1, d1) = (Inl e, p2, d2)"
    and "Acquire_advisory lock_table (Inr 2) Done ''a'' (p2, end_session lock_table 1 d2) = (Inr l2, p3, d3)"
    and "Release_advisory lock_table (Inr 3) Done l1 (p3, d3) = (res, p4, d4)"
  shows "lock_count d3 (advisoryKey ''a'') 2 = 1 \<and> lock_count d4 (advisoryKey ''a'') 2 = 0 \<and> ad_held p4 = []"
  using assms
  by (auto simp: Acquire_advisory_def Release_advisory_def NewAdvisory_def session_def session_lock_def discard_def round_trip_def
      lock_table_def lock_count_def)

end
