(* ===== verification/Redlock.thy ===== *)
theory Redlock
  imports Advisory_Lock Retry
begin

text \<open>
  \<^verbatim>\<open>internal/lock/redlock.go\<close>: the quorum lock over several Redis servers.

  A Redis server is a parameter: the two commands the program sends, \<^verbatim>\<open>SET NX PX\<close> and the release
  script, as functions of the time at which they run, with their documented behaviour as the locale
  \<open>redis_node\<close>, which is interpreted on a table of values with their expiry. Every command
  is preceded by whatever other clients do (\<open>ne_rely\<close>), and its request or its reply may be lost. The clocks of the
  servers and of the processes run at the same rate; the drift allowance is subtracted as the code
  does. Durations stay within the range of \<^verbatim>\<open>int64\<close>, which a time to live of up to \<open>2 ^ 53\<close> nanoseconds
  (104 days) ensures.

  Shown here: while a lock is valid no other token can win a quorum, for any majority of servers.
\<close>

section \<open>The operations\<close>

record lock_config =
  Quorum :: int
  TTL :: duration
  RetryCount :: int
  RetryDelay :: duration
  DriftFactor :: rat

definition NewManager :: "nat \<Rightarrow> lock_config \<Rightarrow> lock_config" where
  "NewManager clients cfg =
     (let c1 = (if Quorum cfg \<le> 0 then cfg\<lparr>Quorum := int clients div 2 + 1\<rparr> else cfg);
          c2 = (if TTL c1 \<le> 0 then c1\<lparr>TTL := 10 * second\<rparr> else c1);
          c3 = (if RetryCount c2 \<le> 0 then c2\<lparr>RetryCount := 3\<rparr> else c2);
          c4 = (if RetryDelay c3 \<le> 0 then c3\<lparr>RetryDelay := 200 * millisecond\<rparr> else c3)
      in if DriftFactor c4 \<le> 0 then c4\<lparr>DriftFactor := fl64 (1 / 100)\<rparr> else c4)"

definition generateToken :: "byte list option \<Rightarrow> err + string" where
  "generateToken random = (case random of None \<Rightarrow> Inl (Errorf ''rand'' []) | Some b \<Rightarrow> Inr (hex_encode b))"

record 'n redis_ops =
  setnx :: "time \<Rightarrow> string \<Rightarrow> string \<Rightarrow> duration \<Rightarrow> 'n \<Rightarrow> bool \<times> 'n"
  release_script :: "time \<Rightarrow> string \<Rightarrow> string \<Rightarrow> 'n \<Rightarrow> int \<times> 'n"

record 'n node_call =
  ne_io :: io
  ne_at :: time
  ne_rely :: "'n list \<Rightarrow> 'n list"

text \<open>One command to client \<open>i\<close>: the reply, if it arrives, and the servers afterwards.\<close>

definition command :: "'n node_call \<Rightarrow> nat \<Rightarrow> ('n \<Rightarrow> 'a \<times> 'n) \<Rightarrow> 'n list \<Rightarrow> 'a option \<times> 'n list" where
  "command c i f ns0 =
     (let ns = ne_rely c ns0; (x, n) = f (ns ! i) in
      case ne_io c of Done \<Rightarrow> (Some x, ns[i := n])
      | Lost_request m \<Rightarrow> (None, ns)
      | Lost_reply m \<Rightarrow> (None, ns[i := n]))"

primrec set_all :: "'n redis_ops \<Rightarrow> (nat \<Rightarrow> 'n node_call) \<Rightarrow> string \<Rightarrow> string \<Rightarrow> duration \<Rightarrow> nat list \<Rightarrow> 'n list \<Rightarrow> nat \<times> 'n list" where
  "set_all ops env resource v ttl [] ns = (0, ns)"
| "set_all ops env resource v ttl (i # is) ns =
     (let (ok, ns1) = command (env i) i (setnx ops (ne_at (env i)) resource v ttl) ns;
          (acquired, ns2) = set_all ops env resource v ttl is ns1
      in (if ok = Some True then acquired + 1 else acquired, ns2))"

primrec release_all :: "'n redis_ops \<Rightarrow> (nat \<Rightarrow> 'n node_call) \<Rightarrow> string \<Rightarrow> string \<Rightarrow> nat list \<Rightarrow> 'n list \<Rightarrow> bool \<times> 'n list" where
  "release_all ops env resource v [] ns = (True, ns)"
| "release_all ops env resource v (i # is) ns =
     (let (ok, ns1) = command (env i) i (release_script ops (ne_at (env i)) resource v) ns;
          (fine, ns2) = release_all ops env resource v is ns1
      in (ok \<noteq> None \<and> fine, ns2))"

record 'n attempt =
  at_done :: bool
  at_start :: time
  at_since :: time
  at_now :: time
  at_set :: "nat \<Rightarrow> 'n node_call"
  at_release :: "nat \<Rightarrow> 'n node_call"

definition drift :: "lock_config \<Rightarrow> duration" where
  "drift cfg = duration_of_float (fl64 (fl64 (of_int (TTL cfg)) * DriftFactor cfg)) + 2 * millisecond"

definition validity :: "lock_config \<Rightarrow> 'n attempt \<Rightarrow> duration" where
  "validity cfg e = TTL cfg - time_sub (at_since e) (at_start e) - drift cfg"

fun attempts :: "'n redis_ops \<Rightarrow> lock_config \<Rightarrow> (nat \<Rightarrow> 'n attempt) \<Rightarrow> string \<Rightarrow> string \<Rightarrow> nat \<Rightarrow> nat \<Rightarrow> 'n list \<Rightarrow>
    (err + lock) \<times> 'n list" where
  "attempts ops cfg env resource v k 0 ns = (Inl (Errorf (''lock: could not acquire lock on '' @ resource) []), ns)"
| "attempts ops cfg env resource v k (Suc n) ns =
     (let e = env k; clients = [0..<length ns] in
      if 0 < k \<and> at_done e then (Inl (Errorf ''context canceled'' []), ns)
      else let (acquired, ns1) = set_all ops (at_set e) resource v (TTL cfg) clients ns in
        if Quorum cfg \<le> int acquired \<and> 0 < validity cfg e
        then (Inr \<lparr>lk_resource = resource, lk_value = v, lk_expiry = at_now e + validity cfg e\<rparr>, ns1)
        else attempts ops cfg env resource v (k + 1) n (snd (release_all ops (at_release e) resource v clients ns1)))"

definition Acquire_redlock :: "'n redis_ops \<Rightarrow> lock_config \<Rightarrow> (nat \<Rightarrow> 'n attempt) \<Rightarrow> byte list option \<Rightarrow> string \<Rightarrow> 'n list \<Rightarrow>
    (err + lock) \<times> 'n list" where
  "Acquire_redlock ops cfg env random resource ns = (case generateToken random of
     Inl e \<Rightarrow> (Inl (Errorf ''lock: generate token'' [e]), ns)
   | Inr v \<Rightarrow> attempts ops cfg env resource v 0 (nat (RetryCount cfg)) ns)"

definition Release_redlock :: "'n redis_ops \<Rightarrow> (nat \<Rightarrow> 'n node_call) \<Rightarrow> lock \<Rightarrow> 'n list \<Rightarrow> bool \<times> 'n list" where
  "Release_redlock ops env l ns = release_all ops env (lk_resource l) (lk_value l) [0..<length ns] ns"

section \<open>A Redis server\<close>

text \<open>
  \<open>val t r n\<close> is the value the key has at time \<open>t\<close> if no command runs until then: a value only ever
  expires. \<^verbatim>\<open>SET NX PX\<close> sets the key only when it has none, and keeps it for the time to live; the script
  deletes the key only when it has the given value.
\<close>

locale redis_node =
  fixes ops :: "'n redis_ops" and val :: "time \<Rightarrow> string \<Rightarrow> 'n \<Rightarrow> string option"
  assumes expires: "val u r n = Some v \<Longrightarrow> t \<le> u \<Longrightarrow> val t r n = Some v"
    and setnx_taken: "val t r n \<noteq> None \<Longrightarrow> setnx ops t r v ttl n = (False, n)"
    and setnx_keeps: "val t r n = None \<Longrightarrow> u < t + ttl \<Longrightarrow> val u r (snd (setnx ops t r v ttl n)) = Some v"
    and script_other: "val t r n \<noteq> Some v \<Longrightarrow> release_script ops t r v n = (0, n)"
begin

definition until :: "string \<Rightarrow> string \<Rightarrow> time \<Rightarrow> 'n \<Rightarrow> bool" where
  "until r v b n \<longleftrightarrow> (\<forall>t. t < b \<longrightarrow> val t r n = Some v)"

lemma until_mono: "until r v b n \<Longrightarrow> b' \<le> b \<Longrightarrow> until r v b' n"
  by (auto simp: until_def)

lemma setnx_until: "fst (setnx ops t r v ttl n) \<Longrightarrow> until r v (t + ttl) (snd (setnx ops t r v ttl n))"
  using setnx_taken [of t r n v ttl] setnx_keeps [of t r n _ ttl v] by (cases "val t r n") (auto simp: until_def)

lemma until_setnx: "until r v b n \<Longrightarrow> t < b \<Longrightarrow> setnx ops t r w ttl n = (False, n)"
  using setnx_taken by (simp add: until_def)

lemma until_script: "until r v b n \<Longrightarrow> t < b \<Longrightarrow> w \<noteq> v \<Longrightarrow> release_script ops t r w n = (0, n)"
  using script_other by (simp add: until_def)

text \<open>What leaves a token alone on every server that has it.\<close>

definition leaves_token :: "string \<Rightarrow> string \<Rightarrow> time \<Rightarrow> ('n list \<Rightarrow> 'n list) \<Rightarrow> bool" where
  "leaves_token r v b f \<longleftrightarrow> (\<forall>ns. length (f ns) = length ns \<and> (\<forall>i<length ns. until r v b (ns ! i) \<longrightarrow> until r v b (f ns ! i)))"

definition holders :: "string \<Rightarrow> string \<Rightarrow> time \<Rightarrow> 'n list \<Rightarrow> nat set" where
  "holders r v b ns = {i. i < length ns \<and> until r v b (ns ! i)}"

lemma finite_holders [simp]: "finite (holders r v b ns)"
  by (simp add: holders_def)

lemma leaves_token_holders: "leaves_token r v b f \<Longrightarrow> holders r v b ns \<subseteq> holders r v b (f ns) \<and> length (f ns) = length ns"
  by (auto simp: leaves_token_def holders_def)

lemma command_length: "leaves_token r v b (ne_rely c) \<Longrightarrow> length (snd (command c i f ns)) = length ns"
  by (auto simp: command_def leaves_token_def Let_def split: io.splits prod.splits)

text \<open>A command that does not change a server with the token leaves all holders of the token.\<close>

lemma command_holders:
  assumes "leaves_token r v b (ne_rely c)" "\<And>n. until r v b n \<Longrightarrow> until r v b (snd (f n))"
  shows "holders r v b ns \<subseteq> holders r v b (snd (command c i f ns))"
proof -
  have "holders r v b ms \<subseteq> holders r v b (ms[i := snd (f (ms ! i))])" for ms
    using assms(2) by (auto simp: holders_def) (metis nth_list_update_eq nth_list_update_neq)
  from this [of "ne_rely c ns"] leaves_token_holders [OF assms(1), of ns] show ?thesis
    by (auto simp: command_def case_prod_beta Let_def split: io.splits)
qed

lemma setnx_keeps_until: "until r v b n \<Longrightarrow> b \<le> t + ttl \<Longrightarrow> until r v b (snd (setnx ops t r v ttl n))"
  using setnx_taken [of t r n v ttl] setnx_until [of t r v ttl n] setnx_keeps [of t r n _ ttl v]
  by (cases "val t r n") (auto simp: until_def)

text \<open>One round of the owner: it keeps what it has, and every success adds a server.\<close>

lemma set_own_holders:
  assumes "\<forall>i\<in>set is. leaves_token r v b (ne_rely (env i)) \<and> b \<le> ne_at (env i) + ttl"
  shows "holders r v b ns \<subseteq> holders r v b (snd (set_all ops env r v ttl is ns)) \<and>
    length (snd (set_all ops env r v ttl is ns)) = length ns"
  using assms
proof (induction "is" arbitrary: ns)
  case (Cons i "is")
  let ?c = "command (env i) i (setnx ops (ne_at (env i)) r v ttl) ns"
  have "holders r v b ns \<subseteq> holders r v b (snd ?c)"
    using Cons.prems setnx_keeps_until by (intro command_holders) auto
  moreover have "length (snd ?c) = length ns" using Cons.prems by (intro command_length) auto
  moreover note Cons.IH [of "snd ?c"] Cons.prems
  ultimately show ?case by (auto simp: case_prod_beta Let_def)
qed simp

lemma set_own_count:
  assumes "\<forall>i\<in>set is. leaves_token r v b (ne_rely (env i)) \<and> b \<le> ne_at (env i) + ttl" "distinct is" "\<forall>i\<in>set is. i < length ns"
  shows "fst (set_all ops env r v ttl is ns) \<le> card (set is \<inter> holders r v b (snd (set_all ops env r v ttl is ns)))"
  using assms
proof (induction "is" arbitrary: ns)
  case (Cons i "is")
  let ?c = "command (env i) i (setnx ops (ne_at (env i)) r v ttl) ns"
  let ?ns = "snd (set_all ops env r v ttl is (snd ?c))"
  have len: "length (snd ?c) = length ns" using Cons.prems by (intro command_length) auto
  have IH: "fst (set_all ops env r v ttl is (snd ?c)) \<le> card (set is \<inter> holders r v b ?ns)"
    using Cons.IH [of "snd ?c"] Cons.prems len by simp
  have kept: "holders r v b (snd ?c) \<subseteq> holders r v b ?ns" using set_own_holders [of "is" r v b env ttl "snd ?c"] Cons.prems by simp
  have "i \<in> holders r v b (snd ?c)" if "fst ?c = Some True"
  proof -
    let ?ms = "ne_rely (env i) ns"
    have "length ?ms = length ns" using Cons.prems(1) by (simp add: leaves_token_def)
    moreover from that have ok: "fst (setnx ops (ne_at (env i)) r v ttl (?ms ! i))"
      and c: "snd ?c = ?ms[i := snd (setnx ops (ne_at (env i)) r v ttl (?ms ! i))]"
      by (auto simp: command_def case_prod_beta Let_def split: io.splits)
    ultimately show ?thesis
      using until_mono [OF setnx_until [OF ok], of b] Cons.prems(1,3) by (simp add: holders_def)
  qed
  with kept have "fst ?c = Some True \<Longrightarrow> insert i (set is \<inter> holders r v b ?ns) = set (i # is) \<inter> holders r v b ?ns" by auto
  moreover have "card (insert i (set is \<inter> holders r v b ?ns)) = Suc (card (set is \<inter> holders r v b ?ns))"
    using Cons.prems(2) by simp
  moreover have "card (set is \<inter> holders r v b ?ns) \<le> card (set (i # is) \<inter> holders r v b ?ns)" by (intro card_mono) auto
  ultimately show ?case using IH by (auto simp: case_prod_beta Let_def)
qed simp

text \<open>A round of anyone else before the token expires: it leaves the holders and wins none of them.\<close>

lemma set_other_holders:
  assumes "\<forall>i\<in>set is. leaves_token r v b (ne_rely (env i)) \<and> ne_at (env i) < b"
  shows "holders r v b ns \<subseteq> holders r v b (snd (set_all ops env r w ttl is ns)) \<and>
    length (snd (set_all ops env r w ttl is ns)) = length ns \<and>
    fst (set_all ops env r w ttl is ns) \<le> length (filter (\<lambda>i. i \<notin> holders r v b ns) is)"
  using assms
proof (induction "is" arbitrary: ns)
  case (Cons i "is")
  let ?c = "command (env i) i (setnx ops (ne_at (env i)) r w ttl) ns"
  have keep: "holders r v b ns \<subseteq> holders r v b (snd ?c)"
    using Cons.prems until_setnx by (intro command_holders) auto
  have len: "length (snd ?c) = length ns" using Cons.prems by (intro command_length) auto
  have "fst ?c \<noteq> Some True" if "i \<in> holders r v b ns"
  proof -
    have "until r v b (ne_rely (env i) ns ! i)" using that Cons.prems(1) by (simp add: leaves_token_def holders_def)
    with until_setnx [of r v b _ "ne_at (env i)" w ttl] Cons.prems(1) show ?thesis
      by (auto simp: command_def case_prod_beta Let_def split: io.splits)
  qed
  moreover have "length (filter (\<lambda>j. j \<notin> holders r v b (snd ?c)) is) \<le> length (filter (\<lambda>j. j \<notin> holders r v b ns) is)"
    using keep by (induction "is") auto
  moreover note Cons.IH [of "snd ?c"] Cons.prems keep len
  ultimately show ?case by (auto simp: case_prod_beta Let_def)
qed simp

lemma release_other_holders:
  assumes "\<forall>i\<in>set is. leaves_token r v b (ne_rely (env i)) \<and> ne_at (env i) < b" "w \<noteq> v"
  shows "holders r v b ns \<subseteq> holders r v b (snd (release_all ops env r w is ns)) \<and>
    length (snd (release_all ops env r w is ns)) = length ns"
  using assms
proof (induction "is" arbitrary: ns)
  case (Cons i "is")
  let ?c = "command (env i) i (release_script ops (ne_at (env i)) r w) ns"
  have "holders r v b ns \<subseteq> holders r v b (snd ?c)"
    using Cons.prems until_script by (intro command_holders) auto
  moreover have "length (snd ?c) = length ns" using Cons.prems by (intro command_length) auto
  moreover note Cons.IH [of "snd ?c"] Cons.prems
  ultimately show ?case by (auto simp: case_prod_beta Let_def)
qed simp

text \<open>While a quorum has the token, every attempt with another one fails.\<close>

lemma attempts_fail:
  assumes "\<forall>k i. leaves_token r v b (ne_rely (at_set (env k) i)) \<and> ne_at (at_set (env k) i) < b"
    and "\<forall>k i. leaves_token r v b (ne_rely (at_release (env k) i)) \<and> ne_at (at_release (env k) i) < b"
    and "w \<noteq> v" "int (length ns) < 2 * Quorum cfg" "Quorum cfg \<le> int (card (holders r v b ns))"
  shows "\<exists>e. fst (attempts ops cfg env r w k n ns) = Inl e"
  using assms(4,5)
proof (induction n arbitrary: k ns)
  case (Suc n)
  let ?clients = "[0..<length ns]"
  let ?s = "set_all ops (at_set (env k)) r w (TTL cfg) ?clients ns"
  let ?t = "snd (release_all ops (at_release (env k)) r w ?clients (snd ?s))"
  note other = set_other_holders [of ?clients r v b "at_set (env k)" ns w "TTL cfg"]
  note rel = release_other_holders [of ?clients r v b "at_release (env k)" w "snd ?s"]
  have s: "holders r v b ns \<subseteq> holders r v b (snd ?s)" "length (snd ?s) = length ns"
    "fst ?s \<le> length (filter (\<lambda>i. i \<notin> holders r v b ns) ?clients)" using other assms(1) by auto
  have t: "holders r v b ns \<subseteq> holders r v b ?t" "length ?t = length ns" using rel assms(2,3) s by auto
  have "length (filter (\<lambda>i. i \<notin> holders r v b ns) ?clients) = card ({0..<length ns} - holders r v b ns)"
    by (subst distinct_card [symmetric]) (auto intro: arg_cong [where f = card])
  also have "\<dots> = length ns - card (holders r v b ns)" by (subst card_Diff_subset) (auto simp: holders_def)
  finally have "\<not> Quorum cfg \<le> int (fst ?s)" using s(3) Suc.prems by linarith
  moreover have "Quorum cfg \<le> int (card (holders r v b ?t))"
    using card_mono [OF finite_holders t(1)] Suc.prems(2) by linarith
  ultimately show ?case using Suc.IH [of ?t "k + 1"] Suc.prems(1) t(2) by (auto simp: case_prod_beta Let_def)
qed simp

lemma rounds_length:
  "\<forall>i\<in>set is. leaves_token r v b (ne_rely (env i)) \<Longrightarrow> length (snd (set_all ops env r w ttl is ns)) = length ns"
  "\<forall>i\<in>set is. leaves_token r v b (ne_rely (env i)) \<Longrightarrow> length (snd (release_all ops env r w is ns)) = length ns"
  by (induction "is" arbitrary: ns) (auto simp: case_prod_beta Let_def command_length)

lemma attempts_succeed:
  assumes "attempts ops cfg env r v k n ns = (Inr l, ns')"
    and "\<forall>k i. leaves_token r v b (ne_rely (at_set (env k) i)) \<and> leaves_token r v b (ne_rely (at_release (env k) i))"
  shows "\<exists>j. lk_expiry l = at_now (env j) + validity cfg (env j) \<and> 0 < validity cfg (env j) \<and> length ns' = length ns \<and>
    ((\<forall>i. b \<le> ne_at (at_set (env j) i) + TTL cfg) \<longrightarrow> Quorum cfg \<le> int (card (holders r v b ns')))"
  using assms(1)
proof (induction n arbitrary: k ns)
  case (Suc n)
  let ?clients = "[0..<length ns]"
  let ?s = "set_all ops (at_set (env k)) r v (TTL cfg) ?clients ns"
  let ?t = "snd (release_all ops (at_release (env k)) r v ?clients (snd ?s))"
  have len: "length (snd ?s) = length ns" "length ?t = length ns"
    using rounds_length(1) [of ?clients r v b "at_set (env k)" v "TTL cfg" ns]
      rounds_length(2) [of ?clients r v b "at_release (env k)" v "snd ?s"] assms(2) by auto
  show ?case
  proof (cases "Quorum cfg \<le> int (fst ?s) \<and> 0 < validity cfg (env k) \<and> \<not> (0 < k \<and> at_done (env k))")
    case True
    with Suc.prems have l: "lk_expiry l = at_now (env k) + validity cfg (env k)" "ns' = snd ?s"
      by (auto simp: case_prod_beta Let_def)
    have "Quorum cfg \<le> int (card (holders r v b ns'))" if "\<forall>i. b \<le> ne_at (at_set (env k) i) + TTL cfg"
    proof -
      have "fst ?s \<le> card (set ?clients \<inter> holders r v b (snd ?s))"
        by (rule set_own_count) (use that assms(2) in auto)
      also have "\<dots> \<le> card (holders r v b ns')" unfolding l(2) by (intro card_mono) auto
      finally show ?thesis using True by linarith
    qed
    with l True len show ?thesis by auto
  next
    case False
    with Suc.prems have "attempts ops cfg env r v (k + 1) n ?t = (Inr l, ns')"
      by (auto simp: case_prod_beta Let_def split: if_splits)
    from Suc.IH [OF this] len show ?thesis by auto
  qed
qed simp

text \<open>The validity the code computes ends before the earliest key of the round expires.\<close>

lemma expiry_before_keys:
  assumes "0 < validity cfg e" "at_start e \<le> at_since e" "at_now e - at_since e \<le> drift cfg" "0 \<le> drift cfg" "TTL cfg \<le> max_int64"
  shows "at_now e + validity cfg e \<le> at_start e + TTL cfg"
proof -
  have "time_sub (at_since e) (at_start e) = at_since e - at_start e"
    using assms by (auto simp: validity_def time_sub_def min_int64_def max_int64_def min_def max_def split: if_splits)
  with assms(3) show ?thesis by (simp add: validity_def)
qed

end

definition redis_table :: "(string \<Rightarrow> (string \<times> time) option) redis_ops" where
  "redis_table = \<lparr>
     setnx = (\<lambda>t r v ttl n. case n r of
        Some (w, e) \<Rightarrow> if t < e then (False, n) else (True, n(r := Some (v, t + ttl)))
      | None \<Rightarrow> (True, n(r := Some (v, t + ttl)))),
     release_script = (\<lambda>t r v n. case n r of
        Some (w, e) \<Rightarrow> if t < e \<and> w = v then (1, n(r := None)) else (0, n)
      | None \<Rightarrow> (0, n))\<rparr>"

definition redis_value :: "time \<Rightarrow> string \<Rightarrow> (string \<Rightarrow> (string \<times> time) option) \<Rightarrow> string option" where
  "redis_value t r n = (case n r of Some (v, e) \<Rightarrow> if t < e then Some v else None | None \<Rightarrow> None)"

interpretation redis_table: redis_node redis_table redis_value
  by unfold_locales (auto simp: redis_table_def redis_value_def split: option.splits if_splits)

section \<open>Mutual exclusion\<close>

text \<open>What other clients do between two commands: nothing to the keys that have the token.\<close>

definition leaves_alone_token :: "(time \<Rightarrow> string \<Rightarrow> 'n \<Rightarrow> string option) \<Rightarrow> string \<Rightarrow> string \<Rightarrow> ('n list \<Rightarrow> 'n list) \<Rightarrow> bool" where
  "leaves_alone_token val r v f \<longleftrightarrow> (\<forall>ns. length (f ns) = length ns \<and>
     (\<forall>i<length ns. \<forall>b. (\<forall>t<b. val t r (ns ! i) = Some v) \<longrightarrow> (\<forall>t<b. val t r (f ns ! i) = Some v)))"

text \<open>
  C16. The quorum lock excludes. If one process acquires the lock on a resource, then until the expiry of
  its lock every acquisition with a different token fails, for any number of servers of which
  the quorum is a majority, with any commands lost, however the commands of other clients come in between,
  as long as those leave the holder's keys alone. The readings of the clock are in order, and the last one comes
  no later after the one before it than the drift allowance.
\<close>

theorem redlock_excludes:
  assumes "redis_node ops val" "int (length ns) < 2 * Quorum cfg" "TTL cfg \<le> max_int64" "0 \<le> drift cfg"
    and "Acquire_redlock ops cfg env (Some a) r ns = (Inr l, ns1)"
    and "\<forall>k i. leaves_alone_token val r (hex_encode a) (ne_rely (at_set (env k) i)) \<and>
      leaves_alone_token val r (hex_encode a) (ne_rely (at_release (env k) i))"
    and "\<forall>k i. at_start (env k) \<le> ne_at (at_set (env k) i)"
    and "\<forall>k. at_start (env k) \<le> at_since (env k) \<and> at_now (env k) - at_since (env k) \<le> drift cfg"
    and "leaves_alone_token val r (hex_encode a) between"
    and "\<forall>k i. leaves_alone_token val r (hex_encode a) (ne_rely (at_set (env' k) i)) \<and> ne_at (at_set (env' k) i) < lk_expiry l"
    and "\<forall>k i. leaves_alone_token val r (hex_encode a) (ne_rely (at_release (env' k) i)) \<and> ne_at (at_release (env' k) i) < lk_expiry l"
    and "length a = 16" "length a' = 16" "a \<noteq> a'"
  shows "\<exists>e. fst (Acquire_redlock ops cfg env' (Some a') r (between ns1)) = Inl e"
proof -
  note R = redis_node.leaves_token_def [OF assms(1)] redis_node.until_def [OF assms(1)]
  let ?v = "hex_encode a"
  have leaves: "redis_node.leaves_token val r ?v b f" if "leaves_alone_token val r ?v f" for b f
    using that unfolding R leaves_alone_token_def by blast
  from assms(5) have "attempts ops cfg env r ?v 0 (nat (RetryCount cfg)) ns = (Inr l, ns1)"
    by (simp add: Acquire_redlock_def generateToken_def)
  from redis_node.attempts_succeed [OF assms(1) this, of "lk_expiry l"] leaves assms(6) obtain j where
    j: "lk_expiry l = at_now (env j) + validity cfg (env j)" "0 < validity cfg (env j)" "length ns1 = length ns"
      "(\<forall>i. lk_expiry l \<le> ne_at (at_set (env j) i) + TTL cfg) \<longrightarrow> Quorum cfg \<le> int (card (redis_node.holders val r ?v (lk_expiry l) ns1))"
    by blast
  have "lk_expiry l \<le> at_start (env j) + TTL cfg"
    using redis_node.expiry_before_keys [OF assms(1) j(2)] assms(3,4,8) j(1) by simp
  with assms(7) have "lk_expiry l \<le> ne_at (at_set (env j) i) + TTL cfg" for i by (smt (verit))
  with j(4) have q: "Quorum cfg \<le> int (card (redis_node.holders val r ?v (lk_expiry l) ns1))" by blast
  have b: "redis_node.holders val r ?v (lk_expiry l) ns1 \<subseteq> redis_node.holders val r ?v (lk_expiry l) (between ns1)"
    "length (between ns1) = length ns"
    using redis_node.leaves_token_holders [OF assms(1) leaves [OF assms(9)], of "lk_expiry l" ns1] j(3) by auto
  have "Quorum cfg \<le> int (card (redis_node.holders val r ?v (lk_expiry l) (between ns1)))"
    using card_mono [OF redis_node.finite_holders [OF assms(1)] b(1)] q by linarith
  moreover have "hex_encode a' \<noteq> ?v" using assms(12-14) by (auto simp: hex_encode_inj)
  ultimately show ?thesis
    using redis_node.attempts_fail [OF assms(1), of r ?v "lk_expiry l" env' "hex_encode a'" "between ns1" cfg 0 "nat (RetryCount cfg)"]
      leaves assms(2,10,11) b(2) by (simp add: Acquire_redlock_def generateToken_def)
qed

text \<open>Three servers, and a process that acquires the lock at once.\<close>

definition example_call :: "time \<Rightarrow> 'n node_call" where
  "example_call t = \<lparr>ne_io = Done, ne_at = t, ne_rely = (\<lambda>ns. ns)\<rparr>"

definition example_attempt :: "time \<Rightarrow> 'n attempt" where
  "example_attempt t = \<lparr>at_done = False, at_start = t, at_since = t + 3, at_now = t + 4,
     at_set = (\<lambda>i. example_call (t + 1)), at_release = (\<lambda>i. example_call (t + 2))\<rparr>"

definition example_locks :: lock_config where
  "example_locks = NewManager 3 \<lparr>Quorum = 0, TTL = second, RetryCount = 3, RetryDelay = 0, DriftFactor = 1 / 128\<rparr>"

lemma example_locks_simps [simp]:
  "Quorum example_locks = 2" "TTL example_locks = second" "RetryCount example_locks = 3" "drift example_locks = 9812500"
proof -
  have "fl64 1000000000 = 1000000000" using f64.fl_of_int [of 1000000000] by simp
  moreover have "fl64 7812500 = 7812500" using f64.fl_of_int [of 7812500] by simp
  ultimately show "drift example_locks = 9812500"
    by (simp add: drift_def example_locks_def NewManager_def duration_of_float_def max_int64_def)
qed (simp_all add: example_locks_def NewManager_def)

lemma example_attempt_simps [simp]:
  "at_done (example_attempt t) = False" "at_start (example_attempt t) = t" "at_since (example_attempt t) = t + 3"
  "at_now (example_attempt t) = t + 4" "at_set (example_attempt t) = (\<lambda>i. example_call (t + 1))"
  "at_release (example_attempt t) = (\<lambda>i. example_call (t + 2))" "validity example_locks (example_attempt t) = 990187497"
  by (simp_all add: validity_def example_attempt_def time_sub_def min_int64_def max_int64_def)

theorem redlock_excludes_witness:
  "\<exists>l ns1 e. Acquire_redlock redis_table example_locks (\<lambda>k. example_attempt 0) (Some (replicate 16 1)) ''r'' (replicate 3 (\<lambda>_. None)) = (Inr l, ns1) \<and>
     fst (Acquire_redlock redis_table example_locks (\<lambda>k. example_attempt 500) (Some (replicate 16 2)) ''r'' ns1) = Inl e"
proof -
  let ?env = "\<lambda>k :: nat. example_attempt 0" and ?env' = "\<lambda>k :: nat. example_attempt 500"
  obtain l ns1 where acq: "Acquire_redlock redis_table example_locks ?env (Some (replicate 16 1)) ''r'' (replicate 3 (\<lambda>_. None)) = (Inr l, ns1)"
    and l: "lk_expiry l = 990187501"
    by (simp add: Acquire_redlock_def generateToken_def eval_nat_numeral upt_conv_Cons command_def redis_table_def example_call_def Let_def)
  have alone: "leaves_alone_token redis_value ''r'' v (\<lambda>ns. ns)" for v by (simp add: leaves_alone_token_def)
  have "\<exists>e. fst (Acquire_redlock redis_table example_locks ?env' (Some (replicate 16 2)) ''r'' ns1) = Inl e"
    by (rule redlock_excludes [OF redis_table.redis_node_axioms _ _ _ acq, where between = "\<lambda>ns. ns"])
      (simp_all add: l alone example_call_def max_int64_def)
  with acq show ?thesis by blast
qed

end
