(* ===== verification/Ip_Addr.thy ===== *)
theory Ip_Addr
  imports Go_Strings
begin

text \<open>
  What the webhook executor uses of \<^verbatim>\<open>net/netip\<close>: addresses as their bytes in network order,
  \<^verbatim>\<open>ParseAddr\<close>, and the classifying methods as Go 1.23 has them. All of these look through
  an IPv4 address mapped into IPv6, except \<^verbatim>\<open>IsUnspecified\<close>, which compares with the two values.

  Shown here: parsing only yields addresses of 4 or 16 bytes, and each classification is membership
  in a network given by a prefix.
\<close>

section \<open>Addresses\<close>

datatype ip_addr = V4 "byte list" | V6 "byte list" string

fun wf_addr :: "ip_addr \<Rightarrow> bool" where
  "wf_addr (V4 bs) \<longleftrightarrow> length bs = 4"
| "wf_addr (V6 bs zone) \<longleftrightarrow> length bs = 16"

definition v4_mapped :: "byte list" where
  "v4_mapped = replicate 10 0 @ [255, 255]"

fun Unmap :: "ip_addr \<Rightarrow> ip_addr" where
  "Unmap (V4 bs) = V4 bs"
| "Unmap (V6 bs zone) = (if take 12 bs = v4_mapped then V4 (drop 12 bs) else V6 bs zone)"

text \<open>Leading bits of a byte are read off by division: \<open>unat b div 16\<close> is its upper half.\<close>

definition IsLoopback :: "ip_addr \<Rightarrow> bool" where
  "IsLoopback a = (case Unmap a of V4 bs \<Rightarrow> bs ! 0 = 127 | V6 bs zone \<Rightarrow> bs = replicate 15 0 @ [1])"

definition IsPrivate :: "ip_addr \<Rightarrow> bool" where
  "IsPrivate a = (case Unmap a of
     V4 bs \<Rightarrow> bs ! 0 = 10 \<or> bs ! 0 = 172 \<and> unat (bs ! 1) div 16 = 1 \<or> bs ! 0 = 192 \<and> bs ! 1 = 168
   | V6 bs zone \<Rightarrow> unat (bs ! 0) div 2 = 126)"

definition IsLinkLocalUnicast :: "ip_addr \<Rightarrow> bool" where
  "IsLinkLocalUnicast a = (case Unmap a of
     V4 bs \<Rightarrow> bs ! 0 = 169 \<and> bs ! 1 = 254
   | V6 bs zone \<Rightarrow> bs ! 0 = 0xfe \<and> unat (bs ! 1) div 64 = 2)"

definition IsLinkLocalMulticast :: "ip_addr \<Rightarrow> bool" where
  "IsLinkLocalMulticast a = (case Unmap a of
     V4 bs \<Rightarrow> bs ! 0 = 224 \<and> bs ! 1 = 0 \<and> bs ! 2 = 0
   | V6 bs zone \<Rightarrow> bs ! 0 = 0xff \<and> unat (bs ! 1) mod 16 = 2)"

definition IsMulticast :: "ip_addr \<Rightarrow> bool" where
  "IsMulticast a = (case Unmap a of V4 bs \<Rightarrow> unat (bs ! 0) div 16 = 14 | V6 bs zone \<Rightarrow> bs ! 0 = 0xff)"

definition IsUnspecified :: "ip_addr \<Rightarrow> bool" where
  "IsUnspecified a \<longleftrightarrow> a = V4 (replicate 4 0) \<or> a = V6 (replicate 16 0) ''''"

section \<open>Parsing\<close>

text \<open>An octet: decimal digits without a leading zero, at most 255.\<close>

definition parse_octet :: "string \<Rightarrow> byte option" where
  "parse_octet s =
     (if s = [] \<or> 1 < length s \<and> hd s = CHR ''0'' then None
      else case digits_value 0 s of None \<Rightarrow> None | Some n \<Rightarrow> if n \<le> 255 then Some (word_of_nat n) else None)"

definition parse_ipv4_fields :: "string \<Rightarrow> byte list option" where
  "parse_ipv4_fields s = (case map parse_octet (split_char (CHR ''.'') s) of
     [Some a, Some b, Some c, Some d] \<Rightarrow> Some [a, b, c, d] | _ \<Rightarrow> None)"

definition hex_val :: "char \<Rightarrow> nat option" where
  "hex_val c = (let n = of_char c :: nat in
     if 48 \<le> n \<and> n \<le> 57 then Some (n - 48) else if 97 \<le> n \<and> n \<le> 102 then Some (n - 87)
     else if 65 \<le> n \<and> n \<le> 70 then Some (n - 55) else None)"

text \<open>
  The groups of an IPv6 address from byte \<open>length ip\<close> on, with the position of the ellipsis, if there
  was one: the bytes, the ellipsis and what is left of the text.
\<close>

definition leading_hex :: "string \<Rightarrow> string" where
  "leading_hex s = takeWhile (\<lambda>c. hex_val c \<noteq> None) s"

definition group_bytes :: "string \<Rightarrow> byte list" where
  "group_bytes digits = (let n = foldl (\<lambda>n c. 16 * n + the (hex_val c)) 0 digits in [word_of_nat (n div 256), word_of_nat (n mod 256)])"

function parse_groups :: "string \<Rightarrow> byte list \<Rightarrow> nat option \<Rightarrow> (byte list \<times> nat option \<times> string) option" where
  "parse_groups s ip ellipsis =
     (if 16 \<le> length ip then Some (ip, ellipsis, s)
      else let digits = leading_hex s; rest = drop (length digits) s in
        if digits = [] \<or> 4 < length digits then None
        else if rest \<noteq> [] \<and> hd rest = CHR ''.'' then
          (if ellipsis = None \<and> length ip \<noteq> 12 \<or> 16 < length ip + 4 then None
           else map_option (\<lambda>v4. (ip @ v4, ellipsis, [])) (parse_ipv4_fields s))
        else let ip1 = ip @ group_bytes digits in
          if rest = [] then Some (ip1, ellipsis, [])
          else if hd rest \<noteq> CHR '':'' \<or> length rest = 1 then None
          else if hd (tl rest) = CHR '':'' then
            (if ellipsis \<noteq> None then None
             else if length rest = 2 then Some (ip1, Some (length ip1), [])
             else parse_groups (drop 2 rest) ip1 (Some (length ip1)))
          else parse_groups (tl rest) ip1 ellipsis)"
  by pat_completeness auto
termination
  by (relation "measure (\<lambda>(s, ip, ellipsis). 16 - length ip)") (auto simp: group_bytes_def Let_def)

declare parse_groups.simps [simp del]

text \<open>The ellipsis stands for the bytes that are missing, at least one group.\<close>

definition expand :: "byte list \<Rightarrow> nat option \<Rightarrow> byte list option" where
  "expand ip ellipsis = (case ellipsis of
     None \<Rightarrow> if length ip < 16 then None else Some ip
   | Some e \<Rightarrow> if length ip < 16 then Some (take e ip @ replicate (16 - length ip) 0 @ drop e ip) else None)"

definition finish_ipv6 :: "string \<Rightarrow> (byte list \<times> nat option \<times> string) option \<Rightarrow> ip_addr option" where
  "finish_ipv6 zone r = (case r of
     None \<Rightarrow> None
   | Some (ip, ellipsis, rest) \<Rightarrow> if rest \<noteq> [] then None else map_option (\<lambda>bs. V6 bs zone) (expand ip ellipsis))"

definition parse_zoned :: "string \<Rightarrow> string \<Rightarrow> ip_addr option" where
  "parse_zoned s zone =
     (if has_prefix s ''::'' then
        (if length s = 2 then Some (V6 (replicate 16 0) zone) else finish_ipv6 zone (parse_groups (drop 2 s) [] (Some 0)))
      else finish_ipv6 zone (parse_groups s [] None))"

definition parse_ipv6 :: "string \<Rightarrow> ip_addr option" where
  "parse_ipv6 text =
     (let s = takeWhile (\<lambda>c. c \<noteq> CHR ''%'') text; rest = drop (length s) text in
      if rest = [] then parse_zoned s ''''
      else if tl rest = [] then None
      else parse_zoned s (tl rest))"

text \<open>The first of the three characters decides.\<close>

definition ParseAddr :: "string \<Rightarrow> ip_addr option" where
  "ParseAddr s = (case dropWhile (\<lambda>c. c \<notin> {CHR ''.'', CHR '':'', CHR ''%''}) s of
     [] \<Rightarrow> None
   | c # _ \<Rightarrow> if c = CHR ''.'' then map_option V4 (parse_ipv4_fields s)
              else if c = CHR '':'' then parse_ipv6 s else None)"

lemma parse_ipv4_fields_length: "parse_ipv4_fields s = Some bs \<Longrightarrow> length bs = 4"
  by (auto simp: parse_ipv4_fields_def split: list.splits option.splits)

lemma group_bytes_length [simp]: "length (group_bytes d) = 2"
  by (simp add: group_bytes_def Let_def)

lemma parse_groups_length:
  assumes "parse_groups s ip e = Some (ip', e', rest)" "length ip \<le> 16" "even (length ip)" "\<forall>k. e = Some k \<longrightarrow> k \<le> length ip"
  shows "length ip' \<le> 16 \<and> (\<forall>k. e' = Some k \<longrightarrow> k \<le> length ip')"
  using assms
proof (induction "16 - length ip" arbitrary: s ip e rule: less_induct)
  case less
  show ?case
  proof (cases "length ip = 16")
    case True
    with less.prems show ?thesis by (auto simp: parse_groups.simps [of s])
  next
    case False
    with less.prems(2,3) have room: "length ip + 2 \<le> 16" by presburger
    define digits where "digits = leading_hex s"
    define rs where "rs = drop (length digits) s"
    define ip1 where "ip1 = ip @ group_bytes digits"
    have ip1: "length ip1 = length ip + 2" by (simp add: ip1_def)
    consider "ip' = ip1" "e' = e" | "ip' = ip1" "e' = Some (length ip1)" | v4 where "ip' = ip @ v4" "length v4 = 4" "length ip + 4 \<le> 16" "e' = e"
      | "parse_groups (drop 2 rs) ip1 (Some (length ip1)) = Some (ip', e', rest)" | "parse_groups (tl rs) ip1 e = Some (ip', e', rest)"
      using less.prems(1) room
      by (subst (asm) parse_groups.simps)
        (auto simp: Let_def parse_ipv4_fields_length simp flip: digits_def rs_def ip1_def split: if_splits)
    then show ?thesis
    proof cases
      case 4
      with less.hyps [of ip1 "drop 2 rs" "Some (length ip1)"] less.prems(3) room ip1 show ?thesis by auto
    next
      case 5
      have "\<forall>k. e = Some k \<longrightarrow> k \<le> length ip1" "16 - length ip1 < 16 - length ip" using less.prems(4) ip1 room by auto
      with less.hyps [of ip1 "tl rs" e] 5 less.prems(3) room ip1 show ?thesis by simp
    qed (use room ip1 less.prems(4) in auto)
  qed
qed

lemma expand_length: "expand ip e = Some bs \<Longrightarrow> length ip \<le> 16 \<Longrightarrow> (\<forall>k. e = Some k \<longrightarrow> k \<le> length ip) \<Longrightarrow> length bs = 16"
  by (auto simp: expand_def split: option.splits if_splits)

lemma finish_ipv6_wf:
  assumes "finish_ipv6 zone (parse_groups s [] e) = Some a" "e = None \<or> e = Some 0"
  shows "wf_addr a"
proof -
  from assms(1) obtain ip e' bs where p: "parse_groups s [] e = Some (ip, e', [])" "expand ip e' = Some bs" "a = V6 bs zone"
    by (auto simp: finish_ipv6_def split: option.splits prod.splits if_splits)
  from parse_groups_length [OF p(1)] assms(2) have "length ip \<le> 16" "\<forall>k. e' = Some k \<longrightarrow> k \<le> length ip" by auto
  from expand_length [OF p(2) this] p(3) show ?thesis by simp
qed

lemma parse_zoned_wf: "parse_zoned s zone = Some a \<Longrightarrow> wf_addr a"
  by (auto simp: parse_zoned_def split: if_splits dest: finish_ipv6_wf)

lemma parse_ipv6_wf: "parse_ipv6 s = Some a \<Longrightarrow> wf_addr a"
  by (auto simp: parse_ipv6_def Let_def parse_zoned_wf split: if_splits)

text \<open>Parsing yields well-formed addresses only: four bytes, or sixteen.\<close>

theorem ParseAddr_wf: "ParseAddr s = Some a \<Longrightarrow> wf_addr a"
  by (auto simp: ParseAddr_def parse_ipv6_wf dest: parse_ipv4_fields_length split: list.split_asm if_split_asm)

section \<open>The networks behind the methods\<close>

text \<open>
  A network is a number of leading bits and their value; the address is read as a number. These are
  the networks the documentation of each method names.
\<close>

definition be_value :: "byte list \<Rightarrow> nat" where
  "be_value bs = foldl (\<lambda>n b. 256 * n + unat b) 0 bs"

definition in_net :: "nat \<Rightarrow> nat \<Rightarrow> byte list \<Rightarrow> bool" where
  "in_net net bits bs \<longleftrightarrow> be_value bs div 2 ^ (8 * length bs - bits) = net"

definition nets4 :: "(nat \<times> nat) list" where
  "nets4 = [(127, 8),                       \<comment> \<open>127.0.0.0/8\<close>
            (10, 8),                        \<comment> \<open>10.0.0.0/8\<close>
            (172 * 16 + 1, 12),             \<comment> \<open>172.16.0.0/12\<close>
            (192 * 256 + 168, 16),          \<comment> \<open>192.168.0.0/16\<close>
            (169 * 256 + 254, 16),          \<comment> \<open>169.254.0.0/16\<close>
            (14, 4)]                        \<comment> \<open>224.0.0.0/4\<close>"

definition nets6 :: "(nat \<times> nat) list" where
  "nets6 = [(1, 128),                       \<comment> \<open>::1/128\<close>
            (126, 7),                       \<comment> \<open>fc00::/7\<close>
            (1018, 10),                     \<comment> \<open>fe80::/10\<close>
            (255, 8)]                       \<comment> \<open>ff00::/8\<close>"

fun internal :: "ip_addr \<Rightarrow> bool" where
  "internal (V4 bs) \<longleftrightarrow> list_ex (\<lambda>(net, bits). in_net net bits bs) nets4 \<or> be_value bs = 0"
| "internal (V6 bs zone) \<longleftrightarrow>
     (if take 12 bs = v4_mapped then list_ex (\<lambda>(net, bits). in_net net bits (drop 12 bs)) nets4
      else list_ex (\<lambda>(net, bits). in_net net bits bs) nets6 \<or> be_value bs = 0 \<and> zone = '''')"

lemma be_value_append: "be_value (bs @ cs) = be_value bs * 256 ^ length cs + be_value cs"
proof -
  have "foldl (\<lambda>n b. 256 * n + unat b) k cs = k * 256 ^ length cs + foldl (\<lambda>n b. 256 * n + unat b) 0 cs" for k
  proof (induction cs arbitrary: k)
    case (Cons c cs)
    from Cons.IH [of "256 * k + unat c"] Cons.IH [of "unat c"] show ?case by (simp add: algebra_simps)
  qed simp
  from this [of "be_value bs"] show ?thesis by (simp add: be_value_def)
qed

lemma be_value_Cons: "be_value (b # bs) = unat b * 256 ^ length bs + be_value bs"
proof -
  have "be_value [b] = unat b" by (simp add: be_value_def)
  with be_value_append [of "[b]" bs] show ?thesis by simp
qed

lemma be_value_bound: "be_value bs < 256 ^ length bs"
proof (induction bs)
  case (Cons b bs)
  have "unat b < 256" using unsigned_less [of b] by simp
  then have "(unat b + 1) * 256 ^ length bs \<le> 256 * 256 ^ length bs" by (intro mult_le_mono1) simp
  then have "unat b * 256 ^ length bs + 256 ^ length bs \<le> 256 ^ length (b # bs)" by (simp add: algebra_simps)
  with Cons show ?case unfolding be_value_Cons by linarith
qed (simp add: be_value_def)

lemma be_value_div: "be_value (b # bs) div 256 ^ length bs = unat b"
  using be_value_bound [of bs] by (simp add: be_value_Cons)

lemma be_value_mod: "be_value (b # bs) mod 256 ^ length bs = be_value bs"
  using be_value_bound [of bs] by (simp add: be_value_Cons)

lemma be_value_inj: "length bs = length cs \<Longrightarrow> be_value bs = be_value cs \<Longrightarrow> bs = cs"
proof (induction bs cs rule: list_induct2)
  case (Cons b bs c cs)
  have "unat b = unat c" using be_value_div [of b bs] be_value_div [of c cs] Cons.prems Cons.hyps by metis
  moreover have "be_value bs = be_value cs" using be_value_mod [of b bs] be_value_mod [of c cs] Cons.prems Cons.hyps by metis
  ultimately show ?case using Cons.IH unsigned_word_eqI [of b c] by blast
qed simp

text \<open>A prefix within the first byte, and one within the first two.\<close>

lemma in_net_1:
  assumes "bits \<le> 8"
  shows "in_net net bits (b # bs) \<longleftrightarrow> unat b div 2 ^ (8 - bits) = net"
proof -
  have e: "8 * length (b # bs) - bits = 8 * length bs + (8 - bits)" using assms by simp
  have p: "(2 :: nat) ^ (8 * length bs) = 256 ^ length bs" by (simp add: power_mult)
  show ?thesis unfolding in_net_def e power_add p div_mult2_eq be_value_div ..
qed

lemma in_net_2:
  assumes "bits \<le> 16" "8 \<le> bits"
  shows "in_net net bits (b # c # bs) \<longleftrightarrow> (unat b * 256 + unat c) div 2 ^ (16 - bits) = net"
proof -
  have e: "8 * length (b # c # bs) - bits = 8 * length bs + (16 - bits)" using assms by simp
  have p: "(2 :: nat) ^ (8 * length bs) = 256 ^ length bs" by (simp add: power_mult)
  have "be_value (b # c # bs) = (unat b * 256 + unat c) * 256 ^ length bs + be_value bs" by (simp add: be_value_Cons algebra_simps)
  then have "be_value (b # c # bs) div 256 ^ length bs = unat b * 256 + unat c" using be_value_bound [of bs] by simp
  then show ?thesis unfolding in_net_def e power_add p div_mult2_eq by simp
qed

lemma byte_eq: "unat (c :: byte) = n \<Longrightarrow> b = c \<longleftrightarrow> unat b = n" for b :: byte
  using unsigned_word_eqI [of b c] by auto

lemma byte_eqs:
  fixes b :: byte
  shows "b = 127 \<longleftrightarrow> unat b = 127" "b = 10 \<longleftrightarrow> unat b = 10" "b = 172 \<longleftrightarrow> unat b = 172" "b = 192 \<longleftrightarrow> unat b = 192"
    "b = 168 \<longleftrightarrow> unat b = 168" "b = 169 \<longleftrightarrow> unat b = 169" "b = 254 \<longleftrightarrow> unat b = 254" "b = 255 \<longleftrightarrow> unat b = 255"
    "b = 224 \<longleftrightarrow> unat b = 224"
  by (rule byte_eq, simp)+

lemma be_value_zeros: "be_value (replicate n 0) = 0"
  by (induction n) (simp_all add: be_value_Cons be_value_def)

lemma be_value_0: "be_value bs = 0 \<longleftrightarrow> bs = replicate (length bs) 0"
  using be_value_inj [of bs "replicate (length bs) 0"] be_value_zeros [of "length bs"] by auto

lemma be_value_1: "length bs = 16 \<Longrightarrow> be_value bs = 1 \<longleftrightarrow> bs = replicate 15 0 @ [1]"
proof -
  have "be_value (replicate 15 0 @ [1]) = 1" by (simp add: be_value_append be_value_zeros) (simp add: be_value_def)
  then show "length bs = 16 \<Longrightarrow> be_value bs = 1 \<longleftrightarrow> bs = replicate 15 0 @ [1]"
    using be_value_inj [of bs "replicate 15 0 @ [1]"] by auto
qed

definition nonpublic :: "ip_addr \<Rightarrow> bool" where
  "nonpublic a \<longleftrightarrow> IsLoopback a \<or> IsPrivate a \<or> IsLinkLocalUnicast a \<or> IsLinkLocalMulticast a \<or> IsMulticast a \<or> IsUnspecified a"

lemma digits_eq: "x * m + y = u * m + v \<longleftrightarrow> x = u \<and> y = v" if "y < m" "v < m" for x y u v m :: nat
proof
  assume "x * m + y = u * m + v"
  then have "(x * m + y) div m = (u * m + v) div m" "(x * m + y) mod m = (u * m + v) mod m" by simp_all
  with that show "x = u \<and> y = v" by simp
qed simp

lemma two_bytes:
  fixes b c :: byte
  shows "(unat b * 256 + unat c) div 16 = 172 * 16 + 1 \<longleftrightarrow> unat b = 172 \<and> unat c div 16 = 1"
    "unat b * 256 + unat c = 192 * 256 + 168 \<longleftrightarrow> unat b = 192 \<and> unat c = 168"
    "unat b * 256 + unat c = 169 * 256 + 254 \<longleftrightarrow> unat b = 169 \<and> unat c = 254"
    "(unat b * 256 + unat c) div 64 = 254 * 4 + 2 \<longleftrightarrow> unat b = 254 \<and> unat c div 64 = 2"
proof -
  have c: "unat c < 256" using unsigned_less [of c] by simp
  have "(unat b * 256 + unat c) div 16 = unat b * 16 + unat c div 16" "(unat b * 256 + unat c) div 64 = unat b * 4 + unat c div 64"
    using div_mult_self3 [of 16 "unat b * 16" "unat c"] div_mult_self3 [of 64 "unat b * 4" "unat c"] by (simp_all add: mult.assoc)
  moreover have "unat c div 16 < 16" "unat c div 64 < 4" using c by (simp_all add: less_mult_imp_div_less)
  ultimately show "(unat b * 256 + unat c) div 16 = 172 * 16 + 1 \<longleftrightarrow> unat b = 172 \<and> unat c div 16 = 1"
    "(unat b * 256 + unat c) div 64 = 254 * 4 + 2 \<longleftrightarrow> unat b = 254 \<and> unat c div 64 = 2"
    using digits_eq [of "unat c div 16" 16 1 "unat b" 172] digits_eq [of "unat c div 64" 4 2 "unat b" 254] by presburger+
  show "unat b * 256 + unat c = 192 * 256 + 168 \<longleftrightarrow> unat b = 192 \<and> unat c = 168"
    "unat b * 256 + unat c = 169 * 256 + 254 \<longleftrightarrow> unat b = 169 \<and> unat c = 254"
    using digits_eq [OF c, of 168 "unat b" 192] digits_eq [OF c, of 254 "unat b" 169] by presburger+
qed

lemma nets4_bytes:
  fixes a b c d :: byte
  shows "list_ex (\<lambda>(net, bits). in_net net bits [a, b, c, d]) nets4 \<longleftrightarrow>
     a = 127 \<or> a = 10 \<or> a = 172 \<and> unat b div 16 = 1 \<or> a = 192 \<and> b = 168 \<or> a = 169 \<and> b = 254 \<or> unat a div 16 = 14"
  by (simp add: nets4_def in_net_1 in_net_2 byte_eqs two_bytes [simplified])

lemma nets6_bytes:
  fixes a b :: byte
  assumes "length bs = 14"
  shows "list_ex (\<lambda>(net, bits). in_net net bits (a # b # bs)) nets6 \<longleftrightarrow>
     a # b # bs = replicate 15 0 @ [1] \<or> unat a div 2 = 126 \<or> a = 254 \<and> unat b div 64 = 2 \<or> a = 255"
proof -
  have "in_net 1 128 (a # b # bs) \<longleftrightarrow> a # b # bs = replicate 15 0 @ [1]"
    using be_value_1 [of "a # b # bs"] assms by (simp add: in_net_def)
  then show ?thesis by (simp add: nets6_def in_net_1 in_net_2 byte_eqs two_bytes(4) [simplified] del: replicate.simps append.simps)
qed

lemma methods_v4:
  assumes "Unmap x = V4 [a, b, c, d]"
  shows "nonpublic x \<longleftrightarrow> (a = 127 \<or> a = 10 \<or> a = 172 \<and> unat b div 16 = 1 \<or> a = 192 \<and> b = 168 \<or> a = 169 \<and> b = 254 \<or> unat a div 16 = 14) \<or>
    IsUnspecified x"
proof -
  have "a = 224 \<Longrightarrow> unat a div 16 = 14" by simp
  then show ?thesis
    unfolding nonpublic_def IsLoopback_def IsPrivate_def IsLinkLocalUnicast_def IsLinkLocalMulticast_def IsMulticast_def assms
      ip_addr.case nth_Cons_0 One_nat_def nth_Cons_Suc
    by blast
qed

lemma methods_v6:
  assumes "Unmap x = V6 (a # b # bs) zone"
  shows "nonpublic x \<longleftrightarrow> (a # b # bs = replicate 15 0 @ [1] \<or> unat a div 2 = 126 \<or> a = 254 \<and> unat b div 64 = 2 \<or> a = 255) \<or> IsUnspecified x"
  unfolding nonpublic_def IsLoopback_def IsPrivate_def IsLinkLocalUnicast_def IsLinkLocalMulticast_def IsMulticast_def assms
    ip_addr.case nth_Cons_0 One_nat_def nth_Cons_Suc
  by blast

lemma four_bytes: "length bs = 4 \<Longrightarrow> \<exists>a b c d. bs = [a, b, c, d]"
  by (auto simp: length_Suc_conv numeral_eq_Suc)

text \<open>
  The methods together are membership in a fixed list of networks: for IPv4 the loopback, private,
  link-local and multicast networks and 0.0.0.0, for IPv6 their counterparts, and for an IPv4 address mapped
  into IPv6 the IPv4 networks, but not the unspecified address.
\<close>

theorem nonpublic_networks:
  assumes "wf_addr a"
  shows "nonpublic a \<longleftrightarrow> internal a"
proof (cases a)
  case (V4 bs)
  with assms four_bytes [of bs] obtain b0 b1 b2 b3 where bs: "bs = [b0, b1, b2, b3]" by auto
  have "IsUnspecified a \<longleftrightarrow> be_value bs = 0" using assms by (simp add: V4 IsUnspecified_def be_value_0)
  then show ?thesis using methods_v4 [of a b0 b1 b2 b3] by (simp add: V4 bs nets4_bytes)
next
  case (V6 bs zone)
  with assms have len: "length bs = 16" by simp
  show ?thesis
  proof (cases "take 12 bs = v4_mapped")
    case True
    from len four_bytes [of "drop 12 bs"] obtain b0 b1 b2 b3 where d: "drop 12 bs = [b0, b1, b2, b3]" by auto
    have "last v4_mapped = 255" "last (take 12 (replicate 16 (0 :: byte))) = 0" by (simp_all add: v4_mapped_def)
    with True have "\<not> IsUnspecified a" by (auto simp: V6 IsUnspecified_def simp del: take_replicate)
    then show ?thesis using methods_v4 [of a b0 b1 b2 b3] True by (simp add: V6 d nets4_bytes)
  next
    case False
    from len obtain b0 b1 cs where bs: "bs = b0 # b1 # cs" "length cs = 14" by (auto simp: length_Suc_conv numeral_eq_Suc)
    have "IsUnspecified a \<longleftrightarrow> be_value bs = 0 \<and> zone = ''''" using be_value_0 [of bs] len by (simp add: V6 IsUnspecified_def)
    then show ?thesis
      using methods_v6 [of a b0 b1 cs zone] False nets6_bytes [OF bs(2), of b0 b1] unfolding V6 bs(1) Unmap.simps internal.simps by simp
  qed
qed

end
