(* ===== verification/Webhook.thy ===== *)
theory Webhook
  imports Ip_Addr Models
begin

text \<open>
  \<^verbatim>\<open>internal/webhook/executor.go\<close>: delivering a job as an HTTP request.

  A parsed URL is a record of what the executor reads of it; \<^verbatim>\<open>url.Parse\<close>, the resolver, the rendering of the
  body and the network are arguments. \<open>client_do\<close> is \<^verbatim>\<open>http.Client.Do\<close> as far as redirects go: the answer
  to each request either ends the exchange or asks for another URL, and \<^verbatim>\<open>CheckRedirect\<close> decides. Beside
  its result it returns the URLs it contacted, in order.

  Shown here: only URLs that passed the check are ever contacted, and at most one more than the
  configured number of redirects; which outcomes are retried; and an address that passes although it
  is the local host.
\<close>

section \<open>The checks\<close>

record url =
  u_scheme :: string
  u_user :: bool
  u_hostname :: string

record webhook_config =
  wc_Timeout :: int
  wc_MaxRedirects :: int
  wc_AllowPrivateNetworks :: bool

record webhook_executor =
  allowPrivateNetworks :: bool
  maxRedirects :: int
  client_timeout :: int

text \<open>The executor the server builds: without a client of its own in the configuration.\<close>

definition NewExecutorWithConfig :: "webhook_config \<Rightarrow> webhook_executor" where
  "NewExecutorWithConfig cfg =
     \<lparr>allowPrivateNetworks = wc_AllowPrivateNetworks cfg, maxRedirects = wc_MaxRedirects cfg,
      client_timeout = (if wc_Timeout cfg \<le> 0 then 10 * second else wc_Timeout cfg)\<rparr>"

type_synonym resolver = "string \<Rightarrow> err + ip_addr list"

definition validateAddr :: "webhook_executor \<Rightarrow> ip_addr \<Rightarrow> err option" where
  "validateAddr e addr =
     (if allowPrivateNetworks e then None
      else if IsLoopback addr \<or> IsPrivate addr \<or> IsLinkLocalUnicast addr \<or> IsLinkLocalMulticast addr \<or> IsMulticast addr \<or> IsUnspecified addr
      then Some (Errorf ''address is not public'' []) else None)"

primrec validate_all :: "webhook_executor \<Rightarrow> ip_addr list \<Rightarrow> err option" where
  "validate_all e [] = None"
| "validate_all e (a # as) = (case validateAddr e a of Some er \<Rightarrow> Some er | None \<Rightarrow> validate_all e as)"

definition validateURL :: "webhook_executor \<Rightarrow> resolver \<Rightarrow> url \<Rightarrow> err option" where
  "validateURL e resolve u =
     (if u_scheme u \<noteq> ''http'' \<and> u_scheme u \<noteq> ''https'' then Some (Errorf ''url scheme must be http or https'' [])
      else if u_user u then Some (Errorf ''url userinfo is not allowed'' [])
      else if u_hostname u = '''' then Some (Errorf ''url host is required'' [])
      else if equal_fold_ascii (u_hostname u) ''localhost'' then Some (Errorf ''localhost is not allowed'' [])
      else (case ParseAddr (u_hostname u) of
          Some addr \<Rightarrow> validateAddr e addr
        | None \<Rightarrow> (case resolve (u_hostname u) of
            Inl er \<Rightarrow> Some (Errorf ''resolve host'' [er])
          | Inr addrs \<Rightarrow> if addrs = [] then Some (Errorf ''host resolved to no addresses'' []) else validate_all e addrs)))"

section \<open>The exchange\<close>

datatype answer = Failed err | Final nat string | Redirected url nat string

text \<open>
  \<^verbatim>\<open>CheckRedirect\<close> with \<open>via\<close> requests made so far: \<open>None\<close> to follow, \<open>Some None\<close> for \<^verbatim>\<open>ErrUseLastResponse\<close>, which
  makes the redirect itself the response, and \<open>Some (Some err)\<close> to fail.
\<close>

definition CheckRedirect :: "webhook_executor \<Rightarrow> resolver \<Rightarrow> url \<Rightarrow> nat \<Rightarrow> err option option" where
  "CheckRedirect e resolve u via =
     (if maxRedirects e \<le> int via then Some None
      else case validateURL e resolve u of Some er \<Rightarrow> Some (Some er) | None \<Rightarrow> None)"

function client_do :: "webhook_executor \<Rightarrow> (nat \<Rightarrow> resolver) \<Rightarrow> (nat \<Rightarrow> url \<Rightarrow> answer) \<Rightarrow> nat \<Rightarrow> url \<Rightarrow> (err + nat \<times> string) \<times> url list" where
  "client_do e resolve send made u =
     (case send made u of
        Failed er \<Rightarrow> (Inl er, [u])
      | Final status body \<Rightarrow> (Inr (status, body), [u])
      | Redirected u' status body \<Rightarrow>
          (case CheckRedirect e (resolve (made + 1)) u' (made + 1) of
             Some None \<Rightarrow> (Inr (status, body), [u])
           | Some (Some er) \<Rightarrow> (Inl er, [u])
           | None \<Rightarrow> (case client_do e resolve send (made + 1) u' of (res, us) \<Rightarrow> (res, u # us))))"
  by pat_completeness auto
termination
  by (relation "measure (\<lambda>(e, resolve, send, made, u). nat (maxRedirects e) - made)") (auto simp: CheckRedirect_def split: if_splits)

declare client_do.simps [simp del]

definition meta_value :: "string_map option \<Rightarrow> string \<Rightarrow> string" where
  "meta_value m k = (case m of None \<Rightarrow> '''' | Some xs \<Rightarrow> (case map_of xs k of None \<Rightarrow> '''' | Some v \<Rightarrow> v))"

text \<open>
  \<^verbatim>\<open>strings.ToUpper\<close>, as far as a comparison with ASCII letters goes: outside ASCII, U+017F and U+0131
  have an ASCII letter as their upper case.
\<close>

fun upper_case :: "string \<Rightarrow> string" where
  "upper_case s =
     (if s = [] then []
      else if has_prefix s (chars [197, 191]) then CHR ''S'' # upper_case (drop 2 s)
      else if has_prefix s (chars [196, 177]) then CHR ''I'' # upper_case (drop 2 s)
      else upper_char (hd s) # upper_case (tl s))"

declare upper_case.simps [simp del]

definition no_retry :: "string \<Rightarrow> err" where
  "no_retry m = Errorf m [Sentinel ErrNoRetry]"

text \<open>What the response means for the job.\<close>

definition response_error :: "nat \<Rightarrow> string \<Rightarrow> err option" where
  "response_error status body =
     (if 200 \<le> status \<and> status < 300 then None
      else let m = ''webhook: status '' @ itoa (int status) @ '': '' @ trim_space (take 4096 body) in
        if status = 408 \<or> status = 429 \<or> 500 \<le> status then Some (Errorf m []) else Some (no_retry m))"

record request_body =
  rb_job_id :: string
  rb_task_id :: string
  rb_task_name :: string
  rb_attempt :: int
  rb_payload :: string
  rb_metadata :: "string_map option"

definition requestBody :: "job \<Rightarrow> request_body" where
  "requestBody job =
     \<lparr>rb_job_id = j_id job, rb_task_id = t_id (j_task job), rb_task_name = t_name (j_task job), rb_attempt = j_attempt job,
      rb_payload = t_payload (j_task job), rb_metadata = j_metadata job\<rparr>"

record http_request =
  hr_method :: string
  hr_body :: string
  hr_headers :: "(string \<times> string) list"

text \<open>
  What the handler calls: \<^verbatim>\<open>url.Parse\<close>, the resolver at each of its uses, \<^verbatim>\<open>json.Marshal\<close>, the checks of
  \<^verbatim>\<open>NewRequestWithContext\<close> on the method and the URL, and the network.
\<close>

record web =
  w_parse :: "string \<Rightarrow> err + url"
  w_resolve :: "nat \<Rightarrow> resolver"
  w_marshal :: "request_body \<Rightarrow> err + string"
  w_request :: "string \<Rightarrow> string \<Rightarrow> err option"
  w_send :: "http_request \<Rightarrow> nat \<Rightarrow> url \<Rightarrow> answer"

definition webhook_method :: "job \<Rightarrow> string" where
  "webhook_method job =
     (let m = upper_case (trim_space (meta_value (t_metadata (j_task job)) ''method'')) in if m = '''' then ''POST'' else m)"

definition webhook_url :: "job \<Rightarrow> string" where
  "webhook_url job = trim_space (meta_value (t_metadata (j_task job)) ''url'')"

definition webhook_request :: "job \<Rightarrow> string \<Rightarrow> http_request" where
  "webhook_request job body =
     \<lparr>hr_method = webhook_method job, hr_body = body,
      hr_headers = [(''Content-Type'', ''application/json''), (''User-Agent'', ''Conduit webhook executor''),
        (''X-Conduit-Job-ID'', j_id job), (''X-Conduit-Attempt'', itoa (j_attempt job))]\<rparr>"

definition Handler_webhook :: "webhook_executor \<Rightarrow> web \<Rightarrow> job \<Rightarrow> err option \<times> url list" where
  "Handler_webhook e w job =
     (let targetURL = webhook_url job in
      if targetURL = '''' then (Some (no_retry ''webhook: task.metadata.url is required''), [])
      else case w_parse w targetURL of
        Inl er \<Rightarrow> (Some (Errorf ''webhook: invalid url'' [er, Sentinel ErrNoRetry]), [])
      | Inr u \<Rightarrow>
          (case validateURL e (w_resolve w 0) u of
             Some er \<Rightarrow> (Some (Errorf ''webhook: unsafe url'' [er, Sentinel ErrNoRetry]), [])
           | None \<Rightarrow>
               if webhook_method job \<noteq> ''POST'' \<and> webhook_method job \<noteq> ''PUT'' \<and> webhook_method job \<noteq> ''PATCH''
               then (Some (no_retry ''webhook: unsupported method''), [])
               else (case w_marshal w (requestBody job) of
                   Inl er \<Rightarrow> (Some (Errorf ''webhook: marshal request body'' [er]), [])
                 | Inr body \<Rightarrow> (case w_request w (webhook_method job) targetURL of
                     Some er \<Rightarrow> (Some (Errorf ''webhook: create request'' [er]), [])
                   | None \<Rightarrow> (case client_do e (w_resolve w) (w_send w (webhook_request job body)) 0 u of
                       (Inl er, us) \<Rightarrow> (Some (Errorf ''webhook: request failed'' [er]), us)
                     | (Inr (status, body), us) \<Rightarrow> (response_error status body, us))))))"

section \<open>Only checked URLs are contacted\<close>

text \<open>A URL the executor may contact, by the networks and not by the methods of \<^verbatim>\<open>netip\<close>.\<close>

definition safe_addr :: "webhook_executor \<Rightarrow> ip_addr \<Rightarrow> bool" where
  "safe_addr e a \<longleftrightarrow> allowPrivateNetworks e \<or> \<not> internal a"

definition safe_url :: "webhook_executor \<Rightarrow> resolver \<Rightarrow> url \<Rightarrow> bool" where
  "safe_url e resolve u \<longleftrightarrow>
     u_scheme u \<in> {''http'', ''https''} \<and> \<not> u_user u \<and> u_hostname u \<noteq> '''' \<and> \<not> equal_fold_ascii (u_hostname u) ''localhost'' \<and>
     (case ParseAddr (u_hostname u) of
        Some addr \<Rightarrow> safe_addr e addr
      | None \<Rightarrow> (\<exists>addrs. resolve (u_hostname u) = Inr addrs \<and> addrs \<noteq> [] \<and> list_all (safe_addr e) addrs))"

definition resolver_wf :: "resolver \<Rightarrow> bool" where
  "resolver_wf resolve \<longleftrightarrow> (\<forall>host addrs. resolve host = Inr addrs \<longrightarrow> list_all wf_addr addrs)"

lemma validateAddr_None: "wf_addr a \<Longrightarrow> validateAddr e a = None \<longleftrightarrow> safe_addr e a"
  using nonpublic_networks [of a] by (auto simp: validateAddr_def nonpublic_def safe_addr_def)

lemma validate_all_None: "list_all wf_addr as \<Longrightarrow> validate_all e as = None \<longleftrightarrow> list_all (safe_addr e) as"
  by (induction as) (auto simp: validateAddr_None split: option.splits dest: validateAddr_None [where e = e])

lemma validateURL_safe:
  assumes "resolver_wf resolve"
  shows "validateURL e resolve u = None \<longleftrightarrow> safe_url e resolve u"
proof (cases "ParseAddr (u_hostname u)")
  case None
  show ?thesis
  proof (cases "resolve (u_hostname u)")
    case (Inr addrs)
    with assms have "list_all wf_addr addrs" by (auto simp: resolver_wf_def)
    from validate_all_None [OF this] None Inr show ?thesis by (simp add: validateURL_def safe_url_def)
  qed (use None in \<open>simp add: validateURL_def safe_url_def\<close>)
next
  case (Some addr)
  from validateAddr_None [OF ParseAddr_wf [OF Some]] Some show ?thesis by (simp add: validateURL_def safe_url_def)
qed

lemma client_do_contacts:
  assumes "\<And>n. resolver_wf (resolve n)" "safe_url e (resolve made) u"
  shows "snd (client_do e resolve send made u) \<noteq> [] \<and>
    int (made + length (snd (client_do e resolve send made u))) \<le> max (int made + 1) (maxRedirects e) \<and>
    (\<forall>i < length (snd (client_do e resolve send made u)). safe_url e (resolve (made + i)) (snd (client_do e resolve send made u) ! i))"
  using assms
proof (induction e resolve send made u rule: client_do.induct)
  case (1 e resolve send made u)
  show ?case
  proof (cases "\<exists>u' status body. send made u = Redirected u' status body \<and> CheckRedirect e (resolve (made + 1)) u' (made + 1) = None")
    case True
    then obtain u' status body where sent: "send made u = Redirected u' status body"
      and follow: "CheckRedirect e (resolve (made + 1)) u' (made + 1) = None" by blast
    from follow have room: "int (made + 1) < maxRedirects e" and "validateURL e (resolve (made + 1)) u' = None"
      by (auto simp: CheckRedirect_def split: if_splits option.splits)
    with 1 have safe: "safe_url e (resolve (made + 1)) u'" by (simp add: validateURL_safe)
    obtain res us where rest: "client_do e resolve send (made + 1) u' = (res, us)" by fastforce
    from 1 (1) [OF sent follow] 1 (2) safe rest
    have us: "us \<noteq> []" "int (made + 1 + length us) \<le> max (int (made + 1) + 1) (maxRedirects e)"
      "\<And>i. i < length us \<Longrightarrow> safe_url e (resolve (made + 1 + i)) (us ! i)" by auto
    have "safe_url e (resolve (made + i)) ((u # us) ! i)" if "i < length (u # us)" for i
      using that us (3) [of "i - 1"] 1 (3) by (cases i) simp_all
    moreover have "client_do e resolve send made u = (res, u # us)"
      by (subst client_do.simps) (use sent follow rest in simp)
    ultimately show ?thesis using us (2) room by auto
  next
    case False
    then have "snd (client_do e resolve send made u) = [u]"
      by (subst client_do.simps) (auto split: answer.splits option.splits)
    with 1 (3) show ?thesis by simp
  qed
qed

text \<open>The exchange of a job: of the parsed URL, with the request built from the job.\<close>

definition job_exchange :: "webhook_executor \<Rightarrow> web \<Rightarrow> job \<Rightarrow> (err + nat \<times> string) \<times> url list \<Rightarrow> bool" where
  "job_exchange e w job x \<longleftrightarrow>
     (\<exists>u body. w_parse w (webhook_url job) = Inr u \<and> w_marshal w (requestBody job) = Inr body \<and>
       validateURL e (w_resolve w 0) u = None \<and> webhook_method job \<in> {''POST'', ''PUT'', ''PATCH''} \<and>
       client_do e (w_resolve w) (w_send w (webhook_request job body)) 0 u = x)"

lemma Handler_webhook_cases:
  obtains (refused) er where "Handler_webhook e w job = (Some er, [])"
  | (failed) er us where "job_exchange e w job (Inl er, us)"
      "Handler_webhook e w job = (Some (Errorf ''webhook: request failed'' [er]), us)"
  | (answered) status body us where "job_exchange e w job (Inr (status, body), us)"
      "Handler_webhook e w job = (response_error status body, us)"
proof (cases "\<exists>er. Handler_webhook e w job = (Some er, [])")
  case False
  then obtain u where target: "webhook_url job \<noteq> ''''" "w_parse w (webhook_url job) = Inr u" "validateURL e (w_resolve w 0) u = None"
    by (auto simp: Handler_webhook_def Let_def split: if_splits sum.splits option.splits)
  with False obtain body where sent: "webhook_method job \<in> {''POST'', ''PUT'', ''PATCH''}" "w_marshal w (requestBody job) = Inr body"
      "w_request w (webhook_method job) (webhook_url job) = None"
    by (auto simp: Handler_webhook_def Let_def split: if_splits option.splits sum.splits)
  obtain r us where exchange: "client_do e (w_resolve w) (w_send w (webhook_request job body)) 0 u = (r, us)" by fastforce
  with target sent have "Handler_webhook e w job =
      (case r of Inl er \<Rightarrow> Some (Errorf ''webhook: request failed'' [er]) | Inr (status, body) \<Rightarrow> response_error status body, us)"
    by (auto simp: Handler_webhook_def Let_def split: sum.splits)
  moreover from target sent exchange have "job_exchange e w job (r, us)" by (auto simp: job_exchange_def)
  ultimately show thesis using failed answered by (cases r) auto
qed (use refused in blast)

lemma checked_exchange:
  assumes "\<And>n. resolver_wf (w_resolve w n)" "job_exchange e w job (r, us)"
  shows "length us \<le> max 1 (nat (maxRedirects e)) \<and> us \<noteq> [] \<and> (\<forall>i < length us. safe_url e (w_resolve w i) (us ! i)) \<and>
    webhook_method job \<in> {''POST'', ''PUT'', ''PATCH''}"
proof -
  from assms (2) obtain u body where "validateURL e (w_resolve w 0) u = None" "webhook_method job \<in> {''POST'', ''PUT'', ''PATCH''}"
    "client_do e (w_resolve w) (w_send w (webhook_request job body)) 0 u = (r, us)" by (auto simp: job_exchange_def)
  with client_do_contacts [of "w_resolve w" e 0 u "w_send w (webhook_request job body)"] assms (1) show ?thesis
    by (auto simp: validateURL_safe)
qed


text \<open>
  The job succeeds only on a 2xx answer. It may be tried again after a failed exchange, a 408, a 429 or a
  5xx, and is given up after any other answer.
\<close>

lemma webhook_outcome:
  assumes "Handler_webhook e w job = (res, us)" "us \<noteq> []"
  shows "(\<exists>er. job_exchange e w job (Inl er, us) \<and> res = Some (Errorf ''webhook: request failed'' [er])) \<or>
    (\<exists>status body. job_exchange e w job (Inr (status, body), us) \<and>
      (res = None \<longleftrightarrow> status div 100 = 2) \<and>
      ((\<exists>er. res = Some er \<and> errors_is er ErrNoRetry) \<longleftrightarrow> status < 500 \<and> status div 100 \<noteq> 2 \<and> status \<noteq> 408 \<and> status \<noteq> 429))"
proof (cases rule: Handler_webhook_cases [of e w job])
  case (answered status body us')
  have two: "status div 100 = 2 \<longleftrightarrow> 200 \<le> status \<and> status < 300" by auto
  from answered assms have "res = response_error status body" and us: "us' = us" by simp_all
  then have "res = None \<longleftrightarrow> status div 100 = 2"
    "(\<exists>er. res = Some er \<and> errors_is er ErrNoRetry) \<longleftrightarrow> status < 500 \<and> status div 100 \<noteq> 2 \<and> status \<noteq> 408 \<and> status \<noteq> 429"
    unfolding two by (auto simp: response_error_def Let_def no_retry_def split: if_splits)
  with answered (1) us show ?thesis by blast
qed (use assms in auto)

text \<open>An exchange with a redirect between two public hosts.\<close>

definition example_url :: "string \<Rightarrow> url" where
  "example_url host = \<lparr>u_scheme = ''https'', u_user = False, u_hostname = host\<rparr>"

definition example_web :: web where
  "example_web = \<lparr>w_parse = (\<lambda>s. Inr (example_url s)), w_resolve = (\<lambda>n host. Inr [V4 [93, 184, 216, 34]]), w_marshal = (\<lambda>b. Inr ''{}''),
     w_request = (\<lambda>m u. None), w_send = (\<lambda>req n u. if n = 0 then Redirected (example_url ''b'') 302 '''' else Final 200 ''ok'')\<rparr>"

definition example_hook :: job where
  "example_hook = zero_job\<lparr>j_task := zero_task\<lparr>t_metadata := Some [(''url'', ''a'')]\<rparr>\<rparr>"

definition example_executor :: webhook_executor where
  "example_executor = NewExecutorWithConfig \<lparr>wc_Timeout = 0, wc_MaxRedirects = 2, wc_AllowPrivateNetworks = False\<rparr>"

lemma example_addr: "validateAddr example_executor (V4 [93, 184, 216, 34]) = None"
  by code_simp

lemma example_host: "host \<in> {''a'', ''b''} \<Longrightarrow> validateURL example_executor (w_resolve example_web n) (example_url host) = None"
  using example_addr
  by (auto simp: validateURL_def example_url_def example_web_def ParseAddr_def equal_fold_ascii_def fold_case_ascii to_lower_def lower_char_def)

lemma example_exchange:
  "client_do example_executor (w_resolve example_web) (w_send example_web req) 0 (example_url ''a'') = (Inr (200, ''ok''), [example_url ''a'', example_url ''b''])"
proof -
  have "CheckRedirect example_executor (w_resolve example_web 1) (example_url ''b'') 1 = None"
    using example_host [of "''b''" 1] by (simp add: CheckRedirect_def example_executor_def NewExecutorWithConfig_def)
  moreover have "client_do example_executor (w_resolve example_web) (w_send example_web req) 1 (example_url ''b'') = (Inr (200, ''ok''), [example_url ''b''])"
    by (subst client_do.simps) (simp add: example_web_def)
  moreover have "w_send example_web req 0 (example_url ''a'') = Redirected (example_url ''b'') 302 ''''" by (simp add: example_web_def)
  ultimately show ?thesis by (subst client_do.simps) simp
qed

lemma example_delivered: "Handler_webhook example_executor example_web example_hook = (None, [example_url ''a'', example_url ''b''])"
proof -
  have url: "webhook_url example_hook = ''a''"
    by (simp add: webhook_url_def example_hook_def meta_value_def zero_task_def trim_space_plain plain_def)
  have "webhook_method example_hook = ''POST''"
    by (simp add: webhook_method_def example_hook_def meta_value_def zero_task_def trim_space_plain plain_def upper_case.simps)
  moreover have "w_parse example_web ''a'' = Inr (example_url ''a'')" "w_marshal example_web b = Inr ''{}''" "w_request example_web m u = None" for b m u
    by (simp_all add: example_web_def)
  ultimately show ?thesis
    using example_host [of "''a''" 0] example_exchange by (simp add: Handler_webhook_def url response_error_def)
qed

lemma example_resolver: "resolver_wf (w_resolve example_web n)"
  by (simp add: example_web_def resolver_wf_def)


lemma webhook_outcome_witness:
  "\<exists>status body. job_exchange example_executor example_web example_hook (Inr (status, body), [example_url ''a'', example_url ''b'']) \<and> status div 100 = 2"
  using webhook_outcome [OF example_delivered] by blast

text \<open>
  \<^verbatim>\<open>via\<close> counts the requests already made, so a limit of one redirect follows none.
\<close>

lemma one_redirect_follows_none: "maxRedirects e = 1 \<Longrightarrow> snd (client_do e resolve send 0 u) = [u]"
  by (subst client_do.simps) (simp add: CheckRedirect_def split: answer.splits)

section \<open>The unspecified address, mapped\<close>

text \<open>
  0.0.0.0, with which one connects to the local host, is refused, but not when it is written as an IPv4
  address mapped into IPv6, or with a zone: \<^verbatim>\<open>IsUnspecified\<close> compares the address as it is.
\<close>

lemma unspecified_slips_through:
  assumes "\<not> allowPrivateNetworks e"
  shows "map_option (validateAddr e) (ParseAddr ''0.0.0.0'') = Some (Some (Errorf ''address is not public'' []))"
    "map_option (validateAddr e) (ParseAddr ''::ffff:0.0.0.0'') = Some None"
    "map_option (validateAddr e) (ParseAddr ''::%lo'') = Some None"
proof -
  have v4: "parse_ipv4_fields ''0.0.0.0'' = Some [0, 0, 0, 0]" by code_simp
  have hex: "leading_hex ''0.0.0.0'' = ''0''" "leading_hex ''ffff:0.0.0.0'' = ''ffff''" "group_bytes ''ffff'' = [255, 255]"
    by (simp_all add: leading_hex_def group_bytes_def hex_val_def)
  have "parse_groups ''0.0.0.0'' [255, 255] (Some 0) = Some ([255, 255, 0, 0, 0, 0], Some 0, '''')"
    by (subst parse_groups.simps) (simp add: hex v4)
  then have "parse_groups ''ffff:0.0.0.0'' [] (Some 0) = Some ([255, 255, 0, 0, 0, 0], Some 0, '''')"
    by (subst parse_groups.simps) (simp add: hex)
  then have "ParseAddr ''::ffff:0.0.0.0'' = Some (V6 (v4_mapped @ [0, 0, 0, 0]) '''')"
    by (simp add: ParseAddr_def parse_ipv6_def parse_zoned_def has_prefix_def finish_ipv6_def expand_def v4_mapped_def)
  moreover have "ParseAddr ''0.0.0.0'' = Some (V4 [0, 0, 0, 0])" using v4 by (simp add: ParseAddr_def)
  moreover have "ParseAddr ''::%lo'' = Some (V6 (replicate 16 0) ''lo'')" by code_simp
  moreover have "nonpublic (V4 [0, 0, 0, 0]) \<and> \<not> nonpublic (V6 (v4_mapped @ [0, 0, 0, 0]) '''') \<and> \<not> nonpublic (V6 (replicate 16 0) ''lo'')"
    by code_simp
  ultimately show "map_option (validateAddr e) (ParseAddr ''0.0.0.0'') = Some (Some (Errorf ''address is not public'' []))"
    "map_option (validateAddr e) (ParseAddr ''::ffff:0.0.0.0'') = Some None"
    "map_option (validateAddr e) (ParseAddr ''::%lo'') = Some None"
    using assms by (simp_all add: validateAddr_def nonpublic_def)
qed

end
