(* ===== verification/Go_Utf8.thy ===== *)
theory Go_Utf8
  imports Go_Strings
begin

text \<open>
  UTF-8 as Go decodes it: the runes a \<^verbatim>\<open>range\<close> loop over a string yields, and which strings are valid.
\<close>

section \<open>Runes\<close>

abbreviation byte_in :: "nat \<Rightarrow> nat \<Rightarrow> char \<Rightarrow> bool" where
  "byte_in lo hi c \<equiv> lo \<le> (of_char c :: nat) \<and> (of_char c :: nat) \<le> hi"

text \<open>
  The bytes of the rune at the head: a well-formed sequence, or one byte for \<^verbatim>\<open>RuneError\<close>. The ranges of the
  second byte exclude overlong sequences, surrogates and what is beyond U+10FFFF.
\<close>

definition seq2 :: "string \<Rightarrow> bool" where
  "seq2 s \<longleftrightarrow> 2 \<le> length s \<and> byte_in 0xC2 0xDF (s ! 0) \<and> byte_in 0x80 0xBF (s ! 1)"

definition seq3 :: "string \<Rightarrow> bool" where
  "seq3 s \<longleftrightarrow> 3 \<le> length s \<and> byte_in 0xE0 0xEF (s ! 0) \<and>
     byte_in (if of_char (s ! 0) = (0xE0 :: nat) then 0xA0 else 0x80) (if of_char (s ! 0) = (0xED :: nat) then 0x9F else 0xBF) (s ! 1) \<and>
     byte_in 0x80 0xBF (s ! 2)"

definition seq4 :: "string \<Rightarrow> bool" where
  "seq4 s \<longleftrightarrow> 4 \<le> length s \<and> byte_in 0xF0 0xF4 (s ! 0) \<and>
     byte_in (if of_char (s ! 0) = (0xF0 :: nat) then 0x90 else 0x80) (if of_char (s ! 0) = (0xF4 :: nat) then 0x8F else 0xBF) (s ! 1) \<and>
     byte_in 0x80 0xBF (s ! 2) \<and> byte_in 0x80 0xBF (s ! 3)"

definition rune_size :: "string \<Rightarrow> nat" where
  "rune_size s = (if seq2 s then 2 else if seq3 s then 3 else if seq4 s then 4 else 1)"

definition rune_value :: "string \<Rightarrow> nat" where
  "rune_value bs = (case map of_char bs of
     [b0] \<Rightarrow> if b0 < 0x80 then b0 else 0xFFFD
   | [b0, b1] \<Rightarrow> (b0 - 0xC0) * 64 + (b1 - 0x80)
   | [b0, b1, b2] \<Rightarrow> ((b0 - 0xE0) * 64 + (b1 - 0x80)) * 64 + (b2 - 0x80)
   | [b0, b1, b2, b3] \<Rightarrow> (((b0 - 0xF0) * 64 + (b1 - 0x80)) * 64 + (b2 - 0x80)) * 64 + (b3 - 0x80)
   | _ \<Rightarrow> 0xFFFD)"

lemma rune_size_pos [simp]: "0 < rune_size s"
  by (simp add: rune_size_def)

function runes :: "string \<Rightarrow> nat list" where
  "runes s = (if s = [] then [] else rune_value (take (rune_size s) s) # runes (drop (rune_size s) s))"
  by pat_completeness auto
termination
  by (relation "measure length") auto

declare runes.simps [simp del]

text \<open>A byte below 128 is a rune of its own wherever it stands.\<close>

lemma rune_head:
  assumes "c \<in> set (take (rune_size s) s)" "of_char c < (128 :: nat)"
  shows "rune_value (take (rune_size s) s) = of_char c"
proof (cases "rune_size s = 1")
  case True
  with assms show ?thesis by (cases s) (auto simp: rune_value_def)
next
  case False
  have "128 \<le> (of_char (s ! i) :: nat)" if "i < rune_size s" for i
  proof -
    from that have "i = 0 \<or> i = 1 \<or> i = 2 \<or> i = 3" by (auto simp: rune_size_def split: if_splits)
    moreover have "seq2 s \<or> seq3 s \<or> seq4 s" using False by (auto simp: rune_size_def split: if_splits)
    ultimately show ?thesis using that by (auto simp: rune_size_def seq2_def seq3_def seq4_def split: if_splits)
  qed
  moreover from assms obtain i where "i < rune_size s" "c = s ! i" by (auto simp: in_set_conv_nth)
  ultimately have "128 \<le> (of_char c :: nat)" by blast
  with assms show ?thesis by simp
qed

lemma ascii_is_rune: "c \<in> set s \<Longrightarrow> of_char c < (128 :: nat) \<Longrightarrow> of_char c \<in> set (runes s)"
proof (induction s rule: runes.induct)
  case (1 s)
  then have s: "s \<noteq> []" by auto
  from 1 (2) have "c \<in> set (take (rune_size s) s) \<or> c \<in> set (drop (rune_size s) s)" by (metis Un_iff append_take_drop_id set_append)
  then show ?case
  proof
    assume "c \<in> set (take (rune_size s) s)"
    from rune_head [OF this 1 (3)] s show ?thesis by (subst runes.simps) simp
  next
    assume "c \<in> set (drop (rune_size s) s)"
    with 1 s show ?thesis by (subst runes.simps) simp
  qed
qed

text \<open>\<^verbatim>\<open>utf8.ValidString\<close>.\<close>

function valid_utf8 :: "string \<Rightarrow> bool" where
  "valid_utf8 s = (if s = [] then True else (1 < rune_size s \<or> of_char (hd s) < (128 :: nat)) \<and> valid_utf8 (drop (rune_size s) s))"
  by pat_completeness auto
termination
  by (relation "measure length") auto

declare valid_utf8.simps [simp del]

lemma valid_utf8_Nil [simp]: "valid_utf8 []"
  by (simp add: valid_utf8.simps)

lemma valid_utf8_ascii: "list_all (\<lambda>c. of_char c < (128 :: nat)) a \<Longrightarrow> valid_utf8 (a @ b) = valid_utf8 b"
proof (induction a)
  case (Cons c a)
  then have "rune_size (c # a @ b) = 1" by (simp add: rune_size_def seq2_def seq3_def seq4_def)
  with Cons show ?case by (simp add: valid_utf8.simps [of "c # a @ b"])
qed simp

end
