(* ===== verification/Etl.thy ===== *)
theory Etl
  imports Models Go_Utf8
begin

text \<open>
  \<^verbatim>\<open>internal/etl/executor.go\<close>: a \<^verbatim>\<open>sql.etl\<close> job as one \<^verbatim>\<open>INSERT ... SELECT\<close> statement.

  Strings are bytes, as in Go, and \<open>runes\<close> is the decoding a \<^verbatim>\<open>range\<close> loop does. Of the tables of package
  \<^verbatim>\<open>unicode\<close> the Latin-1 part is written out and the rest is an argument, as are \<^verbatim>\<open>json.Unmarshal\<close>, pgx's
  \<^verbatim>\<open>Identifier.Sanitize\<close> and the database.

  Shown here: the scanner skips quoted text whatever it holds and sees every word outside; what
  \<^verbatim>\<open>BuildInsertSQL\<close> returns has the one shape with quoted identifiers and a query free of the
  forbidden words; and two extracts whose quoting PostgreSQL reads otherwise.
\<close>

section \<open>Letters\<close>

text \<open>Letters and digits: Latin-1 as package \<^verbatim>\<open>unicode\<close> has it, the tables beyond as an argument.\<close>

record unicode_tables =
  ut_letter :: "nat \<Rightarrow> bool"
  ut_digit :: "nat \<Rightarrow> bool"

definition latin1_letter :: "nat \<Rightarrow> bool" where
  "latin1_letter r \<longleftrightarrow> 65 \<le> r \<and> r \<le> 90 \<or> 97 \<le> r \<and> r \<le> 122 \<or> r = 0xAA \<or> r = 0xB5 \<or> r = 0xBA \<or>
     0xC0 \<le> r \<and> r \<le> 0xFF \<and> r \<noteq> 0xD7 \<and> r \<noteq> 0xF7"

definition latin1_digit :: "nat \<Rightarrow> bool" where
  "latin1_digit r \<longleftrightarrow> 48 \<le> r \<and> r \<le> 57"

definition IsLetter :: "unicode_tables \<Rightarrow> nat \<Rightarrow> bool" where
  "IsLetter ut r = (if r \<le> 0xFF then latin1_letter r else ut_letter ut r)"

definition IsDigit :: "unicode_tables \<Rightarrow> nat \<Rightarrow> bool" where
  "IsDigit ut r = (if r \<le> 0xFF then latin1_digit r else ut_digit ut r)"

text \<open>
  \<^verbatim>\<open>strings.ToLower\<close>, as far as a comparison with an ASCII text goes: outside ASCII, U+212A and U+0130
  have an ASCII letter as their lower case.
\<close>

fun lower_text :: "string \<Rightarrow> string" where
  "lower_text s =
     (if s = [] then []
      else if has_prefix s (chars [226, 132, 170]) then CHR ''k'' # lower_text (drop 3 s)
      else if has_prefix s (chars [196, 176]) then CHR ''i'' # lower_text (drop 2 s)
      else lower_char (hd s) # lower_text (tl s))"

declare lower_text.simps [simp del]

section \<open>The scanner\<close>

text \<open>The four flags of the scanner, of which at most one is set, and the state with none.\<close>

datatype scan_mode = Outside | inLineComment | inBlockComment | inSingleQuote | inDoubleQuote

abbreviation squote :: char where "squote \<equiv> CHR 0x27"
abbreviation dquote :: char where "dquote \<equiv> CHR 0x22"
abbreviation newline :: char where "newline \<equiv> CHR 0x0A"

definition word_char :: "char \<Rightarrow> bool" where
  "word_char c \<longleftrightarrow> latin1_letter (of_char c) \<or> latin1_digit (of_char c) \<or> c = CHR ''_''"

definition flush :: "string \<Rightarrow> string list" where
  "flush b = (if b = [] then [] else [lower_text b])"

definition next_byte :: "string \<Rightarrow> char" where
  "next_byte rest = (case rest of [] \<Rightarrow> CHR 0x00 | c # _ \<Rightarrow> c)"

function sql_scan :: "scan_mode \<Rightarrow> string \<Rightarrow> string \<Rightarrow> string list" where
  "sql_scan mode b [] = flush b"
| "sql_scan inLineComment b (ch # rest) = sql_scan (if ch = newline then Outside else inLineComment) b rest"
| "sql_scan inBlockComment b (ch # rest) =
     (if ch = CHR ''*'' \<and> next_byte rest = CHR ''/'' then sql_scan Outside b (tl rest) else sql_scan inBlockComment b rest)"
| "sql_scan inSingleQuote b (ch # rest) =
     (if ch = squote then if next_byte rest = squote then sql_scan inSingleQuote b (tl rest) else sql_scan Outside b rest
      else sql_scan inSingleQuote b rest)"
| "sql_scan inDoubleQuote b (ch # rest) =
     (if ch = dquote then if next_byte rest = dquote then sql_scan inDoubleQuote b (tl rest) else sql_scan Outside b rest
      else sql_scan inDoubleQuote b rest)"
| "sql_scan Outside b (ch # rest) =
     (if ch = CHR ''-'' \<and> next_byte rest = CHR ''-'' then flush b @ sql_scan inLineComment [] (tl rest)
      else if ch = CHR ''/'' \<and> next_byte rest = CHR ''*'' then flush b @ sql_scan inBlockComment [] (tl rest)
      else if ch = squote then flush b @ sql_scan inSingleQuote [] rest
      else if ch = dquote then flush b @ sql_scan inDoubleQuote [] rest
      else if word_char ch then sql_scan Outside (b @ [ch]) rest
      else flush b @ sql_scan Outside [] rest)"
  by pat_completeness auto
termination
  by (relation "measure (\<lambda>(mode, b, s). length s)") auto

definition sqlTokens :: "string \<Rightarrow> string list" where
  "sqlTokens sql = sql_scan Outside [] sql"

definition forbiddenSQLToken :: "string \<Rightarrow> bool" where
  "forbiddenSQLToken token \<longleftrightarrow>
     token \<in> set [''insert'', ''update'', ''delete'', ''merge'', ''create'', ''alter'', ''drop'',
       ''truncate'', ''copy'', ''grant'', ''revoke'', ''call'', ''do'', ''vacuum'', ''analyze'']"

definition trim_suffix :: "string \<Rightarrow> string \<Rightarrow> string" where
  "trim_suffix s suf = (if has_suffix s suf then take (length s - length suf) s else s)"

definition normalizeExtractSQL :: "string \<Rightarrow> err + string" where
  "normalizeExtractSQL sql0 =
     (let sql = trim_space (trim_suffix (trim_space sql0) '';''); lowerSQL = lower_text sql; tokens = sqlTokens sql in
      if \<not> has_prefix lowerSQL ''select '' \<and> \<not> has_prefix lowerSQL ''with '' then Inl (Errorf ''must start with SELECT or WITH'' [])
      else if tokens = [] then Inl (Errorf ''empty SQL'' [])
      else if hd tokens \<noteq> ''select'' \<and> hd tokens \<noteq> ''with'' then Inl (Errorf ''must start with SELECT or WITH'' [])
      else (case find forbiddenSQLToken tokens of
          Some token \<Rightarrow> Inl (Errorf (''forbidden token '' @ token) [])
        | None \<Rightarrow> Inr sql))"

section \<open>Identifiers and the statement\<close>

definition validIdentifierPart :: "unicode_tables \<Rightarrow> string \<Rightarrow> bool" where
  "validIdentifierPart ut s = (case runes s of
     [] \<Rightarrow> False
   | r # rs \<Rightarrow> (r = 95 \<or> IsLetter ut r) \<and> list_all (\<lambda>r. r = 95 \<or> IsLetter ut r \<or> IsDigit ut r) rs)"

definition parseIdentifier :: "unicode_tables \<Rightarrow> string \<Rightarrow> err + string list" where
  "parseIdentifier ut s =
     (let parts = split_char (CHR ''.'') s in
      if parts = [] \<or> 3 < length parts then Inl (Errorf ''must have one to three parts'' [])
      else if \<not> list_all (validIdentifierPart ut) parts then Inl (Errorf ''invalid identifier'' [])
      else Inr parts)"

record pipeline_spec =
  ps_ExtractSQL :: string
  ps_TargetTable :: string
  ps_TargetColumns :: "string list"
  ps_WriteMode :: string
  ps_ConflictColumns :: "string list"
  ps_UpdateColumns :: "string list"

definition ParseSpec :: "(string \<Rightarrow> err + pipeline_spec) \<Rightarrow> string \<Rightarrow> err + pipeline_spec" where
  "ParseSpec unmarshal payload =
     (if payload = [] then Inl (Errorf ''task.payload is required'' [])
      else case unmarshal payload of
        Inl er \<Rightarrow> Inl er
      | Inr raw \<Rightarrow>
          (let mode = trim_space (lower_text (ps_WriteMode raw));
               spec = \<lparr>ps_ExtractSQL = trim_space (ps_ExtractSQL raw), ps_TargetTable = trim_space (ps_TargetTable raw),
                 ps_TargetColumns = map trim_space (ps_TargetColumns raw), ps_WriteMode = (if mode = '''' then ''append'' else mode),
                 ps_ConflictColumns = map trim_space (ps_ConflictColumns raw), ps_UpdateColumns = map trim_space (ps_UpdateColumns raw)\<rparr> in
           if ps_ExtractSQL spec = '''' then Inl (Errorf ''extract_sql is required'' [])
           else if ps_TargetTable spec = '''' then Inl (Errorf ''target_table is required'' [])
           else if ps_TargetColumns spec = [] then Inl (Errorf ''target_columns is required'' [])
           else if ps_WriteMode spec \<noteq> ''append'' \<and> ps_WriteMode spec \<noteq> ''upsert'' then Inl (Errorf ''write_mode must be append or upsert'' [])
           else if ps_WriteMode spec = ''upsert'' \<and> ps_ConflictColumns spec = [] then Inl (Errorf ''conflict_columns is required for upsert'' [])
           else Inr spec))"

text \<open>The loop over the target columns and that over the other lists differ in their messages only.\<close>

primrec sanitize_columns :: "unicode_tables \<Rightarrow> (string list \<Rightarrow> string) \<Rightarrow> (string \<Rightarrow> err \<Rightarrow> err) \<Rightarrow> (string \<Rightarrow> err) \<Rightarrow> string list \<Rightarrow> err + string list" where
  "sanitize_columns ut sanitize invalid qualified [] = Inr []"
| "sanitize_columns ut sanitize invalid qualified (column # columns) =
     (case parseIdentifier ut column of
        Inl er \<Rightarrow> Inl (invalid column er)
      | Inr identifier \<Rightarrow>
          if length identifier \<noteq> 1 then Inl (qualified column)
          else (case sanitize_columns ut sanitize invalid qualified columns of
              Inl er \<Rightarrow> Inl er
            | Inr out \<Rightarrow> Inr (sanitize identifier # out)))"

definition sanitizeUnqualifiedIdentifiers :: "unicode_tables \<Rightarrow> (string list \<Rightarrow> string) \<Rightarrow> string list \<Rightarrow> err + string list" where
  "sanitizeUnqualifiedIdentifiers ut sanitize = sanitize_columns ut sanitize (\<lambda>column er. Errorf column [er]) (\<lambda>column. Errorf (column @ '': column must be unqualified'') [])"

definition nonConflictColumns :: "string list \<Rightarrow> string list \<Rightarrow> string list" where
  "nonConflictColumns targetColumns conflictColumns = filter (\<lambda>column. column \<notin> set conflictColumns) targetColumns"

primrec join :: "string \<Rightarrow> string list \<Rightarrow> string" where
  "join sep [] = []"
| "join sep (x # xs) = (if xs = [] then x else x @ sep @ join sep xs)"

definition BuildInsertSQL :: "unicode_tables \<Rightarrow> (string list \<Rightarrow> string) \<Rightarrow> pipeline_spec \<Rightarrow> err + string" where
  "BuildInsertSQL ut sanitize spec =
     (let mode = trim_space (lower_text (ps_WriteMode spec)); writeMode = (if mode = '''' then ''append'' else mode) in
      if writeMode \<noteq> ''append'' \<and> writeMode \<noteq> ''upsert'' then Inl (Errorf ''write_mode must be append or upsert'' [])
      else if writeMode = ''upsert'' \<and> ps_ConflictColumns spec = [] then Inl (Errorf ''conflict_columns is required for upsert'' [])
      else case parseIdentifier ut (ps_TargetTable spec) of
        Inl er \<Rightarrow> Inl (Errorf ''target_table'' [er])
      | Inr targetTable \<Rightarrow>
      (case sanitize_columns ut sanitize (\<lambda>column er. Errorf (''target_columns: '' @ column) [er])
         (\<lambda>column. Errorf ''target column must be unqualified'' []) (ps_TargetColumns spec) of
        Inl er \<Rightarrow> Inl er
      | Inr targetColumns \<Rightarrow>
      (case sanitizeUnqualifiedIdentifiers ut sanitize (ps_ConflictColumns spec) of
        Inl er \<Rightarrow> Inl (Errorf ''conflict_columns'' [er])
      | Inr conflictColumns \<Rightarrow>
      (let updateColumns = (if writeMode = ''upsert'' \<and> ps_UpdateColumns spec = []
             then nonConflictColumns (ps_TargetColumns spec) (ps_ConflictColumns spec) else ps_UpdateColumns spec) in
       case sanitizeUnqualifiedIdentifiers ut sanitize updateColumns of
        Inl er \<Rightarrow> Inl (Errorf ''update_columns'' [er])
      | Inr sanitizedUpdateColumns \<Rightarrow>
       if writeMode = ''upsert'' \<and> sanitizedUpdateColumns = [] then Inl (Errorf ''upsert requires at least one update column'' [])
       else (case normalizeExtractSQL (ps_ExtractSQL spec) of
        Inl er \<Rightarrow> Inl (Errorf ''extract_sql'' [er])
      | Inr extractSQL \<Rightarrow>
        (let statement = ''INSERT INTO '' @ sanitize targetTable @ '' ('' @ join '', '' targetColumns @ '')'' @ [newline] @ extractSQL in
         Inr (if writeMode = ''upsert''
           then statement @ [newline] @ ''ON CONFLICT ('' @ join '', '' conflictColumns @ '') DO UPDATE SET '' @
             join '', '' (map (\<lambda>column. column @ '' = EXCLUDED.'' @ column) sanitizedUpdateColumns)
           else statement)))))))"

text \<open>Beside the result, the statements sent to the database.\<close>

definition Handler_etl :: "unicode_tables \<Rightarrow> (string list \<Rightarrow> string) \<Rightarrow> (string \<Rightarrow> err + pipeline_spec) \<Rightarrow> (string \<Rightarrow> err option) option \<Rightarrow>
    job \<Rightarrow> err option \<times> string list" where
  "Handler_etl ut sanitize unmarshal pool job =
     (case ParseSpec unmarshal (t_payload (j_task job)) of
        Inl er \<Rightarrow> (Some (Errorf ''etl: invalid pipeline spec'' [er, Sentinel ErrNoRetry]), [])
      | Inr spec \<Rightarrow>
     (case BuildInsertSQL ut sanitize spec of
        Inl er \<Rightarrow> (Some (Errorf ''etl: invalid pipeline spec'' [er, Sentinel ErrNoRetry]), [])
      | Inr statement \<Rightarrow>
     (case pool of
        None \<Rightarrow> (Some (Errorf ''etl: postgres pool is required'' []), [])
      | Some db_exec \<Rightarrow> (case db_exec statement of
          Some er \<Rightarrow> (Some (Errorf ''etl: execute pipeline'' [er]), [statement])
        | None \<Rightarrow> (None, [statement])))))"

section \<open>The scanner reads rendered text back\<close>

text \<open>
  SQL text as a list of segments. A literal is rendered with its quotes doubled; what follows a segment must
  not run into it.
\<close>

datatype segment = Word string | Literal string | Quoted string | Line string | Block string | Other char

definition doubled :: "char \<Rightarrow> string \<Rightarrow> string" where
  "doubled q t = concat (map (\<lambda>c. if c = q then [q, q] else [c]) t)"

fun render1 :: "segment \<Rightarrow> string" where
  "render1 (Word w) = w"
| "render1 (Literal t) = [squote] @ doubled squote t @ [squote]"
| "render1 (Quoted t) = [dquote] @ doubled dquote t @ [dquote]"
| "render1 (Line t) = ''--'' @ t @ [newline]"
| "render1 (Block t) = ''/*'' @ t @ ''*/''"
| "render1 (Other c) = [c]"

definition render :: "segment list \<Rightarrow> string" where
  "render segs = concat (map render1 segs)"

fun closes :: "string \<Rightarrow> bool" where
  "closes (c # d # s) \<longleftrightarrow> c = CHR ''*'' \<and> d = CHR ''/'' \<or> closes (d # s)"
| "closes _ \<longleftrightarrow> False"

fun wf_segment :: "segment \<Rightarrow> string \<Rightarrow> bool" where
  "wf_segment (Word w) rest \<longleftrightarrow> w \<noteq> [] \<and> list_all word_char w \<and> \<not> word_char (next_byte rest)"
| "wf_segment (Literal t) rest \<longleftrightarrow> next_byte rest \<noteq> squote"
| "wf_segment (Quoted t) rest \<longleftrightarrow> next_byte rest \<noteq> dquote"
| "wf_segment (Line t) rest \<longleftrightarrow> newline \<notin> set t"
| "wf_segment (Block t) rest \<longleftrightarrow> \<not> closes t"
| "wf_segment (Other c) rest \<longleftrightarrow> \<not> word_char c \<and> c \<noteq> squote \<and> c \<noteq> dquote \<and>
     \<not> (c = CHR ''-'' \<and> next_byte rest = CHR ''-'') \<and> \<not> (c = CHR ''/'' \<and> next_byte rest = CHR ''*'')"

primrec wf_segments :: "segment list \<Rightarrow> bool" where
  "wf_segments [] \<longleftrightarrow> True"
| "wf_segments (s # segs) \<longleftrightarrow> wf_segment s (render segs) \<and> wf_segments segs"

definition words :: "segment list \<Rightarrow> string list" where
  "words segs = concat (map (\<lambda>s. case s of Word w \<Rightarrow> [w] | _ \<Rightarrow> []) segs)"

lemma word_char_plain [simp]:
  "\<not> word_char squote" "\<not> word_char dquote" "\<not> word_char (CHR ''-'')" "\<not> word_char (CHR ''/'')" "\<not> word_char (CHR 0x00)"
  by (simp_all add: word_char_def latin1_letter_def latin1_digit_def)

lemma next_byte_simps [simp]: "next_byte (c # s) = c" "next_byte [] = CHR 0x00"
  by (simp_all add: next_byte_def)

lemma scan_word: "list_all word_char w \<Longrightarrow> sql_scan Outside b (w @ rest) = sql_scan Outside (b @ w) rest"
  by (induction w arbitrary: b) auto

lemma scan_single: "next_byte rest \<noteq> squote \<Longrightarrow> sql_scan inSingleQuote b (doubled squote t @ squote # rest) = sql_scan Outside b rest"
  by (induction t) (auto simp: doubled_def)

lemma scan_double: "next_byte rest \<noteq> dquote \<Longrightarrow> sql_scan inDoubleQuote b (doubled dquote t @ dquote # rest) = sql_scan Outside b rest"
  by (induction t) (auto simp: doubled_def)

lemma scan_line: "newline \<notin> set t \<Longrightarrow> sql_scan inLineComment b (t @ newline # rest) = sql_scan Outside b rest"
  by (induction t) auto

lemma scan_block: "\<not> closes t \<Longrightarrow> sql_scan inBlockComment b (t @ ''*/'' @ rest) = sql_scan Outside b rest"
  by (induction t rule: closes.induct) auto

lemmas scan_segment = scan_single scan_double scan_line scan_block [simplified]

lemma scan_word_end: "\<not> word_char (next_byte rest) \<Longrightarrow> sql_scan Outside b rest = flush b @ sql_scan Outside [] rest"
  by (cases rest) (auto simp: flush_def)

lemma sqlTokens_render: "wf_segments segs \<Longrightarrow> sqlTokens (render segs) = map lower_text (words segs)"
  unfolding sqlTokens_def
proof (induction segs)
  case (Cons s segs)
  then have IH: "sql_scan Outside [] (render segs) = map lower_text (words segs)" by simp
  from Cons.prems have wf: "wf_segment s (render segs)" by simp
  have r: "render (s # segs) = render1 s @ render segs" "words (s # segs) = (case s of Word w \<Rightarrow> [w] | _ \<Rightarrow> []) @ words segs"
    by (simp_all add: render_def words_def)
  show ?case
  proof (cases s)
    case (Word w)
    with wf have "sql_scan Outside [] (w @ render segs) = flush w @ sql_scan Outside [] (render segs)"
      by (simp add: scan_word scan_word_end [of _ w])
    with Word wf IH r show ?thesis by (simp add: flush_def)
  qed (use wf IH r in \<open>auto simp: scan_segment flush_def\<close>)
qed (simp add: render_def words_def flush_def)


section \<open>The statement\<close>

text \<open>\<^verbatim>\<open>Identifier.Sanitize\<close>, as documented, on names without double quotes and NUL bytes: each part quoted, joined by dots.\<close>

definition quote_ident :: "string \<Rightarrow> string" where
  "quote_ident name = [dquote] @ name @ [dquote]"

definition sanitizes :: "(string list \<Rightarrow> string) \<Rightarrow> bool" where
  "sanitizes sanitize \<longleftrightarrow> (\<forall>parts. (\<forall>name\<in>set parts. dquote \<notin> set name \<and> CHR 0x00 \<notin> set name) \<longrightarrow>
     sanitize parts = join ''.'' (map quote_ident parts))"

text \<open>A name whose ASCII bytes are letters, digits and underscores.\<close>

definition plain_name :: "string \<Rightarrow> bool" where
  "plain_name name \<longleftrightarrow> name \<noteq> [] \<and> list_all (\<lambda>c. of_char c < (128 :: nat) \<longrightarrow> word_char c) name"

lemma validIdentifierPart_plain:
  assumes "validIdentifierPart ut name"
  shows "plain_name name"
proof -
  have "word_char c" if "c \<in> set name" "of_char c < (128 :: nat)" for c
  proof -
    have r: "r = 95 \<or> IsLetter ut r \<or> IsDigit ut r" if "r \<in> set (runes name)" for r
      using assms that by (auto simp: validIdentifierPart_def list_all_iff split: list.splits)
    have "c = CHR ''_'' \<longleftrightarrow> of_char c = (95 :: nat)" using of_char_eq_iff [of c "CHR ''_''", where ?'a = nat] by simp
    with r [OF ascii_is_rune [OF that]] that show ?thesis by (auto simp: IsLetter_def IsDigit_def word_char_def)
  qed
  moreover have "name \<noteq> []" using assms by (auto simp: validIdentifierPart_def runes.simps)
  ultimately show ?thesis by (simp add: plain_name_def list_all_iff)
qed

lemma plain_name_quotes: "plain_name name \<Longrightarrow> dquote \<notin> set name \<and> CHR 0x00 \<notin> set name"
  by (auto simp: plain_name_def list_all_iff)

lemma sanitize_plain: "sanitizes sanitize \<Longrightarrow> list_all plain_name parts \<Longrightarrow> sanitize parts = join ''.'' (map quote_ident parts)"
  by (simp add: sanitizes_def list_all_iff plain_name_quotes)

lemma split_char_single: "split_char c s = [p] \<Longrightarrow> p = s"
  by (induction s arbitrary: p) (auto split: if_splits list.splits)

lemma parseIdentifier_Inr:
  assumes "parseIdentifier ut s = Inr parts"
  shows "parts = split_char (CHR ''.'') s" "length parts \<le> 3" "list_all plain_name parts"
  using assms validIdentifierPart_plain [of ut] by (auto simp: parseIdentifier_def Let_def list_all_iff split: if_splits)

lemma sanitize_columns_Inr:
  assumes "sanitizes sanitize" "sanitize_columns ut sanitize invalid qualified columns = Inr out"
  shows "out = map quote_ident columns \<and> list_all plain_name columns"
  using assms (2)
proof (induction columns arbitrary: out)
  case (Cons column columns)
  then obtain ident out' where parsed: "parseIdentifier ut column = Inr ident" "length ident = 1"
    and rest: "sanitize_columns ut sanitize invalid qualified columns = Inr out'" and out: "out = sanitize ident # out'"
    by (auto split: sum.splits if_splits)
  from parsed obtain p where "ident = [p]" by (auto simp: length_Suc_conv)
  with parseIdentifier_Inr [OF parsed (1)] have "ident = [column]" using split_char_single [of "CHR ''.''" column p] by auto
  with parseIdentifier_Inr (3) [OF parsed (1)] have id: "ident = [column]" "plain_name column" by auto
  then have "sanitize ident = quote_ident column" using sanitize_plain [OF assms (1), of ident] by simp
  with Cons.IH [OF rest] out id show ?case by simp
qed simp

lemma sanitizeUnqualifiedIdentifiers_Inr:
  "sanitizes sanitize \<Longrightarrow> sanitizeUnqualifiedIdentifiers ut sanitize columns = Inr out \<Longrightarrow>
    out = map quote_ident columns \<and> list_all plain_name columns"
  unfolding sanitizeUnqualifiedIdentifiers_def by (rule sanitize_columns_Inr)

text \<open>The update columns of an upsert, and the clause that carries them.\<close>

definition is_upsert :: "pipeline_spec \<Rightarrow> bool" where
  "is_upsert spec \<longleftrightarrow> trim_space (lower_text (ps_WriteMode spec)) = ''upsert''"

definition upsert_columns :: "pipeline_spec \<Rightarrow> string list" where
  "upsert_columns spec = (if ps_UpdateColumns spec = [] then [c \<leftarrow> ps_TargetColumns spec. c \<notin> set (ps_ConflictColumns spec)] else ps_UpdateColumns spec)"

definition upsert_clause :: "pipeline_spec \<Rightarrow> string" where
  "upsert_clause spec =
     (if is_upsert spec then [newline] @ ''ON CONFLICT ('' @ join '', '' (map quote_ident (ps_ConflictColumns spec)) @ '') DO UPDATE SET '' @
        join '', '' (map (\<lambda>c. quote_ident c @ '' = EXCLUDED.'' @ quote_ident c) (upsert_columns spec))
      else '''')"

text \<open>The names that end up in the statement.\<close>

definition spec_names :: "pipeline_spec \<Rightarrow> string list" where
  "spec_names spec = split_char (CHR ''.'') (ps_TargetTable spec) @ ps_TargetColumns spec @
     (if is_upsert spec then ps_ConflictColumns spec @ upsert_columns spec else [])"

lemma BuildInsertSQL_shape:
  assumes "sanitizes sanitize" "BuildInsertSQL ut sanitize spec = Inr statement"
  obtains query where "normalizeExtractSQL (ps_ExtractSQL spec) = Inr query" "list_all plain_name (spec_names spec)"
    "statement = ''INSERT INTO '' @ join ''.'' (map quote_ident (split_char (CHR ''.'') (ps_TargetTable spec))) @
       '' ('' @ join '', '' (map quote_ident (ps_TargetColumns spec)) @ '')'' @ [newline] @ query @ upsert_clause spec"
    "is_upsert spec \<longrightarrow> ps_ConflictColumns spec \<noteq> [] \<and> upsert_columns spec \<noteq> []"
proof -
  let ?up = "if is_upsert spec \<and> ps_UpdateColumns spec = [] then nonConflictColumns (ps_TargetColumns spec) (ps_ConflictColumns spec) else ps_UpdateColumns spec"
  from assms (2) obtain table cols confl upd query where
    parts: "parseIdentifier ut (ps_TargetTable spec) = Inr table"
      "\<exists>f g. sanitize_columns ut sanitize f g (ps_TargetColumns spec) = Inr cols"
      "sanitizeUnqualifiedIdentifiers ut sanitize (ps_ConflictColumns spec) = Inr confl"
      "sanitizeUnqualifiedIdentifiers ut sanitize ?up = Inr upd"
    and ext: "normalizeExtractSQL (ps_ExtractSQL spec) = Inr query"
    and up: "is_upsert spec \<longrightarrow> ps_ConflictColumns spec \<noteq> [] \<and> upd \<noteq> []"
    and st: "statement = ''INSERT INTO '' @ sanitize table @ '' ('' @ join '', '' cols @ '')'' @ [newline] @ query @
      (if is_upsert spec then [newline] @ ''ON CONFLICT ('' @ join '', '' confl @ '') DO UPDATE SET '' @
             join '', '' (map (\<lambda>column. column @ '' = EXCLUDED.'' @ column) upd) else '''')"
    unfolding BuildInsertSQL_def is_upsert_def
    by (simp add: Let_def split: if_splits sum.splits) blast+
  from sanitize_columns_Inr [OF assms (1)] sanitizeUnqualifiedIdentifiers_Inr [OF assms (1)] parts (2-4) have "cols = map quote_ident (ps_TargetColumns spec)" "list_all plain_name (ps_TargetColumns spec)"
    "confl = map quote_ident (ps_ConflictColumns spec)" "list_all plain_name (ps_ConflictColumns spec)"
    "upd = map quote_ident ?up" "list_all plain_name ?up" by blast+
  moreover have "is_upsert spec \<Longrightarrow> ?up = upsert_columns spec" by (simp add: upsert_columns_def nonConflictColumns_def)
  moreover have "sanitize table = join ''.'' (map quote_ident (split_char (CHR ''.'') (ps_TargetTable spec)))"
    "list_all plain_name (split_char (CHR ''.'') (ps_TargetTable spec))"
    using parseIdentifier_Inr [OF parts (1)] sanitize_plain [OF assms (1)] by auto
  ultimately show thesis using st up ext that [of query]
    by (cases "is_upsert spec") (simp_all add: spec_names_def upsert_clause_def comp_def)
qed


section \<open>Concrete queries\<close>

lemma trim_space_ends:
  assumes "plain (hd s)" "plain (last s)"
  shows "trim_space s = s"
proof -
  have "trim_left_by space_encodings s = s" "trim_left_by (map rev space_encodings) (rev s) = rev s"
    using assms by (auto intro!: trim_left_plain space_encodings_not_plain simp: hd_rev)
  then show ?thesis by (simp add: trim_space_def)
qed

lemma lower_text_ascii: "list_all (\<lambda>c. of_char c < (128 :: nat)) s \<Longrightarrow> lower_text s = map lower_char s"
proof (induction s)
  case (Cons c s)
  then have "char_of (226 :: nat) \<noteq> c" "char_of (196 :: nat) \<noteq> c" by auto
  with Cons show ?case by (simp add: lower_text.simps [of "c # s"] has_prefix_def chars_def)
qed (simp add: lower_text.simps)

lemma normalizeExtractSQL_ascii:
  assumes "list_all (\<lambda>c. of_char c < (128 :: nat)) s" "plain (hd s)" "plain (last s)" "last s \<noteq> CHR '';''" "s \<noteq> []"
    "has_prefix (map lower_char s) ''select ''" "sqlTokens s = ''select'' # tokens" "list_all (\<lambda>t. \<not> forbiddenSQLToken t) tokens"
  shows "normalizeExtractSQL s = Inr s"
proof -
  have "trim_suffix s '';'' = s" using assms (4, 5) by (cases s rule: rev_cases) (auto simp: trim_suffix_def has_suffix_def has_prefix_def)
  moreover have "find forbiddenSQLToken tokens = None" using assms (8) by (simp add: find_None_iff list_all_iff)
  moreover have "\<not> forbiddenSQLToken ''select''" by (simp add: forbiddenSQLToken_def)
  ultimately show ?thesis
    using assms (6, 7) trim_space_ends [OF assms (2, 3)] lower_text_ascii [OF assms (1)] by (simp add: normalizeExtractSQL_def Let_def)
qed

definition example_query :: string where
  "example_query = ''SELECT a FROM t''"

definition example_segments :: "segment list" where
  "example_segments = [Word ''SELECT'', Other (CHR '' ''), Word ''a'', Other (CHR '' ''), Word ''FROM'', Other (CHR '' ''), Word ''t'']"

lemmas scan_char = word_char_def latin1_letter_def latin1_digit_def

lemmas lower_chars = lower_char_def char_of_def bit_simps

lemma example_segments: "wf_segments example_segments" "render example_segments = example_query"
  "words example_segments = [''SELECT'', ''a'', ''FROM'', ''t'']"
  by (simp_all add: example_segments_def render_def example_query_def words_def scan_char)

lemma example_query: "normalizeExtractSQL example_query = Inr example_query"
proof (rule normalizeExtractSQL_ascii)
  show "sqlTokens example_query = ''select'' # [''a'', ''from'', ''t'']"
    using sqlTokens_render [OF example_segments (1)] example_segments (2, 3)
    by (simp add: lower_text_ascii lower_chars)
qed (simp_all add: example_query_def plain_def lower_chars has_prefix_def forbiddenSQLToken_def)


definition example_spec :: pipeline_spec where
  "example_spec = \<lparr>ps_ExtractSQL = example_query, ps_TargetTable = ''s.t'', ps_TargetColumns = [''a''], ps_WriteMode = '''',
     ps_ConflictColumns = [], ps_UpdateColumns = []\<rparr>"

definition example_etl :: job where
  "example_etl = zero_job\<lparr>j_task := zero_task\<lparr>t_payload := ''{}''\<rparr>\<rparr>"

definition ascii_tables :: unicode_tables where
  "ascii_tables = \<lparr>ut_letter = (\<lambda>r. False), ut_digit = (\<lambda>r. False)\<rparr>"

lemma quote_join_sanitizes: "sanitizes (\<lambda>parts. join ''.'' (map quote_ident parts))"
  by (simp add: sanitizes_def)

lemma example_parsed: "ParseSpec (\<lambda>p. Inr example_spec) (t_payload (j_task example_etl)) = Inr (example_spec\<lparr>ps_WriteMode := ''append''\<rparr>)"
proof -
  have "trim_space example_query = example_query" by (rule trim_space_ends) (simp_all add: example_query_def plain_def)
  moreover have "trim_space ''s.t'' = ''s.t''" "trim_space ''a'' = ''a''" "trim_space '''' = ''''" "lower_text '''' = ''''"
    by (simp_all add: trim_space_plain plain_def lower_text.simps)
  moreover have "example_query \<noteq> ''''" by (simp add: example_query_def)
  ultimately show ?thesis by (simp add: ParseSpec_def example_spec_def example_etl_def)
qed

lemma example_identifiers: "parseIdentifier ascii_tables ''s.t'' = Inr [''s'', ''t'']" "parseIdentifier ascii_tables ''a'' = Inr [''a'']"
  by (simp_all add: parseIdentifier_def validIdentifierPart_def runes.simps rune_size_def seq2_def seq3_def seq4_def rune_value_def IsLetter_def latin1_letter_def)

lemma example_built:
  "BuildInsertSQL ascii_tables (\<lambda>parts. join ''.'' (map quote_ident parts)) (example_spec\<lparr>ps_WriteMode := ''append''\<rparr>) =
     Inr (''INSERT INTO \"s\".\"t\" (\"a\")'' @ [newline] @ example_query)"
proof -
  have "trim_space (lower_text ''append'') = ''append''" by (simp add: lower_text_ascii lower_chars trim_space_plain plain_def)
  with example_identifiers example_query show ?thesis
    by (simp add: BuildInsertSQL_def example_spec_def sanitizeUnqualifiedIdentifiers_def quote_ident_def)
qed


text \<open>
  The scanner knows neither the backslash of an \<^verbatim>\<open>E'...'\<close> literal nor dollar quotes. Where PostgreSQL ends the literal
  and goes on to a second statement, which a statement without arguments may have, the scanner is still inside.
\<close>

definition escape_literal :: string where
  "escape_literal = ''select e'' @ [squote, CHR 0x5C, squote, squote] @ ''; drop table t --'' @ [squote]"

definition dollar_quote :: string where
  "dollar_quote = ''select $$'' @ [squote] @ ''$$; drop table t --'' @ [squote]"

lemma escape_literal_hides_statement: "normalizeExtractSQL escape_literal = Inr escape_literal"
  by (rule normalizeExtractSQL_ascii [where tokens = "[''e'']"])
    (simp_all add: escape_literal_def sqlTokens_def flush_def scan_char lower_text_ascii plain_def lower_chars has_prefix_def forbiddenSQLToken_def)

lemma dollar_quote_hides_statement: "normalizeExtractSQL dollar_quote = Inr dollar_quote"
  by (rule normalizeExtractSQL_ascii [where tokens = "[]"])
    (simp_all add: dollar_quote_def sqlTokens_def flush_def scan_char lower_text_ascii plain_def lower_chars has_prefix_def forbiddenSQLToken_def)

end
