(* ===== verification/Migrate.thy ===== *)
theory Migrate
  imports Go_Strings "HOL-Library.Char_ord" "HOL-Library.List_Lexorder"
begin

text \<open>
  \<^verbatim>\<open>internal/store/migrate.go\<close>: applying the schema. The database is the list of versions recorded in
  \<^verbatim>\<open>schema_migrations\<close> and whatever else it holds; what a file does to the latter is an argument, and so are the
  directory, the files' contents and what fails. A file and its record are one transaction, of which
  only the commit can leave the client in doubt.

  \<open>Migrate\<close> is one process alone. \<open>migration_step\<close> interleaves any number of them, with any lists of files, each of
  which may die at any point; the advisory lock lets one of them in at a time.

  Shown here: every recorded version was applied exactly once, in the order of the records, in every interleaving;
  a process that succeeds leaves all its files applied; a run from scratch applies them in file name
  order; and a second run does nothing.
\<close>

section \<open>The code\<close>

record 'd schema_db =
  versions :: "string list"
  contents :: 'd

text \<open>The directory: names, and which of them are directories.\<close>

definition migrationFiles :: "err + (string \<times> bool) list \<Rightarrow> err + string list" where
  "migrationFiles listing =
     (case listing of
        Inl e \<Rightarrow> Inl (Errorf ''store: read migrations directory'' [e])
      | Inr entries \<Rightarrow>
          (let files = map fst (filter (\<lambda>(name, is_dir). \<not> is_dir \<and> has_suffix name ''.sql'') entries) in
           if files = [] then Inl (Errorf ''store: no .sql files'' []) else Inr (sort files)))"

record migration_tx =
  mt_read :: "err + string"
  mt_begin :: "err option"
  mt_exec :: "err option"      \<comment> \<open>the connection fails during the script\<close>
  mt_record :: "err option"    \<comment> \<open>or during the insert\<close>
  mt_commit :: io

definition migrate_file :: "(string \<Rightarrow> 'd \<Rightarrow> err + 'd) \<Rightarrow> migration_tx \<Rightarrow> string \<Rightarrow> 'd schema_db \<Rightarrow> err option \<times> 'd schema_db" where
  "migrate_file script tx version db =
     (case mt_read tx of
        Inl e \<Rightarrow> (Some (Errorf (''store: read migration '' @ version) [e]), db)
      | Inr sqlText \<Rightarrow>
     (case mt_begin tx of
        Some e \<Rightarrow> (Some (Errorf (''store: begin migration '' @ version) [e]), db)
      | None \<Rightarrow>
     (case (case mt_exec tx of Some e \<Rightarrow> Inl e | None \<Rightarrow> script sqlText (contents db)) of
        Inl e \<Rightarrow> (Some (Errorf (''store: apply migration '' @ version) [e]), db)
      | Inr d \<Rightarrow>
     (case (if version \<in> set (versions db) then Some (PgError ''23505'' '''') else mt_record tx) of
        Some e \<Rightarrow> (Some (Errorf (''store: record migration '' @ version) [e]), db)
      | None \<Rightarrow>
          let db' = \<lparr>versions = versions db @ [version], contents = d\<rparr> in
          (case mt_commit tx of
             Done \<Rightarrow> (None, db')
           | Lost_request m \<Rightarrow> (Some (Errorf (''store: commit migration '' @ version) [Errorf m []]), db)
           | Lost_reply m \<Rightarrow> (Some (Errorf (''store: commit migration '' @ version) [Errorf m []]), db'))))))"

primrec migrate_files :: "(string \<Rightarrow> 'd \<Rightarrow> err + 'd) \<Rightarrow> (string \<Rightarrow> migration_tx) \<Rightarrow> string list \<Rightarrow> string list \<Rightarrow> 'd schema_db \<Rightarrow>
    err option \<times> 'd schema_db" where
  "migrate_files script txs applied [] db = (None, db)"
| "migrate_files script txs applied (version # files) db =
     (if version \<in> set applied then migrate_files script txs applied files db
      else (case migrate_file script (txs version) version db of
          (Some e, db') \<Rightarrow> (Some e, db')
        | (None, db') \<Rightarrow> migrate_files script txs applied files db'))"

text \<open>The statements ahead of the loop only fail or not; the table they create is there from the start.\<close>

definition Migrate :: "(string \<Rightarrow> 'd \<Rightarrow> err + 'd) \<Rightarrow> err + (string \<times> bool) list \<Rightarrow> err option \<Rightarrow> err option \<Rightarrow> err option \<Rightarrow> err option \<Rightarrow>
    (string \<Rightarrow> migration_tx) \<Rightarrow> 'd schema_db \<Rightarrow> err option \<times> 'd schema_db" where
  "Migrate script listing acquire lock create select txs db =
     (case migrationFiles listing of
        Inl e \<Rightarrow> (Some e, db)
      | Inr files \<Rightarrow>
     (case acquire of Some e \<Rightarrow> (Some (Errorf ''store: acquire connection for migrations'' [e]), db) | None \<Rightarrow>
     (case lock of Some e \<Rightarrow> (Some (Errorf ''store: take migration lock'' [e]), db) | None \<Rightarrow>
     (case create of Some e \<Rightarrow> (Some (Errorf ''store: create schema_migrations'' [e]), db) | None \<Rightarrow>
     (case select of Some e \<Rightarrow> (Some (Errorf ''store: read schema_migrations'' [e]), db) | None \<Rightarrow>
        migrate_files script txs (versions db) files db)))))"

section \<open>Many processes\<close>

text \<open>
  A process waits for the lock, reads what is recorded, works through its files, of which it has some left, and is done or
  gone. The server grants the lock to one session and takes it back when the session ends.
\<close>

datatype migrator = Waiting "string list" | Locked "string list" | Working "string list" "string list" "string list" | Succeeded "string list" | Gone

record 'd migration_system =
  sys_db :: "'d schema_db"
  sys_holder :: "nat option"
  sys_procs :: "nat \<Rightarrow> migrator"

inductive migration_step :: "(string \<Rightarrow> 'd \<Rightarrow> err + 'd) \<Rightarrow> (string \<Rightarrow> string) \<Rightarrow> 'd migration_system \<Rightarrow> 'd migration_system \<Rightarrow> bool"
  for script text_of where
  lock: "sys_procs s p = Waiting files \<Longrightarrow> sys_holder s = None \<Longrightarrow>
    migration_step script text_of s (s\<lparr>sys_holder := Some p, sys_procs := (sys_procs s)(p := Locked files)\<rparr>)"
| select: "sys_procs s p = Locked files \<Longrightarrow>
    migration_step script text_of s (s\<lparr>sys_procs := (sys_procs s)(p := Working (versions (sys_db s)) files files)\<rparr>)"
| skip: "sys_procs s p = Working applied files (v # rest) \<Longrightarrow> v \<in> set applied \<Longrightarrow>
    migration_step script text_of s (s\<lparr>sys_procs := (sys_procs s)(p := Working applied files rest)\<rparr>)"
| apply_file: "sys_procs s p = Working applied files (v # rest) \<Longrightarrow> v \<notin> set applied \<Longrightarrow> mt_read tx = Inr (text_of v) \<Longrightarrow>
    migrate_file script tx v (sys_db s) = (None, db') \<Longrightarrow>
    migration_step script text_of s (s\<lparr>sys_db := db', sys_procs := (sys_procs s)(p := Working applied files rest)\<rparr>)"
| fail_file: "sys_procs s p = Working applied files (v # rest) \<Longrightarrow> v \<notin> set applied \<Longrightarrow> mt_read tx = Inr (text_of v) \<Longrightarrow>
    migrate_file script tx v (sys_db s) = (Some e, db') \<Longrightarrow>
    migration_step script text_of s (s\<lparr>sys_db := db', sys_holder := None, sys_procs := (sys_procs s)(p := Gone)\<rparr>)"
| finish: "sys_procs s p = Working applied files [] \<Longrightarrow>
    migration_step script text_of s (s\<lparr>sys_holder := None, sys_procs := (sys_procs s)(p := Succeeded files)\<rparr>)"
| die: "migration_step script text_of s (s\<lparr>sys_holder := (if sys_holder s = Some p then None else sys_holder s), sys_procs := (sys_procs s)(p := Gone)\<rparr>)"

text \<open>What the recorded versions have made of the database, each applied once in the order of the records.\<close>

fun replay :: "(string \<Rightarrow> 'd \<Rightarrow> err + 'd) \<Rightarrow> (string \<Rightarrow> string) \<Rightarrow> 'd \<Rightarrow> string list \<Rightarrow> 'd option" where
  "replay script text_of d [] = Some d"
| "replay script text_of d (v # vs) = (case script (text_of v) d of Inl e \<Rightarrow> None | Inr d' \<Rightarrow> replay script text_of d' vs)"

lemma replay_append: "replay script text_of d (vs @ ws) = (case replay script text_of d vs of None \<Rightarrow> None | Some d' \<Rightarrow> replay script text_of d' ws)"
  by (induction vs arbitrary: d) (auto split: sum.splits)

lemma migrate_file_cases:
  assumes "migrate_file script tx v db = (r, db')" "mt_read tx = Inr sqlText"
  obtains (kept) "db' = db" "r \<noteq> None"
  | (applied) d where "script sqlText (contents db) = Inr d" "v \<notin> set (versions db)" "db' = \<lparr>versions = versions db @ [v], contents = d\<rparr>"
proof (cases "mt_begin tx = None \<and> mt_exec tx = None \<and> v \<notin> set (versions db) \<and> mt_record tx = None \<and> \<not> isl (script sqlText (contents db))")
  case True
  then obtain d where d: "script sqlText (contents db) = Inr d" by (cases "script sqlText (contents db)") auto
  with True assms have "db' = db \<and> r \<noteq> None \<or> db' = \<lparr>versions = versions db @ [v], contents = d\<rparr>"
    by (cases "mt_commit tx") (auto simp: migrate_file_def)
  with True d show thesis using kept applied [of d] by blast
next
  case False
  have "r \<noteq> None \<and> db' = db"
  proof (cases "mt_begin tx = None \<and> mt_exec tx = None")
    case True
    with False assms show ?thesis
      by (cases "script sqlText (contents db)"; cases "v \<in> set (versions db)"; cases "mt_record tx") (auto simp: migrate_file_def)
  next
    case False
    with assms show ?thesis by (cases "mt_begin tx"; cases "mt_exec tx") (auto simp: migrate_file_def)
  qed
  with kept show thesis by simp
qed

definition started :: "'d schema_db \<Rightarrow> 'd migration_system \<Rightarrow> bool" where
  "started db s \<longleftrightarrow> sys_db s = db \<and> sys_holder s = None \<and> (\<forall>p. \<exists>files. sys_procs s p = Waiting files)"

definition in_lock :: "migrator \<Rightarrow> bool" where
  "in_lock m \<longleftrightarrow> (case m of Locked files \<Rightarrow> True | Working applied files rest \<Rightarrow> True | _ \<Rightarrow> False)"

definition covered :: "string set \<Rightarrow> migrator \<Rightarrow> bool" where
  "covered vs m \<longleftrightarrow> (case m of
     Working applied files rest \<Rightarrow> set applied \<subseteq> vs \<and> set files \<subseteq> vs \<union> set rest
   | Succeeded files \<Rightarrow> set files \<subseteq> vs
   | _ \<Rightarrow> True)"

lemma migrator_simps [simp]:
  "\<not> in_lock (Waiting files)" "in_lock (Locked files)" "in_lock (Working applied files rest)" "\<not> in_lock (Succeeded files)" "\<not> in_lock Gone"
  "covered vs (Waiting files)" "covered vs (Locked files)" "covered vs (Succeeded files) \<longleftrightarrow> set files \<subseteq> vs" "covered vs Gone"
  "covered vs (Working applied files rest) \<longleftrightarrow> set applied \<subseteq> vs \<and> set files \<subseteq> vs \<union> set rest"
  by (simp_all add: in_lock_def covered_def)

lemma covered_mono: "covered vs m \<Longrightarrow> vs \<subseteq> ws \<Longrightarrow> covered ws m"
  by (cases m) (auto simp: covered_def)

definition replayed :: "(string \<Rightarrow> 'd \<Rightarrow> err + 'd) \<Rightarrow> (string \<Rightarrow> string) \<Rightarrow> 'd schema_db \<Rightarrow> 'd schema_db \<Rightarrow> bool" where
  "replayed script text_of db db' \<longleftrightarrow> distinct (versions db') \<and>
     (\<exists>vs. versions db' = versions db @ vs \<and> replay script text_of (contents db) vs = Some (contents db'))"

definition migration_inv :: "(string \<Rightarrow> 'd \<Rightarrow> err + 'd) \<Rightarrow> (string \<Rightarrow> string) \<Rightarrow> 'd schema_db \<Rightarrow> 'd migration_system \<Rightarrow> bool" where
  "migration_inv script text_of db s \<longleftrightarrow> replayed script text_of db (sys_db s) \<and>
     (\<forall>p. (in_lock (sys_procs s p) \<longrightarrow> sys_holder s = Some p) \<and> covered (set (versions (sys_db s))) (sys_procs s p))"

lemma file_replayed:
  assumes "replayed script text_of db db1" "migrate_file script tx v db1 = (r, db2)" "mt_read tx = Inr (text_of v)"
  shows "replayed script text_of db db2 \<and> set (versions db1) \<subseteq> set (versions db2) \<and> (r = None \<longrightarrow> v \<in> set (versions db2))"
  using assms (2, 3)
proof (cases rule: migrate_file_cases)
  case kept
  with assms show ?thesis by auto
next
  case (applied d)
  from assms (1) obtain vs where "distinct (versions db1)" "versions db1 = versions db @ vs" "replay script text_of (contents db) vs = Some (contents db1)"
    by (auto simp: replayed_def)
  with applied have "replayed script text_of db db2" unfolding replayed_def by (intro conjI exI [of _ "vs @ [v]"]) (auto simp: replay_append)
  with applied show ?thesis by auto
qed

lemma migration_inv_update:
  assumes "migration_inv script text_of db s" "replayed script text_of db (sys_db s')" "set (versions (sys_db s)) \<subseteq> set (versions (sys_db s'))"
    "sys_procs s' = (sys_procs s)(p := m)" "covered (set (versions (sys_db s'))) m" "in_lock m \<longrightarrow> sys_holder s' = Some p"
    "sys_holder s = None \<or> sys_holder s = Some p \<or> sys_holder s' = sys_holder s"
  shows "migration_inv script text_of db s'"
proof -
  have "(in_lock (sys_procs s' q) \<longrightarrow> sys_holder s' = Some q) \<and> covered (set (versions (sys_db s'))) (sys_procs s' q)" for q
  proof (cases "q = p")
    case False
    moreover from assms (1) have "in_lock (sys_procs s q) \<longrightarrow> sys_holder s = Some q" "covered (set (versions (sys_db s))) (sys_procs s q)"
      by (simp_all add: migration_inv_def)
    ultimately show ?thesis using assms (3, 4, 7) covered_mono [of "set (versions (sys_db s))"] by auto
  qed (use assms (4-6) in simp)
  with assms (2) show ?thesis by (simp add: migration_inv_def)
qed

lemma migration_step_inv:
  assumes "migration_step script text_of s s'" "migration_inv script text_of db s"
  shows "migration_inv script text_of db s'"
proof -
  from assms (2) have rep: "replayed script text_of db (sys_db s)" by (simp add: migration_inv_def)
  have alone: "in_lock (sys_procs s p) \<Longrightarrow> sys_holder s = Some p" and cov: "covered (set (versions (sys_db s))) (sys_procs s p)" for p
    using assms (2) by (auto simp: migration_inv_def)
  note upd = migration_inv_update [OF assms (2)]
  from assms (1) show ?thesis
  proof cases
    case (lock p files)
    then show ?thesis by (intro upd [of _ p "Locked files"]) (use rep in simp_all)
  next
    case (select p files)
    then show ?thesis by (intro upd [of _ p "Working (versions (sys_db s)) files files"]) (use rep alone [of p] in simp_all)
  next
    case (skip p applied files v rest)
    then show ?thesis by (intro upd [of _ p "Working applied files rest"]) (use rep alone [of p] cov [of p] in auto)
  next
    case (apply_file p applied files v rest tx db')
    with file_replayed [OF rep apply_file (5, 4)] show ?thesis
      by (intro upd [of _ p "Working applied files rest"]) (use alone [of p] cov [of p] in auto)
  next
    case (fail_file p applied files v rest tx e db')
    with file_replayed [OF rep fail_file (5, 4)] show ?thesis by (intro upd [of _ p Gone]) (use alone [of p] in auto)
  next
    case (finish p applied files)
    then show ?thesis by (intro upd [of _ p "Succeeded files"]) (use rep alone [of p] cov [of p] in auto)
  next
    case (die p)
    then show ?thesis by (intro upd [of _ p Gone]) (use rep in auto)
  qed
qed

lemma started_inv: "started db s \<Longrightarrow> distinct (versions db) \<Longrightarrow> migration_inv script text_of db s"
proof -
  assume s: "started db s" "distinct (versions db)"
  then have "replayed script text_of db (sys_db s)" unfolding replayed_def by (intro conjI exI [of _ "[]"]) (auto simp: started_def)
  moreover have "\<not> in_lock (sys_procs s p) \<and> covered vs (sys_procs s p)" for p vs
    using s (1) unfolding started_def by (metis migrator_simps (1, 6))
  ultimately show ?thesis by (simp add: migration_inv_def)
qed

text \<open>
  C17. However many processes migrate at once, and wherever they die or lose their connection: every version is recorded at most
  once, the database is what the recorded scripts make of it when each is applied once in the order of the records,
  on top of what was there, and a process that succeeds has all its files recorded.
\<close>

theorem migrations_apply_once:
  assumes "started db s0" "distinct (versions db)" "(migration_step script text_of)\<^sup>*\<^sup>* s0 s"
  shows "distinct (versions (sys_db s)) \<and>
    (\<exists>vs. versions (sys_db s) = versions db @ vs \<and> replay script text_of (contents db) vs = Some (contents (sys_db s))) \<and>
    (\<forall>p files. sys_procs s p = Succeeded files \<longrightarrow> set files \<subseteq> set (versions (sys_db s)))"
proof -
  from assms (3) have "migration_inv script text_of db s"
    by (induction rule: rtranclp_induct) (auto intro: started_inv [OF assms (1, 2)] migration_step_inv)
  then have "replayed script text_of db (sys_db s)" "covered (set (versions (sys_db s))) (sys_procs s p)" for p by (auto simp: migration_inv_def)
  then show ?thesis unfolding replayed_def by (metis migrator_simps (8))
qed

section \<open>One process\<close>

text \<open>A process alone with the lock is a run of the system.\<close>

lemma migrate_files_run:
  assumes "migrate_files script txs applied rest (sys_db s) = (r, db')" "sys_procs s p = Working applied files rest" "\<And>v. mt_read (txs v) = Inr (text_of v)"
  shows "\<exists>s'. (migration_step script text_of)\<^sup>*\<^sup>* s s' \<and> sys_db s' = db' \<and> sys_holder s' = None \<and>
    sys_procs s' p = (if r = None then Succeeded files else Gone)"
  using assms (1, 2)
proof (induction rest arbitrary: s)
  case Nil
  then have "migration_step script text_of s (s\<lparr>sys_holder := None, sys_procs := (sys_procs s)(p := Succeeded files)\<rparr>)"
    by (intro migration_step.finish [of _ _ applied]) simp
  with Nil show ?case by (intro exI [of _ "s\<lparr>sys_holder := None, sys_procs := (sys_procs s)(p := Succeeded files)\<rparr>"]) auto
next
  case (Cons v rest)
  show ?case
  proof (cases "v \<in> set applied")
    case True
    let ?s = "s\<lparr>sys_procs := (sys_procs s)(p := Working applied files rest)\<rparr>"
    have "migration_step script text_of s ?s" using migration_step.skip [OF Cons.prems (2) True] .
    moreover from Cons.IH [of ?s] Cons.prems True obtain s' where "(migration_step script text_of)\<^sup>*\<^sup>* ?s s'" "sys_db s' = db'"
      "sys_holder s' = None" "sys_procs s' p = (if r = None then Succeeded files else Gone)" by auto
    ultimately show ?thesis by (intro exI [of _ s']) (auto intro: converse_rtranclp_into_rtranclp)
  next
    case new: False
    obtain r1 db1 where one: "migrate_file script (txs v) v (sys_db s) = (r1, db1)" by fastforce
    show ?thesis
    proof (cases r1)
      case None
      let ?s = "s\<lparr>sys_db := db1, sys_procs := (sys_procs s)(p := Working applied files rest)\<rparr>"
      have "migration_step script text_of s ?s"
        using migration_step.apply_file [OF Cons.prems (2) new assms (3)] one None by simp
      moreover from Cons.IH [of ?s] Cons.prems new one None obtain s' where "(migration_step script text_of)\<^sup>*\<^sup>* ?s s'" "sys_db s' = db'"
        "sys_holder s' = None" "sys_procs s' p = (if r = None then Succeeded files else Gone)" by auto
      ultimately show ?thesis by (intro exI [of _ s']) (auto intro: converse_rtranclp_into_rtranclp)
    next
      case (Some e)
      let ?s = "s\<lparr>sys_db := db1, sys_holder := None, sys_procs := (sys_procs s)(p := Gone)\<rparr>"
      have "migration_step script text_of s ?s"
        using migration_step.fail_file [OF Cons.prems (2) new assms (3)] one Some by simp
      moreover have "r = Some e" "db' = db1" using Cons.prems new one Some by auto
      ultimately show ?thesis by (intro exI [of _ ?s]) auto
    qed
  qed
qed

text \<open>On success every file is recorded, in whatever state the database was, and a second run changes nothing.\<close>

lemma migrate_files_done: "set files \<subseteq> set applied \<Longrightarrow> migrate_files script txs applied files db = (None, db)"
  by (induction files) auto

lemma Migrate_again:
  assumes "migrationFiles listing = Inr files" "set files \<subseteq> set (versions db)"
  shows "Migrate script listing None None None None txs db = (None, db)"
  using assms migrate_files_done by (simp add: Migrate_def)

text \<open>From an empty database the files are applied in the order of their names.\<close>

lemma migrate_files_order:
  assumes "migrate_files script txs applied files db = (None, db')" "set applied \<inter> set files = {}" "distinct files" "\<And>v. mt_read (txs v) = Inr (text_of v)"
  shows "versions db' = versions db @ files"
  using assms (1-3)
proof (induction files arbitrary: db)
  case (Cons v files)
  obtain r1 db1 where one: "migrate_file script (txs v) v db = (r1, db1)" by fastforce
  with Cons.prems have r: "r1 = None" and rest: "migrate_files script txs applied files db1 = (None, db')" by (auto split: option.splits)
  from one assms (4) have "versions db1 = versions db @ [v]" by (cases rule: migrate_file_cases) (use r in simp_all)
  with Cons.IH [OF rest] Cons.prems show ?case by simp
qed simp

lemma migrationFiles_sorted: "migrationFiles listing = Inr files \<Longrightarrow> sorted files"
  unfolding migrationFiles_def Let_def by (auto simp only: sorted_sort sum.inject sum.distinct split: sum.splits if_split_asm)

text \<open>Two processes with the same two files, the second after the first.\<close>

definition example_script :: "string \<Rightarrow> string list \<Rightarrow> err + string list" where
  "example_script sqlText d = Inr (d @ [sqlText])"

definition example_tx :: "string \<Rightarrow> migration_tx" where
  "example_tx v = \<lparr>mt_read = Inr v, mt_begin = None, mt_exec = None, mt_record = None, mt_commit = Done\<rparr>"

theorem migrations_apply_once_witness:
  "\<exists>s. (migration_step example_script (\<lambda>v. v))\<^sup>*\<^sup>* \<lparr>sys_db = \<lparr>versions = [], contents = []\<rparr>, sys_holder = None, sys_procs = (\<lambda>p. Waiting [''1'', ''2''])\<rparr> s \<and>
     sys_procs s 0 = Succeeded [''1'', ''2''] \<and> replay example_script (\<lambda>v. v) [] (versions (sys_db s)) = Some (contents (sys_db s)) \<and>
     contents (sys_db s) = [''1'', ''2'']"
proof -
  let ?step = "migration_step example_script (\<lambda>v. v)" and ?db = "\<lparr>versions = [], contents = []\<rparr> :: string list schema_db"
  let ?s0 = "\<lparr>sys_db = ?db, sys_holder = None, sys_procs = (\<lambda>p. Waiting [''1'', ''2''])\<rparr>"
  let ?s1 = "?s0\<lparr>sys_holder := Some 0, sys_procs := (sys_procs ?s0)(0 := Locked [''1'', ''2''])\<rparr>"
  let ?s2 = "?s1\<lparr>sys_procs := (sys_procs ?s1)(0 := Working (versions (sys_db ?s1)) [''1'', ''2''] [''1'', ''2''])\<rparr>"
  have "?step ?s0 ?s1" by (rule migration_step.lock) simp_all
  moreover have "?step ?s1 ?s2" by (rule migration_step.select) simp
  moreover have m: "migrate_files example_script example_tx [] [''1'', ''2''] (sys_db ?s2) = (None, \<lparr>versions = [''1'', ''2''], contents = [''1'', ''2'']\<rparr>)"
    by (simp add: migrate_file_def example_script_def example_tx_def)
  from migrate_files_run [OF m, of 0 "[''1'', ''2'']" "\<lambda>v. v"] obtain s where
    "?step\<^sup>*\<^sup>* ?s2 s" "sys_db s = \<lparr>versions = [''1'', ''2''], contents = [''1'', ''2'']\<rparr>" "sys_procs s 0 = Succeeded [''1'', ''2'']"
    by (auto simp: example_tx_def)
  ultimately have run: "?step\<^sup>*\<^sup>* ?s0 s" and s: "sys_db s = \<lparr>versions = [''1'', ''2''], contents = [''1'', ''2'']\<rparr>" "sys_procs s 0 = Succeeded [''1'', ''2'']"
    by (auto intro: converse_rtranclp_into_rtranclp)
  have "started ?db ?s0" by (simp add: started_def)
  from migrations_apply_once [OF this _ run] run s show ?thesis by auto
qed

end
