(* ===== verification/Metrics.thy ===== *)
theory Metrics
  imports Conduit_Prelude
begin

text \<open>
  \<^verbatim>\<open>internal/metrics/metrics.go\<close>: the labels of the job metrics. A vector of counters is the association list of the label
  values seen and their counts, which is what it costs in memory; the histogram counts its observations. What is exported, and
  how, is Prometheus.

  Shown here: whatever task names callers send, a job metric has at most one series per known task and one for
  the rest, and no event is lost.
\<close>

definition TaskOther :: string where "TaskOther = ''other''"

datatype job_metric = JobEnqueued | JobStarted | JobCompleted | JobFailed | JobCancelled | JobDuration

record registry =
  knownTasks :: "string list"
  series :: "job_metric \<Rightarrow> (string \<times> nat) list"

definition NewRegistry :: registry where
  "NewRegistry = \<lparr>knownTasks = [], series = (\<lambda>_. [])\<rparr>"

definition SetKnownTasks :: "string list \<Rightarrow> registry \<Rightarrow> registry" where
  "SetKnownTasks names r = r\<lparr>knownTasks := remdups (filter (\<lambda>n. n \<noteq> '''') names)\<rparr>"

definition TaskLabel :: "registry \<Rightarrow> string \<Rightarrow> string" where
  "TaskLabel r task = (if task \<in> set (knownTasks r) then task else TaskOther)"

text \<open>\<^verbatim>\<open>WithLabelValues(...).Inc()\<close>: the counter of the label, made at its first use.\<close>

definition inc_label :: "string \<Rightarrow> (string \<times> nat) list \<Rightarrow> (string \<times> nat) list" where
  "inc_label l cs = AList.update l ((case map_of cs l of None \<Rightarrow> 0 | Some n \<Rightarrow> n) + 1) cs"

definition record_job :: "job_metric \<Rightarrow> string \<Rightarrow> registry \<Rightarrow> registry" where
  "record_job metric task r = r\<lparr>series := (series r)(metric := inc_label (TaskLabel r task) (series r metric))\<rparr>"

definition total :: "(string \<times> nat) list \<Rightarrow> nat" where
  "total cs = sum_list (map snd cs)"

lemma inc_label_keys: "distinct (map fst cs) \<Longrightarrow> distinct (map fst (inc_label l cs)) \<and> set (map fst (inc_label l cs)) = insert l (set (map fst cs))"
  by (simp add: inc_label_def distinct_update dom_update)

lemma inc_label_total: "distinct (map fst cs) \<Longrightarrow> total (inc_label l cs) = total cs + 1"
  unfolding inc_label_def total_def
proof (induction cs)
  case (Cons c cs)
  then show ?case by (cases c) (auto simp: map_of_eq_None_iff split: option.splits)
qed simp

definition metrics_inv :: "registry \<Rightarrow> bool" where
  "metrics_inv r \<longleftrightarrow> (\<forall>metric. distinct (map fst (series r metric)) \<and> set (map fst (series r metric)) \<subseteq> insert TaskOther (set (knownTasks r)))"

lemma record_job_inv:
  assumes "metrics_inv r"
  shows "metrics_inv (record_job metric task r)"
proof -
  have "distinct (map fst (series r metric))" using assms by (simp add: metrics_inv_def)
  from inc_label_keys [OF this, of "TaskLabel r task"] assms show ?thesis by (simp add: metrics_inv_def record_job_def) (simp add: TaskLabel_def)
qed

lemma record_job_total: "metrics_inv r \<Longrightarrow> total (series (record_job metric task r) m) = total (series r m) + (if m = metric then 1 else 0)"
  using inc_label_total [of "series r metric"] by (simp add: metrics_inv_def record_job_def)

lemma knownTasks_record [simp]: "knownTasks (record_job metric task r) = knownTasks r"
  by (simp add: record_job_def)

text \<open>
  Metrics are bounded. For every sequence of recorded events with any task names, a job metric has at most one series
  per known task and one more, and its counts add up to the number of its events.
\<close>

lemma metrics_bounded:
  "let r = fold (\<lambda>(metric, task). record_job metric task) events (SetKnownTasks names NewRegistry) in
     length (series r m) \<le> length names + 1 \<and> total (series r m) = length (filter (\<lambda>(metric, task). metric = m) events)"
proof -
  have run: "metrics_inv r \<Longrightarrow> metrics_inv (fold (\<lambda>(metric, task). record_job metric task) events r) \<and>
      knownTasks (fold (\<lambda>(metric, task). record_job metric task) events r) = knownTasks r \<and>
      total (series (fold (\<lambda>(metric, task). record_job metric task) events r) m) = total (series r m) + length (filter (\<lambda>(metric, task). metric = m) events)" for r
    by (induction events arbitrary: r) (auto simp: record_job_inv record_job_total)
  define r0 where "r0 = SetKnownTasks names NewRegistry"
  define r where "r = fold (\<lambda>(metric, task). record_job metric task) events r0"
  have "metrics_inv r0" by (simp add: r0_def metrics_inv_def SetKnownTasks_def NewRegistry_def)
  from run [OF this, folded r_def] have inv: "metrics_inv r" "knownTasks r = knownTasks r0"
    and tot: "total (series r m) = total (series r0 m) + length (filter (\<lambda>(metric, task). metric = m) events)" by auto
  have "length (series r m) = card (set (map fst (series r m)))"
    using inv unfolding metrics_inv_def by (metis distinct_card length_map)
  also have "\<dots> \<le> card (set (TaskOther # knownTasks r0))" using inv by (intro card_mono) (auto simp: metrics_inv_def)
  also have "\<dots> \<le> length (TaskOther # knownTasks r0)" by (rule card_length)
  also have "\<dots> \<le> length names + 1"
    using order_trans [OF length_remdups_leq length_filter_le] by (simp add: r0_def SetKnownTasks_def)
  finally show ?thesis using tot unfolding Let_def r_def r0_def by (simp add: SetKnownTasks_def NewRegistry_def total_def)
qed

end
