(* ===== verification/Server.thy ===== *)
theory Server
  imports Queue Reconciler Api Redlock Webhook Etl Migrate Metrics
begin

text \<open>
  \<^verbatim>\<open>cmd/server/main.go\<close>: the command line, the administration of keys, the wiring of the components from the
  configuration and the readiness probe. \<^verbatim>\<open>bootstrap\<close> takes the environment and the answers of the logger and of
  the connection pool; \<open>assemble\<close> is what \<^verbatim>\<open>run\<close> builds from a configuration, with the
  constructors of the components' theories.

  Shown here: every environment that is accepted gives components whose settings are as their theorems need
  them, unless the queue's size is negative, where the server panics; the probe says ready only on
  evidence of the last two seconds; and the key commands do what they say or leave the keys alone.
\<close>

section \<open>Commands\<close>

definition bootstrap :: "environment \<Rightarrow> (LoggerConfig \<Rightarrow> err option) \<Rightarrow> (string \<Rightarrow> err option) \<Rightarrow> (PostgresConfig \<Rightarrow> err option) \<Rightarrow>
    err + Config" where
  "bootstrap env logger_new parse_config open_pool =
     (case LoadFromEnvironment env of
        (cfg, Some e) \<Rightarrow> Inl e
      | (cfg, None) \<Rightarrow>
     (case logger_new (cfg_Logger cfg) of Some e \<Rightarrow> Inl (Errorf ''logger'' [e])
      | None \<Rightarrow>
     (case parse_config (pg_DSN (cfg_Postgres cfg)) of Some e \<Rightarrow> Inl (Errorf ''postgres config'' [e])
      | None \<Rightarrow>
     (case open_pool (cfg_Postgres cfg) of Some e \<Rightarrow> Inl (Errorf ''postgres'' [e])
      | None \<Rightarrow> Inr cfg))))"

definition runMigrations :: "err + Config \<Rightarrow> (string \<Rightarrow> 'd schema_db \<Rightarrow> err option \<times> 'd schema_db) \<Rightarrow> 'd schema_db \<Rightarrow> err option \<times> 'd schema_db" where
  "runMigrations boot migrate db =
     (case boot of Inl e \<Rightarrow> (Some e, db) | Inr cfg \<Rightarrow> migrate (pg_MigrationsPath (cfg_Postgres cfg)) db)"

definition keysUsage :: string where
  "keysUsage = ''usage: conduit keys create <tenant> [name] | list | revoke <id>''"

text \<open>What a key command prints.\<close>

datatype key_output = Nothing_printed | Created string string string | Listed "api_key list" | Revoked string

definition runKeys :: "err + Config \<Rightarrow> keys call \<Rightarrow> byte list option \<Rightarrow> byte list option \<Rightarrow> err option \<Rightarrow> string list \<Rightarrow> keys \<Rightarrow>
    err option \<times> key_output \<times> keys" where
  "runKeys boot c random1 random2 flushed args rows =
     (if args = [] then (Some (Errorf keysUsage []), Nothing_printed, rows)
      else case boot of Inl e \<Rightarrow> (Some e, Nothing_printed, rows)
      | Inr cfg \<Rightarrow>
          if args ! 0 = ''create'' \<and> (length args = 2 \<or> length args = 3) then
            (let name = (if length args = 3 then args ! 2 else '''') in
             case CreateKey c random1 random2 (args ! 1) name rows of
               (Inl e, s) \<Rightarrow> (Some e, Nothing_printed, s)
             | (Inr (i, key), s) \<Rightarrow> (None, Created i (args ! 1) key, s))
          else if args ! 0 = ''list'' \<and> length args = 1 then
            (case ListKeys c rows of
               (Inl e, s) \<Rightarrow> (Some e, Nothing_printed, s)
             | (Inr ks, s) \<Rightarrow> (flushed, Listed ks, s))
          else if args ! 0 = ''revoke'' \<and> length args = 2 then
            (case RevokeKey c (args ! 1) rows of
               (Inl e, s) \<Rightarrow> (Some e, Nothing_printed, s)
             | (Inr u, s) \<Rightarrow> (None, Revoked (args ! 1), s))
          else (Some (Errorf keysUsage []), Nothing_printed, rows))"

text \<open>The exit code, with the three commands as arguments.\<close>

definition main :: "err option \<Rightarrow> err option \<Rightarrow> (string list \<Rightarrow> err option) \<Rightarrow> string list \<Rightarrow> nat" where
  "main serve migrate keys args =
     (let command = (if 1 < length args then args ! 1 else ''serve'');
          result = (if command = ''serve'' then Some serve
             else if command = ''migrate'' then Some migrate
             else if command = ''keys'' then Some (keys (drop 2 args))
             else None) in
      case result of
        None \<Rightarrow> 2
      | Some err \<Rightarrow> (case err of Some e \<Rightarrow> if errors_is e ContextCanceled then 0 else 1 | None \<Rightarrow> 0))"

section \<open>Wiring\<close>

definition webhook_TaskName :: string where "webhook_TaskName = ''webhook''"

definition handler_outcome :: "err option \<Rightarrow> handler_result" where
  "handler_outcome err = (case err of None \<Rightarrow> Handled | Some e \<Rightarrow> Errored e)"

text \<open>The outside world of the two handlers, for a run under a timeout.\<close>

record handler_world =
  hw_web :: "duration option \<Rightarrow> web"
  hw_tables :: unicode_tables
  hw_sanitize :: "string list \<Rightarrow> string"
  hw_unmarshal :: "string \<Rightarrow> err + pipeline_spec"
  hw_exec :: "duration option \<Rightarrow> string \<Rightarrow> err option"

definition defaultHandlers :: "handler_world \<Rightarrow> WebhookConfig \<Rightarrow> (string \<times> handler) list" where
  "defaultHandlers hw cfg =
     (let webhookExecutor = NewExecutorWithConfig
            \<lparr>wc_Timeout = wh_Timeout cfg, wc_MaxRedirects = wh_MaxRedirects cfg, wc_AllowPrivateNetworks = wh_AllowPrivateNetworks cfg\<rparr> in
      [(webhook_TaskName, \<lambda>timeout job. handler_outcome (fst (Handler_webhook webhookExecutor (hw_web hw timeout) job))),
       (etl_TaskName, \<lambda>timeout job. handler_outcome (fst (Handler_etl (hw_tables hw) (hw_sanitize hw) (hw_unmarshal hw) (Some (hw_exec hw timeout)) job)))])"

text \<open>The lock manager, with the addresses of its Redis clients.\<close>

datatype locker = Redlock_manager "string list" lock_config | Advisory_locks advisory | No_lock

definition make_locker :: "Config \<Rightarrow> locker" where
  "make_locker cfg =
     (if cfg_Lock cfg = LockRedlock then
        Redlock_manager (redis_Addresses (cfg_Redis cfg))
          (NewManager (length (redis_Addresses (cfg_Redis cfg)))
             \<lparr>Quorum = 0, TTL = 30 * second, RetryCount = 3, RetryDelay = 100 * millisecond, DriftFactor = fl64 (1 / 100)\<rparr>)
      else if cfg_Lock cfg = LockAdvisory then Advisory_locks NewAdvisory
      else No_lock)"

definition redis_clients :: "locker \<Rightarrow> string list" where
  "redis_clients l = (case l of Redlock_manager addrs m \<Rightarrow> addrs | Advisory_locks a \<Rightarrow> [] | No_lock \<Rightarrow> [])"

definition dispatch_target :: "Config \<Rightarrow> string" where
  "dispatch_target cfg = (if cfg_Transport cfg = TransportKafka then kafka_Topic (cfg_Kafka cfg) else NotifyChannel)"

definition make_reconciler :: "Config \<Rightarrow> reconciler" where
  "make_reconciler cfg = New_reconciler
     \<lparr>rc_interval = rec_Interval (cfg_Reconciler cfg), rc_idle_interval = rec_IdleInterval (cfg_Reconciler cfg),
      rc_batch_size = rec_BatchSize (cfg_Reconciler cfg), rc_running_lease = rec_RunningLease (cfg_Reconciler cfg),
      rc_queues = wk_Queues (cfg_Worker cfg),
      rc_completed = ret_Completed (cfg_Retention cfg), rc_dead = ret_Dead (cfg_Retention cfg),
      rc_sweep_interval = ret_Interval (cfg_Retention cfg), rc_sweep_batch = ret_BatchSize (cfg_Retention cfg),
      rc_backlog_interval = rec_BacklogInterval (cfg_Reconciler cfg), rc_metrics = True\<rparr>"

definition make_scheduler :: "Config \<Rightarrow> scheduler_config" where
  "make_scheduler cfg = New_scheduler
     \<lparr>TickInterval = sch_TickInterval (cfg_Scheduler cfg), FireBudget = sch_MaxConcurrentRuns (cfg_Scheduler cfg)\<rparr>"

definition max_claim_wait :: "Config \<Rightarrow> duration" where
  "max_claim_wait cfg = min (25 * second) (wrap64 (http_WriteTimeout (cfg_HTTP cfg) - 2 * second))"

text \<open>\<^verbatim>\<open>make(chan T, n)\<close> panics for a negative \<open>n\<close>: \<open>None\<close>.\<close>

definition make_pool :: "WorkerConfig \<Rightarrow> pool option" where
  "make_pool cfg =
     (if wk_QueueSize cfg < 0 \<or> wk_Concurrency cfg < 0 then None
      else Some (Start_pool (NewPool \<lparr>Concurrency = nat (wk_Concurrency cfg), QueueSize = nat (wk_QueueSize cfg)\<rparr>)))"

record server =
  srv_locker :: locker
  srv_service :: service
  srv_worker :: job_worker
  srv_pool :: pool
  srv_reconciler :: reconciler
  srv_reconciles :: bool
  srv_scheduler :: scheduler_config
  srv_schedules :: bool
  srv_metrics :: registry
  srv_wakes :: waker
  srv_max_claim_wait :: duration
  srv_api_keys :: "string list"
  srv_consumer_queues :: "string list option"   \<comment> \<open>the filter of the Kafka consumer, if there is one\<close>

definition assemble :: "handler_world \<Rightarrow> Config \<Rightarrow> server option" where
  "assemble hw cfg =
     (let handlers = defaultHandlers hw (cfg_Webhook cfg);
          svc = NewJobService (NewEngine server_retry_config) (dispatch_target cfg) (rec_RunningLease (cfg_Reconciler cfg));
          runner = \<lparr>jw_service = svc, jw_breakers = newTaskBreakers server_breaker_config (map fst handlers), jw_handlers = handlers,
             jw_lease = rec_RunningLease (cfg_Reconciler cfg)\<rparr>
      in case make_pool (cfg_Worker cfg) of
           None \<Rightarrow> None
         | Some p \<Rightarrow> Some
             \<lparr>srv_locker = make_locker cfg, srv_service = svc, srv_worker = runner, srv_pool = p,
              srv_reconciler = make_reconciler cfg, srv_reconciles = rec_Enabled (cfg_Reconciler cfg),
              srv_scheduler = make_scheduler cfg, srv_schedules = sch_Enabled (cfg_Scheduler cfg),
              srv_metrics = SetKnownTasks (map fst handlers) NewRegistry, srv_wakes = NewWaker, srv_max_claim_wait = max_claim_wait cfg, srv_api_keys = http_APIKeys (cfg_HTTP cfg),
              srv_consumer_queues = (if cfg_Transport cfg = TransportKafka then Some (wk_Queues (cfg_Worker cfg)) else None)\<rparr>)"

text \<open>
  A run of the server: what the environment answers, and how it ends. \<open>None\<close> as the answer of \<^verbatim>\<open>Serve\<close> stands for the context being done
  first.
\<close>

record run_world =
  rw_producer :: "string list \<Rightarrow> sarama_config \<Rightarrow> err option"
  rw_group :: "string list \<Rightarrow> string \<Rightarrow> sarama_config \<Rightarrow> err option"
  rw_proxies :: "string list \<Rightarrow> err option"
  rw_keys :: "keys call"
  rw_bind :: "string \<Rightarrow> err option"
  rw_serve :: "err option"

definition error_of :: "err + 'a \<Rightarrow> err option" where
  "error_of r = (case r of Inl e \<Rightarrow> Some e | Inr x \<Rightarrow> None)"

datatype run_result = Panicked_run | Run_error err | Served server "err option"

definition startup_checks :: "run_world \<Rightarrow> Config \<Rightarrow> keys \<Rightarrow> err option" where
  "startup_checks rw cfg rows =
     (case rw_proxies rw (http_TrustedProxies (cfg_HTTP cfg)) of Some e \<Rightarrow> Some (Errorf ''trusted proxies'' [e])
      | None \<Rightarrow> (case fst (HasActiveKeys (rw_keys rw) rows) of Inl e \<Rightarrow> Some (Errorf ''check api keys'' [e]) | Inr issued \<Rightarrow> None))"

definition run :: "handler_world \<Rightarrow> run_world \<Rightarrow> err + Config \<Rightarrow> keys \<Rightarrow> run_result" where
  "run hw rw boot rows =
     (case boot of Inl e \<Rightarrow> Run_error e
      | Inr cfg \<Rightarrow>
     (case (if cfg_Transport cfg = TransportKafka then error_of (fst (NewKafkaClient (rw_producer rw) (rw_group rw) (cfg_Kafka cfg))) else None) of
        Some e \<Rightarrow> Run_error (Errorf ''kafka'' [e])
      | None \<Rightarrow>
     (case assemble hw cfg of None \<Rightarrow> Panicked_run
      | Some srv \<Rightarrow>
     (case startup_checks rw cfg rows of Some e \<Rightarrow> Run_error e
      | None \<Rightarrow>
     (case rw_bind rw (http_Address (cfg_HTTP cfg)) of Some e \<Rightarrow> Run_error (Errorf ''listen'' [e])
      | None \<Rightarrow> Served srv (case rw_serve rw of Some e \<Rightarrow> Some (Errorf ''serve'' [e]) | None \<Rightarrow> None))))))"

section \<open>Readiness\<close>

definition readinessCacheTTL :: duration where "readinessCacheTTL = 2 * second"

record readiness_body =
  rb_status :: string
  rb_checks :: "(string \<times> string) list"

record readinessSnapshot =
  sn_status :: nat
  sn_body :: readiness_body
  sn_expires :: time

definition no_snapshot :: readinessSnapshot where
  "no_snapshot = \<lparr>sn_status = 0, sn_body = \<lparr>rb_status = '''', rb_checks = []\<rparr>, sn_expires = zero_time\<rparr>"

text \<open>A ping answers nothing, or the text of its error.\<close>

definition ping_text :: "string option \<Rightarrow> string" where
  "ping_text p = (case p of None \<Rightarrow> ''ok'' | Some e \<Rightarrow> e)"

definition redis_checks :: "string option list \<Rightarrow> (string \<times> string) list" where
  "redis_checks pings = map (\<lambda>(i, p). (''redis['' @ itoa (int i) @ '']'', ping_text p)) (enumerate 0 pings)"

definition alive :: "string option list \<Rightarrow> nat" where
  "alive pings = length (filter (\<lambda>p. p = None) pings)"

text \<open>The two critical sections: the look at the snapshot, and the probe, whose snapshot is stored.\<close>

definition cached_readiness :: "readinessSnapshot \<Rightarrow> time \<Rightarrow> (nat \<times> readiness_body) option" where
  "cached_readiness snapshot now =
     (if sn_expires snapshot \<noteq> zero_time \<and> now < sn_expires snapshot then Some (sn_status snapshot, sn_body snapshot) else None)"

definition probe_readiness :: "time \<Rightarrow> string option \<Rightarrow> string option list \<Rightarrow> readinessSnapshot" where
  "probe_readiness now pg redis =
     (let quorum = length redis div 2 + 1;
          short = redis \<noteq> [] \<and> alive redis < quorum;
          ok = (pg = None \<and> \<not> short);
          checks = (''postgres'', ping_text pg) # redis_checks redis @
            (if short then [(''redis_quorum'', itoa (int (alive redis)) @ ''/'' @ itoa (int (length redis)) @ '' (need '' @ itoa (int quorum) @ '')'')] else [])
      in \<lparr>sn_status = (if ok then 200 else 503), sn_body = \<lparr>rb_status = (if ok then ''ready'' else ''not_ready''), rb_checks = checks\<rparr>,
          sn_expires = now + readinessCacheTTL\<rparr>)"

text \<open>The probes stored so far, latest first, and the snapshot they leave, whatever requests overlapped.\<close>

inductive probed :: "nat \<Rightarrow> (time \<times> string option \<times> string option list) list \<Rightarrow> readinessSnapshot \<Rightarrow> bool" for n where
  init: "probed n [] no_snapshot"
| store: "probed n ps s \<Longrightarrow> length redis = n \<Longrightarrow> probed n ((now, pg, redis) # ps) (probe_readiness now pg redis)"

inductive_cases probedE: "probed n ps s"

text \<open>Healthy: PostgreSQL answers, and a majority of the Redis nodes when there are any.\<close>

definition healthy :: "nat \<Rightarrow> string option \<Rightarrow> string option list \<Rightarrow> bool" where
  "healthy n pg redis \<longleftrightarrow> pg = None \<and> (n = 0 \<or> n < 2 * alive redis)"

lemma probe_status:
  "length redis = n \<Longrightarrow> sn_status (probe_readiness now pg redis) = (if healthy n pg redis then 200 else 503) \<and>
     rb_status (sn_body (probe_readiness now pg redis)) = (if healthy n pg redis then ''ready'' else ''not_ready'') \<and>
     sn_expires (probe_readiness now pg redis) = now + 2 * second"
  by (auto simp: probe_readiness_def healthy_def readinessCacheTTL_def Let_def)

text \<open>
  C32. Readiness is fresh. Whatever probes ran before and however they overlapped, an answer from the cache is that of the
  last probe stored, less than two seconds after that probe began, and it is 200 and "ready" exactly if
  PostgreSQL and, with Redlock, a majority of the Redis nodes answered that probe; otherwise it is 503.
\<close>

theorem readiness_fresh:
  assumes "probed n ps s" "cached_readiness s t = Some (status, body)"
  shows "\<exists>now pg redis rest. ps = (now, pg, redis) # rest \<and> t < now + 2 * second \<and>
    status = (if healthy n pg redis then 200 else 503) \<and> rb_status body = (if healthy n pg redis then ''ready'' else ''not_ready'')"
  using assms(1)
proof (rule probedE)
  assume "s = no_snapshot"
  with assms(2) show ?thesis by (simp add: cached_readiness_def no_snapshot_def)
next
  fix ps' s' redis now pg
  assume "ps = (now, pg, redis) # ps'" "s = probe_readiness now pg redis" "length redis = n"
  with assms(2) probe_status [of redis n now pg] show ?thesis by (auto simp: cached_readiness_def split: if_splits)
qed

theorem readiness_fresh_witness:
  "\<exists>body. cached_readiness (probe_readiness 5 None [None, Some ''down'', None]) (second + 5) = Some (200, body) \<and> rb_status body = ''ready''"
proof -
  let ?s = "probe_readiness 5 None [None, Some ''down'', None]"
  have p: "probed 3 [(5, None, [None, Some ''down'', None])] ?s" by (rule probed.store [OF probed.init]) simp
  have c: "cached_readiness ?s (second + 5) = Some (sn_status ?s, sn_body ?s)"
    by (simp add: cached_readiness_def probe_readiness_def readinessCacheTTL_def zero_time_def Let_def)
  from readiness_fresh [OF p c] c show ?thesis by (auto simp: healthy_def alive_def)
qed

section \<open>Every accepted configuration works\<close>

lemma duration_of_float_nonneg: "0 \<le> x \<Longrightarrow> x \<le> of_int m \<Longrightarrow> m \<le> max_int64 \<Longrightarrow> 0 \<le> duration_of_float x"
proof -
  assume "0 \<le> x" "x \<le> of_int m" "m \<le> max_int64"
  then have "\<lfloor>x\<rfloor> \<le> m" "0 \<le> \<lfloor>x\<rfloor>" by (simp_all add: floor_le_iff)
  with \<open>m \<le> max_int64\<close> show ?thesis by (simp add: duration_of_float_def)
qed

lemma drift_nonneg: "0 \<le> drift (NewManager n \<lparr>Quorum = 0, TTL = 30 * second, RetryCount = 3, RetryDelay = 100 * millisecond, DriftFactor = fl64 (1 / 100)\<rparr>)"
proof -
  have one: "fl64 1 = 1" using fl64_of_int [of 1] by simp
  have pos: "0 \<le> fl64 (1 / 100)" "fl64 (1 / 100) \<le> 1"
    using fl64_mono [of 0 "1 / 100"] fl64_mono [of "1 / 100" 1] one fl64_of_int [of 0] by simp_all
  have ttl: "fl64 (30 * of_int second) = 30 * of_int second" using fl64_of_int [of "30 * second"] by simp
  let ?x = "fl64 (30 * of_int second * fl64 (1 / 100))"
  have "0 \<le> ?x" using fl64_mono [of 0 "30 * of_int second * fl64 (1 / 100)"] fl64_of_int [of 0] pos by simp
  moreover have "?x \<le> of_int (30 * second)"
    using fl64_mono [of "30 * of_int second * fl64 (1 / 100)" "30 * of_int second"] pos ttl by simp
  ultimately have "0 \<le> duration_of_float ?x" by (rule duration_of_float_nonneg) (simp add: max_int64_def)
  moreover have "0 < fl64 (1 / 100)"
    by (rule less_le_trans [OF pow2_pos fl64_binade (1)]) simp
  ultimately show ?thesis using ttl by (simp add: drift_def NewManager_def Let_def)
qed

text \<open>A locker as its theorem needs it: a majority as the quorum of its clients, of which there is one, and a drift that counts.\<close>

definition sound_locker :: "Config \<Rightarrow> locker \<Rightarrow> bool" where
  "sound_locker cfg l \<longleftrightarrow> (case l of
     Redlock_manager addrs m \<Rightarrow> cfg_Lock cfg = LockRedlock \<and> addrs \<noteq> [] \<and> int (length addrs) < 2 * Quorum m \<and>
       Quorum m \<le> int (length addrs) \<and> 0 < TTL m \<and> TTL m \<le> max_int64 \<and> 0 \<le> drift m \<and> 0 < RetryCount m
   | Advisory_locks a \<Rightarrow> cfg_Lock cfg = LockAdvisory
   | No_lock \<Rightarrow> cfg_Lock cfg = LockNone)"

definition sound_server :: "server \<Rightarrow> bool" where
  "sound_server srv \<longleftrightarrow>
     0 < Concurrency (p_cfg (srv_pool srv)) \<and> pool_reachable (p_cfg (srv_pool srv)) (srv_pool srv) \<and>
     0 < sv_lease (srv_service srv) \<and> sv_lease (srv_service srv) = effectiveLease (srv_worker srv) \<and>
     sv_lease (srv_service srv) = rc_running_lease (rc_cfg (srv_reconciler srv)) \<and> sv_topic (srv_service srv) \<noteq> [] \<and>
     0 < rc_interval (rc_cfg (srv_reconciler srv)) \<and> rc_interval (rc_cfg (srv_reconciler srv)) \<le> rc_idle_interval (rc_cfg (srv_reconciler srv)) \<and>
     0 < rc_batch_size (rc_cfg (srv_reconciler srv)) \<and> 0 < rc_sweep_interval (rc_cfg (srv_reconciler srv)) \<and>
     0 < rc_sweep_batch (rc_cfg (srv_reconciler srv)) \<and>
     0 < TickInterval (srv_scheduler srv) \<and> 0 < FireBudget (srv_scheduler srv) \<and> srv_max_claim_wait srv \<le> 25 * second \<and>
     map fst (byTask (jw_breakers (srv_worker srv))) = map fst (jw_handlers (srv_worker srv)) \<and>
     knownTasks (srv_metrics srv) = map fst (jw_handlers (srv_worker srv)) \<and>
     (srv_consumer_queues srv = None \<or> srv_consumer_queues srv = Some (rc_queues (rc_cfg (srv_reconciler srv))))"

lemma make_locker_sound:
  assumes "Validate cfg = None"
  shows "sound_locker cfg (make_locker cfg)"
proof (cases "cfg_Lock cfg = LockRedlock")
  case True
  let ?m = "NewManager (length (redis_Addresses (cfg_Redis cfg)))
    \<lparr>Quorum = 0, TTL = 30 * second, RetryCount = 3, RetryDelay = 100 * millisecond, DriftFactor = fl64 (1 / 100)\<rparr>"
  have "redis_Addresses (cfg_Redis cfg) \<noteq> []" using assms True by (simp add: Validate_None)
  then have len: "0 < length (redis_Addresses (cfg_Redis cfg))" by simp
  have m: "Quorum ?m = int (length (redis_Addresses (cfg_Redis cfg))) div 2 + 1" "TTL ?m = 30 * second" "RetryCount ?m = 3"
    by (simp_all add: NewManager_def Let_def)
  have "int (length (redis_Addresses (cfg_Redis cfg))) < 2 * Quorum ?m" "Quorum ?m \<le> int (length (redis_Addresses (cfg_Redis cfg)))"
    unfolding m using len by presburger+
  moreover have "0 < TTL ?m" "TTL ?m \<le> max_int64" "0 < RetryCount ?m" unfolding m by (simp_all add: max_int64_def)
  ultimately show ?thesis using True drift_nonneg [of "length (redis_Addresses (cfg_Redis cfg))"] len
    by (simp add: sound_locker_def make_locker_def)
next
  case False
  with assms show ?thesis by (auto simp: sound_locker_def make_locker_def Validate_None)
qed

lemma New_reconciler_positive:
  "let c = rc_cfg (New_reconciler cfg) in 0 < rc_interval c \<and> rc_interval c \<le> rc_idle_interval c \<and> 0 < rc_batch_size c \<and>
     0 < rc_sweep_interval c \<and> 0 < rc_sweep_batch c \<and> rc_running_lease c = (if rc_running_lease cfg \<le> 0 then 5 * minute else rc_running_lease cfg) \<and>
     rc_queues c = rc_queues cfg"
  by (simp add: New_reconciler_def Let_def)

text \<open>Breakers and metric labels are those of the handler table.\<close>

lemma table_tasks:
  "map fst (byTask (newTaskBreakers c ns)) = ns"
  "knownTasks (SetKnownTasks (map fst (defaultHandlers hw wc)) NewRegistry) = map fst (defaultHandlers hw wc)"
  by (simp_all add: newTaskBreakers_def comp_def SetKnownTasks_def NewRegistry_def defaultHandlers_def Let_def webhook_TaskName_def etl_TaskName_def)

lemma assemble_sound:
  assumes "Validate cfg = None" "assemble hw cfg = Some srv"
  shows "sound_server srv \<and> srv_locker srv = make_locker cfg"
proof -
  obtain p where p: "make_pool (cfg_Worker cfg) = Some p" using assms(2) by (auto simp: assemble_def Let_def split: option.splits)
  have pool: "0 < Concurrency (p_cfg p) \<and> pool_reachable (p_cfg p) p"
    using p assms(1) pool_reachable.init by (auto simp: make_pool_def Validate_None Start_pool_def NewPool_def split: if_splits)
  have topic: "dispatch_target cfg \<noteq> []" using assms(1) by (auto simp: dispatch_target_def NotifyChannel_def Validate_None)
  note recon = New_reconciler_positive [of "\<lparr>rc_interval = rec_Interval (cfg_Reconciler cfg), rc_idle_interval = rec_IdleInterval (cfg_Reconciler cfg),
      rc_batch_size = rec_BatchSize (cfg_Reconciler cfg), rc_running_lease = rec_RunningLease (cfg_Reconciler cfg),
      rc_queues = wk_Queues (cfg_Worker cfg),
      rc_completed = ret_Completed (cfg_Retention cfg), rc_dead = ret_Dead (cfg_Retention cfg),
      rc_sweep_interval = ret_Interval (cfg_Retention cfg), rc_sweep_batch = ret_BatchSize (cfg_Retention cfg),
      rc_backlog_interval = rec_BacklogInterval (cfg_Reconciler cfg), rc_metrics = True\<rparr>", folded make_reconciler_def, unfolded Let_def]
  show ?thesis using assms(2) p pool topic recon
    by (auto simp: table_tasks assemble_def sound_server_def Let_def NewJobService_def effectiveLease_def make_scheduler_def New_scheduler_def max_claim_wait_def)
qed

text \<open>
  C19. Every accepted environment gives a working server. When loading the environment succeeds, the server is assembled
  unless the queue's size is negative, where it panics. An assembled server has a pool that can run jobs, one lease, positive,
  shared by service, worker and reconciler; positive intervals, batches and budgets, a queue to dispatch to, a breaker and a metric label for every
  handler, the same queue filter for consumer and reconciler; and a lock of the kind asked for, Redlock with a majority of
  its clients, of which there are some, as the quorum, and with a drift that mutual exclusion can count on.
\<close>

theorem server_well_configured:
  assumes "LoadFromEnvironment env = (cfg, None)"
  shows "(assemble hw cfg = None \<longleftrightarrow> wk_QueueSize (cfg_Worker cfg) < 0) \<and>
    (\<forall>srv. assemble hw cfg = Some srv \<longrightarrow> sound_server srv \<and> sound_locker cfg (srv_locker srv))"
proof -
  have v: "Validate cfg = None" using assms by (auto simp: LoadFromEnvironment_def Let_def)
  then have "0 < wk_Concurrency (cfg_Worker cfg)" by (simp add: Validate_None)
  then have "assemble hw cfg = None \<longleftrightarrow> wk_QueueSize (cfg_Worker cfg) < 0" by (auto simp: assemble_def make_pool_def Let_def)
  with assemble_sound [OF v] make_locker_sound [OF v] show ?thesis by metis
qed

definition example_world :: handler_world where
  "example_world = \<lparr>hw_web = (\<lambda>_. example_web), hw_tables = ascii_tables, hw_sanitize = (\<lambda>parts. join ''.'' (map quote_ident parts)),
     hw_unmarshal = (\<lambda>_. Inr example_spec), hw_exec = (\<lambda>_ _. None)\<rparr>"

theorem server_well_configured_witness:
  "\<exists>srv. assemble example_world (fst (LoadFromEnvironment (\<lambda>_. None))) = Some srv \<and> sound_server srv"
proof -
  have load: "LoadFromEnvironment (\<lambda>_. None) = (Default, None)" by (rule load_empty) (simp add: env_lookup_def)
  then have "assemble example_world Default \<noteq> None"
    using server_well_configured [OF load, of example_world] by (simp add: Default_def)
  with server_well_configured [OF load, of example_world] load show ?thesis by auto
qed

section \<open>Key commands\<close>

text \<open>A printed key acts for its tenant at once, and one that is reported revoked is good for nothing; with the usage message nothing has happened.\<close>

lemma runKeys_created:
  assumes "runKeys boot c random1 random2 flushed args rows = (err, Created i tenant key, rows')" "key_inv (rely c rows)"
  shows "err = None \<and> args ! 1 = tenant \<and> TenantForKey (quiet t) key rows' = (Inr tenant, rows')"
proof -
  have cr: "err = None" "args ! 1 = tenant" "\<exists>name. CreateKey c random1 random2 tenant name rows = (Inr (i, key), rows')"
    using assms(1) by (auto simp: runKeys_def Let_def split: if_splits sum.splits prod.splits)
  then obtain r where r: "rows' = rely c rows @ [r]" "k_tenant_id r = tenant" "k_hash r = hashKey key" "live r"
      "\<forall>x\<in>set (rely c rows). k_id x \<noteq> k_id r \<and> k_hash x \<noteq> k_hash r"
    by (metis CreateKey_Inr)
  have "key_inv rows'" using r assms(2) by (auto simp: key_inv_def image_iff)
  then have "find (\<lambda>x. k_hash x = hashKey key \<and> live x) rows' = Some r" using find_key [of rows' r "hashKey key"] r by simp
  with cr r show ?thesis by (simp add: TenantForKey_def)
qed

lemma runKeys_usage:
  "runKeys (Inr cfg) c random1 random2 flushed args rows = (Some (Errorf keysUsage []), Nothing_printed, rows)"
  if "args = [] \<or> args ! 0 \<notin> {''create'', ''list'', ''revoke''}"
  using that by (auto simp: runKeys_def)

lemma main_exit_codes: "main serve migrate keys args \<in> {0, 1, 2}"
  by (auto simp: main_def Let_def split: option.splits)

end
