(* ===== verification/Spec2Isabelle.thy ===== *)
theory Spec2Isabelle
  imports Server Wire
begin

text \<open>
  A verification of Conduit, a durable job queue over PostgreSQL.

  \<^bold>\<open>The program.\<close> Jobs are rows of a table. Callers enqueue them over HTTP (\<^verbatim>\<open>internal/api\<close> on top of
  \<^verbatim>\<open>internal/service\<close>); executors claim them with a lease, under a token, and report the outcome under that token: the
  worker pool of the server process (\<^verbatim>\<open>internal/worker\<close>, \<^verbatim>\<open>jobWorker\<close> in \<^verbatim>\<open>cmd/server/main.go\<close>), fed by the reconciler
  (\<^verbatim>\<open>internal/reconciler\<close>) or by Kafka (\<^verbatim>\<open>internal/queue\<close>), and remote workers over the pull endpoints. The reconciler
  recovers expired leases and deletes old rows; the scheduler (\<^verbatim>\<open>internal/scheduler\<close>) turns cron schedules into jobs. A
  job runs behind a circuit breaker and an execution lock, in one of two handlers, \<^verbatim>\<open>webhook\<close> and \<^verbatim>\<open>sql.etl\<close>. Any number of
  server processes share the database and nothing else.

  \<^bold>\<open>How it is modelled.\<close> A table is the list of its rows, a statement a function on it, and PostgreSQL runs the
  statements one after the other. A method of a store takes a \<open>call\<close> (\<open>Conduit_Prelude\<close>): what other processes did to the
  table before the statement (\<open>rely\<close>), the clock of the database, and whether the request or the reply is lost. So a
  theorem about a method that leaves its \<open>call\<close> open holds under every interference and every such failure. Clocks, random bytes and
  the order of goroutines are arguments too. Instants and durations are integers of nanoseconds, with the wrap-around of \<^verbatim>\<open>int64\<close>
  where the code multiplies or subtracts; \<^verbatim>\<open>float64\<close> is a rational under round-to-nearest (\<open>fl64\<close>); a Go string is the list of
  its bytes; an error is a value of \<open>err\<close>, with \<^verbatim>\<open>errors.Is\<close> as \<open>errors_is\<close>.

  \<^bold>\<open>Theories.\<close>
  \<^item> Shared: \<open>Conduit_Prelude\<close> (clocks, errors, calls, SQL updates, the locale \<open>keyed_update\<close>); Go's standard library as far as it is
    used in \<open>Go_Strings\<close>, \<open>Go_Utf8\<close>, \<open>Go_Duration\<close>, \<open>Base64\<close>, \<open>Calendar\<close>, \<open>Ip_Addr\<close>.
  \<^item> Data: \<open>Models\<close> (jobs, tasks, schedules of \<^verbatim>\<open>pkg/models\<close>), \<open>Wire\<close> (their JSON codecs), \<open>Configuration\<close> (\<^verbatim>\<open>internal/config\<close>).
  \<^item> Stores, \<^verbatim>\<open>internal/store\<close>: \<open>Job_Store\<close> (every statement on the jobs table, each with the function it applies to a row, such as
    \<open>claim_set\<close>, and its condition, such as \<open>holds_lease\<close>), \<open>Job_List\<close> (pages and cursors), \<open>Store_System\<close> (the table shared by all
    processes, as a step relation), \<open>Schedule_Store\<close>, \<open>Key_Store\<close> (with SHA-256), \<open>Migrate\<close>.
  \<^item> Services: \<open>Job_Service\<close>, \<open>Retry\<close>, \<open>Circuit_Breaker\<close>, \<open>Cron\<close> and \<open>Scheduler\<close>, \<open>Reconciler\<close>, \<open>Advisory_Lock\<close> and \<open>Redlock\<close>
    (\<^verbatim>\<open>internal/lock\<close>), \<open>Webhook\<close>, \<open>Etl\<close>, \<open>Queue\<close>, \<open>Metrics\<close>.
  \<^item> Processes: \<open>Pool\<close> and \<open>Worker\<close> (execution), \<open>Api\<close> (authentication and handlers), \<open>Server\<close> (\<^verbatim>\<open>cmd/server/main.go\<close>: commands,
    wiring, readiness).
  Definitions have the names of the functions they model, with a suffix where two packages use the same one.

  \<^bold>\<open>What is shown.\<close>
  \<^item> The jobs table, in every interleaving of statements: it stays well formed, every change is an edge of the life cycle, a token
    that lost its lease is refused for ever, leases per job are bounded by the budget and the hand-backs (\<open>Store_System\<close>);
    and the methods and services only take steps of that system (\<open>methods_keep_reachable\<close>, \<open>service_keeps_reachable\<close>).
  \<^item> Claims take the best due job; recovery, retention and listing do what they say, completely (\<open>Job_Store\<close>, \<open>Job_List\<close>,
    \<open>Reconciler\<close>).
  \<^item> Enqueueing with a key is idempotent, a failure is retried or buried by its attempt, delays stay within their bounds, a cron
    expression fires at its earliest minute and exactly once (\<open>Job_Service\<close>, \<open>Retry\<close>, \<open>Cron\<close>, \<open>Scheduler\<close>).
  \<^item> A run of a job settles it, the pool is bounded and loses nothing, the consumer marks only messages that are settled, locks exclude
    (\<open>Worker\<close>, \<open>Pool\<close>, \<open>Queue\<close>, \<open>Advisory_Lock\<close>, \<open>Redlock\<close>).
  \<^item> Requests are authenticated or refused, confined to their tenant, and fenced by their lease; \<^verbatim>\<open>sql.etl\<close> is for the default tenant
    only; webhooks contact checked addresses only, within the limit of redirects (\<open>Api\<close>, \<open>Key_Store\<close>, \<open>Webhook\<close>, \<open>Etl\<close>).
  \<^item> Migrations apply once; every accepted configuration gives components whose settings meet what the theorems about them
    assume; readiness is fresh (\<open>Migrate\<close>, \<open>Configuration\<close>, \<open>Server\<close>).
  \<^item> Where the code does not do what it means to, a theorem or lemma shows the behaviour: \<open>server_breaker_stuck_half_open\<close>,
    \<open>leap_day_never_fires\<close>, \<open>shutdown_abandons_job\<close>, \<open>rejected_claim_keeps_lease\<close>, \<open>replay_resets_attempts\<close>,
    \<open>unspecified_slips_through\<close>, \<open>one_redirect_follows_none\<close>, \<open>escape_literal_hides_statement\<close>, \<open>dollar_quote_hides_statement\<close>,
    \<open>release_of_a_lost_lock\<close>, \<open>submit_after_stop_crashes\<close>, and the panic in \<open>server_well_configured\<close>.

  \<^bold>\<open>Parameters.\<close> Code outside the repository is an argument with the laws the program relies on as a named predicate or locale: the advisory
  locks of PostgreSQL (\<open>advisory_server\<close>), Redis (\<open>redis_node\<close>), the JSON encoder (\<open>json_codec\<close>), the resolver (\<open>resolver_wf\<close>), the
  quoting of identifiers (\<open>sanitizes\<close>), the network, Kafka's client, the file system. Each law has an instance that meets
  it.

  \<^bold>\<open>Bounds.\<close> Loops that end are total functions. The long poll of \<open>ClaimJob\<close> may run for ever if the clock stands still; it is a
  \<^theory_text>\<open>partial_function\<close>, and \<open>long_poll_ends\<close> shows that it returns when the clock passes the deadline. The loops with a limit in the
  code keep that limit as their fuel: the retention sweep its \<open>maxSweepBatches\<close>, the search of \<^verbatim>\<open>Next\<close> its window of minutes, Redlock its
  retries. Loops around a channel or a connection run over the list of what arrives.

  \<^bold>\<open>Not modelled.\<close>
  \<^item> Logging and request logs, the gauges of the metrics and their export: they decide nothing.
  \<^item> \<^verbatim>\<open>Start\<close> and \<^verbatim>\<open>Stop\<close> of scheduler and reconciler, goroutines around a timer: a pass is modelled, and when it runs is left open, which
    covers every timing. The order of the steps of a shutdown is covered only as far as the pool has it.
  \<^item> The router, the binding of requests and the recovery from panics of gin, \<^verbatim>\<open>net/http\<close>, signals: a handler starts from the bound
    request.
  \<^item> The SQL text itself: a statement is modelled by what it does, not parsed; isolation below one statement is that of
    PostgreSQL.
  \<^item> Memory: \<^verbatim>\<open>make\<close> panics for a negative size here, never for one that is too large.
\<close>

section \<open>From the environment to a running pool\<close>

text \<open>
  The settings reach the pool: a server fed by Kafka runs at most
  \<^verbatim>\<open>CONDUIT_WORKER_CONCURRENCY\<close> jobs, keeps at most \<^verbatim>\<open>CONDUIT_WORKER_QUEUE_SIZE\<close> waiting, and accounts for every job it has accepted.
\<close>

lemma configured_pool_bounded:
  assumes "assemble hw cfg = Some srv"
    and "list_all others_step es" "ConsumeClaim decode queues es (srv_pool srv) = (marked, p)"
  shows "int (length (p_running p)) \<le> wk_Concurrency (cfg_Worker cfg) \<and> int (length (p_queue p)) \<le> wk_QueueSize (cfg_Worker cfg) \<and>
    mset (p_accepted p) = in_pool p + mset (p_finished p)"
proof -
  let ?c = "\<lparr>Concurrency = nat (wk_Concurrency (cfg_Worker cfg)), QueueSize = nat (wk_QueueSize (cfg_Worker cfg))\<rparr>"
  have pool: "make_pool (cfg_Worker cfg) = Some (srv_pool srv)" using assms(1) by (auto simp: assemble_def Let_def split: option.splits)
  then have size: "0 \<le> wk_Concurrency (cfg_Worker cfg)" "0 \<le> wk_QueueSize (cfg_Worker cfg)" and start: "srv_pool srv = Start_pool (NewPool ?c)"
    by (auto simp: make_pool_def split: if_splits)
  have "pool_reachable ?c (srv_pool srv)" unfolding start by (rule pool_reachable.init)
  from pool_steps_reachable [OF conjunct1 [OF consume_claim_run [OF assms(3,2)]] this] have "pool_inv p \<and> p_cfg p = ?c"
    by (rule pool_reachable_inv)
  with size show ?thesis by (auto simp: pool_inv_def)
qed

end
